(* ===== verification/SFU_Prelude.thy ===== *)
theory SFU_Prelude
  imports Main "HOL-Library.Word" "HOL-Library.Monad_Syntax"
begin

unbundle bit_operations_syntax

text \<open>
  The shared vocabulary of the development: the C integer types as words, byte
  buffers with checked accesses, the value of a fallible C function, and the
  generic lemmas on words, lists and checked accesses the component theories use.

  A \<^verbatim>\<open>uint8_t *\<close> argument is the list of bytes that may be accessed through it, so
  the pointer \<^verbatim>\<open>p + k\<close> is \<open>drop k p\<close>.  Every read and write goes through a
  checked access of type \<open>'a option\<close>: \<open>None\<close> is an access outside the buffer, which
  is undefined behaviour in C.  A model therefore shows where the code relies on
  its own bounds checks, and memory safety is the statement that no input makes it
  \<open>None\<close>.  A C function that returns \<^verbatim>\<open>bool\<close> and fills an out-parameter returns
  \<open>Reject\<close> for \<^verbatim>\<open>false\<close> and \<open>Accept v\<close> for \<^verbatim>\<open>true\<close> with \<open>v\<close> stored.
  \<^verbatim>\<open>size_t\<close> values are natural numbers; \<open>SIZE_MAX\<close> is their bound where the
  code compares with it.
\<close>

section \<open>Machine integers, buffers, results\<close>

type_synonym u8 = "8 word"
type_synonym u16 = "16 word"
type_synonym u32 = "32 word"
type_synonym u64 = "64 word"
type_synonym bytes = "u8 list"

datatype 'a ret = Reject | Accept 'a

abbreviation SIZE_MAX :: nat where
  "SIZE_MAX \<equiv> 2 ^ 64 - 1"

named_theorems mem_simps \<open>checked accesses under their bounds\<close>
named_theorems byte_simps \<open>bytes of multi-byte integers\<close>

text \<open>Byte offsets stay numerals: no normalisation of \<open>i + 1\<close> and \<open>i + 2\<close> to successors.\<close>

declare One_nat_def [simp del] add_2_eq_Suc [simp del] add_2_eq_Suc' [simp del]

lemma offset_add [simp]:
  "i + 1 + 1 = i + (2 :: nat)"
  "i + 1 + numeral k = i + (numeral (Num.One + k) :: nat)"
  "i + numeral k + 1 = i + (numeral (k + Num.One) :: nat)"
  "i + numeral k + numeral l = i + (numeral (k + l) :: nat)"
  by simp_all

lemma case_nat_1 [simp]: "case_nat a f 1 = f 0"
  by (simp add: One_nat_def)

lemma list_1 [simp]: "drop 1 (x # xs) = xs" "take 1 (x # xs) = [x]" "replicate 1 x = [x]"
  by (simp_all add: One_nat_def)

lemma take_bit_num_1 [simp]:
  "take_bit_num 1 Num.One = Some Num.One" "take_bit_num 1 (Num.Bit0 m) = None"
  "take_bit_num 1 (Num.Bit1 m) = Some Num.One"
  by (simp_all only: One_nat_def take_bit_num_simps) simp_all

lemma bits_1 [simp]:
  "drop_bit 1 (numeral (Num.Bit0 k)) =
     (numeral k :: 'a :: linordered_euclidean_semiring_bit_operations)"
  "drop_bit 1 (numeral (Num.Bit1 k)) =
     (numeral k :: 'a :: linordered_euclidean_semiring_bit_operations)"
  "push_bit 1 (numeral k) = (numeral (Num.Bit0 k) :: 'b :: semiring_bit_operations)"
  "drop_bit 1 (numeral k :: 'c :: len word) =
     word_of_int (drop_bit 1 (take_bit LENGTH('c) (numeral k)))"
  using push_bit_Suc_numeral [of 0 k] drop_bit_word_Suc_numeral [of 0 k]
  by (simp_all add: One_nat_def)

section \<open>Checked memory accesses\<close>

definition rd :: "bytes \<Rightarrow> nat \<Rightarrow> u8 option" where
  "rd m i = (if i < length m then Some (m ! i) else None)"

definition rd_bytes :: "bytes \<Rightarrow> nat \<Rightarrow> nat \<Rightarrow> bytes option" where
  "rd_bytes m i n = (if i + n \<le> length m then Some (take n (drop i m)) else None)"

definition wr :: "bytes \<Rightarrow> nat \<Rightarrow> u8 \<Rightarrow> bytes option" where
  "wr m i v = (if i < length m then Some (m[i := v]) else None)"

text \<open>\<open>wr_bytes m i bs\<close> is \<^verbatim>\<open>memcpy(m + i, bs, length bs)\<close> from a disjoint source,
  \<open>mem_set m i n\<close> is \<^verbatim>\<open>memset(m + i, 0, n)\<close>, and \<open>mem_move m d s n\<close> is
  \<^verbatim>\<open>memmove(m + d, m + s, n)\<close> with both ranges in one buffer.\<close>

definition overwrite :: "bytes \<Rightarrow> nat \<Rightarrow> bytes \<Rightarrow> bytes" where
  "overwrite m i bs = take i m @ bs @ drop (i + length bs) m"

definition wr_bytes :: "bytes \<Rightarrow> nat \<Rightarrow> bytes \<Rightarrow> bytes option" where
  "wr_bytes m i bs = (if i + length bs \<le> length m then Some (overwrite m i bs) else None)"

definition mem_set :: "bytes \<Rightarrow> nat \<Rightarrow> nat \<Rightarrow> bytes option" where
  "mem_set m i n = wr_bytes m i (replicate n 0)"

definition mem_move :: "bytes \<Rightarrow> nat \<Rightarrow> nat \<Rightarrow> nat \<Rightarrow> bytes option" where
  "mem_move m d s n =
     (if s + n \<le> length m then wr_bytes m d (take n (drop s m)) else None)"

text \<open>Checked reads and writes of an array of objects.\<close>

definition aget :: "'a list \<Rightarrow> nat \<Rightarrow> 'a option" where
  "aget xs i = (if i < length xs then Some (xs ! i) else None)"

definition aset :: "'a list \<Rightarrow> nat \<Rightarrow> 'a \<Rightarrow> 'a list option" where
  "aset xs i v = (if i < length xs then Some (xs[i := v]) else None)"

lemma aget_in [simp, mem_simps]: "i < length xs \<Longrightarrow> aget xs i = Some (xs ! i)"
  by (simp add: aget_def)

lemma aset_in [simp, mem_simps]: "i < length xs \<Longrightarrow> aset xs i v = Some (xs[i := v])"
  by (simp add: aset_def)

lemma rd_in [simp, mem_simps]: "i < length m \<Longrightarrow> rd m i = Some (m ! i)"
  by (simp add: rd_def)

lemma rd_out: "rd m i = None \<longleftrightarrow> length m \<le> i"
  by (simp add: rd_def)

lemma rd_eq_Some: "rd m i = Some b \<longleftrightarrow> i < length m \<and> b = m ! i"
  by (auto simp: rd_def)

lemma rd_bytes_in [simp, mem_simps]:
  "i + n \<le> length m \<Longrightarrow> rd_bytes m i n = Some (take n (drop i m))"
  by (simp add: rd_bytes_def)

lemma wr_in [simp, mem_simps]: "i < length m \<Longrightarrow> wr m i v = Some (m[i := v])"
  by (simp add: wr_def)

lemma wr_bytes_in [simp, mem_simps]:
  "i + length bs \<le> length m \<Longrightarrow> wr_bytes m i bs = Some (overwrite m i bs)"
  by (simp add: wr_bytes_def)

lemma length_overwrite [simp]:
  "i + length bs \<le> length m \<Longrightarrow> length (overwrite m i bs) = length m"
  by (simp add: overwrite_def)

lemma nth_overwrite:
  "i + length bs \<le> length m \<Longrightarrow> j < length m \<Longrightarrow>
   overwrite m i bs ! j = (if i \<le> j \<and> j < i + length bs then bs ! (j - i) else m ! j)"
  by (auto simp: overwrite_def nth_append min_def)

lemma nth_upd: "j < length m \<Longrightarrow> m[i := v] ! j = (if j = i then v else m ! j)"
  by (auto simp: nth_list_update)

lemma overwrite_eq_Nil [simp]: "overwrite m i bs = [] \<longleftrightarrow> m = [] \<and> bs = []"
  by (auto simp: overwrite_def)

section \<open>Total correctness of checked computations\<close>

text \<open>\<open>ok m P\<close>: the computation \<open>m\<close> makes no access outside its buffers and its
  result satisfies \<open>P\<close>.  The \<open>ok_simps\<close> compute it along the computation, as a
  weakest precondition.\<close>

definition ok :: "'a option \<Rightarrow> ('a \<Rightarrow> bool) \<Rightarrow> bool" where
  "ok m P \<longleftrightarrow> (\<exists>a. m = Some a \<and> P a)"

named_theorems ok_simps \<open>weakest preconditions of checked computations\<close>

lemma ok_Some [ok_simps]: "ok (Some a) P \<longleftrightarrow> P a"
  by (simp add: ok_def)

lemma ok_bind [ok_simps]: "ok (Option.bind m f) P \<longleftrightarrow> ok m (\<lambda>a. ok (f a) P)"
  by (cases m) (auto simp: ok_def)

lemma ok_if [ok_simps]: "ok (if b then x else y) P \<longleftrightarrow> (b \<longrightarrow> ok x P) \<and> (\<not> b \<longrightarrow> ok y P)"
  by simp

lemma ok_case_ret [ok_simps]:
  "ok (case r of Reject \<Rightarrow> x | Accept v \<Rightarrow> f v) P \<longleftrightarrow>
   (r = Reject \<longrightarrow> ok x P) \<and> (\<forall>v. r = Accept v \<longrightarrow> ok (f v) P)"
  by (cases r) auto

lemma ok_case_prod [ok_simps]: "ok (case x of (a, b) \<Rightarrow> f a b) P \<longleftrightarrow> ok (f (fst x) (snd x)) P"
  by (cases x) simp

lemma ok_rd [ok_simps]: "ok (rd m i) P \<longleftrightarrow> i < length m \<and> P (m ! i)"
  by (auto simp: rd_def ok_def)

lemma ok_aget [ok_simps]: "ok (aget xs i) P \<longleftrightarrow> i < length xs \<and> P (xs ! i)"
  by (auto simp: aget_def ok_def)

lemma ok_aset [ok_simps]: "ok (aset xs i v) P \<longleftrightarrow> i < length xs \<and> P (xs[i := v])"
  by (auto simp: aset_def ok_def)

lemma ok_rd_bytes [ok_simps]:
  "ok (rd_bytes m i n) P \<longleftrightarrow> i + n \<le> length m \<and> P (take n (drop i m))"
  by (auto simp: rd_bytes_def ok_def)

lemma ok_wr [ok_simps]: "ok (wr m i v) P \<longleftrightarrow> i < length m \<and> P (m[i := v])"
  by (auto simp: wr_def ok_def)

lemma ok_wr_bytes [ok_simps]:
  "ok (wr_bytes m i bs) P \<longleftrightarrow> i + length bs \<le> length m \<and> P (overwrite m i bs)"
  by (auto simp: wr_bytes_def ok_def)

lemma ok_mem_set [ok_simps]:
  "ok (mem_set m i n) P \<longleftrightarrow> i + n \<le> length m \<and> P (overwrite m i (replicate n 0))"
  by (auto simp: mem_set_def ok_simps)

lemma ok_mem_move [ok_simps]:
  "ok (mem_move m d s n) P \<longleftrightarrow>
   s + n \<le> length m \<and> d + n \<le> length m \<and> P (overwrite m d (take n (drop s m)))"
  by (auto simp: mem_move_def ok_simps ok_def wr_bytes_def)

lemma okE: "ok m P \<Longrightarrow> (\<And>a. m = Some a \<Longrightarrow> P a \<Longrightarrow> Q) \<Longrightarrow> Q"
  by (auto simp: ok_def)

lemma ok_mono: "ok m P \<Longrightarrow> (\<And>a. P a \<Longrightarrow> Q a) \<Longrightarrow> ok m Q"
  by (auto simp: ok_def)

lemma ok_bindI: "ok m P \<Longrightarrow> (\<And>a. P a \<Longrightarrow> ok (f a) Q) \<Longrightarrow> ok (Option.bind m f) Q"
  by (auto simp: ok_bind elim: ok_mono)

lemma ok_total: "(\<exists>a. m = Some a) \<longleftrightarrow> ok m (\<lambda>_. True)"
  by (simp add: ok_def)

lemma ok_result: "ok m P \<Longrightarrow> m = Some a \<Longrightarrow> P a"
  by (simp add: ok_def)

section \<open>Words\<close>

lemma unat_and_le:
  fixes x :: "'a :: len word"
  shows "unat (x AND m) \<le> unat m"
  by (rule word_and_le1 [THEN word_le_nat_alt [THEN iffD1]])

lemma unat_drop_bit: "unat (drop_bit n x) = unat x div 2 ^ n"
  for x :: "'a :: len word"
  by (simp only: unsigned_drop_bit_eq drop_bit_eq_div [where ?'a = nat]
      take_bit_nat_eq_self [OF unsigned_less])

lemma unat_ucast_up: "LENGTH('a) \<le> LENGTH('b) \<Longrightarrow> unat (ucast x :: 'b :: len word) = unat x"
  for x :: "'a :: len word"
  by (simp add: unsigned_ucast_eq take_bit_nat_eq_self order_less_le_trans [OF unsigned_less])

lemma unat_u8_less [simp]: "unat (x :: u8) < 256"
  using unsigned_less [of x] by simp

lemma unat_u16_less [simp]: "unat (x :: u16) < 65536"
  using unsigned_less [of x] by simp

lemma unat_u32_less [simp]: "unat (x :: u32) < 4294967296"
  using unsigned_less [of x] by simp

lemma unat_of_nat_less: "n < 2 ^ LENGTH('a) \<Longrightarrow> unat (of_nat n :: 'a :: len word) = n"
  by (simp add: unsigned_of_nat take_bit_nat_eq_self)

lemma unat_mask: "unat (x AND mask n) = unat x mod 2 ^ n" for x :: "'a :: len word"
  by (simp only: take_bit_eq_mask [symmetric] unsigned_take_bit_eq
      take_bit_eq_mod [where ?'a = nat])

lemma or_exp_absorb: "bit b k \<Longrightarrow> b OR 2 ^ k = b" for b :: "'a :: len word"
  by (rule bit_word_eqI) (auto simp: bit_simps)

lemma take_bit_word_self: "unat x < 2 ^ n \<Longrightarrow> take_bit n x = x" for x :: "'a::len word"
  by (simp add: word_eq_iff_unsigned [where ?'a = nat] unsigned_take_bit_eq take_bit_nat_eq_self)

end
