(* ===== verification/Bandwidth_Allocator.thy ===== *)
theory Bandwidth_Allocator
  imports SFU_Prelude
begin

text \<open>
  The split of a subscriber's bandwidth estimate over the streams it receives
  (\<^verbatim>\<open>src/src/congestion/bandwidth_allocator.c\<close>).  Bit rates are natural numbers; the
  wrap-around of the unsigned type is written out where a product or a difference can
  reach it.  The arrays of the allocation hold \<open>stream_count\<close> and \<open>publisher_count\<close>
  elements and are lists of these lengths.
\<close>

section \<open>Data\<close>

abbreviation SFU_BANDWIDTH_ALLOCATOR_MAX_STREAMS :: nat where
  "SFU_BANDWIDTH_ALLOCATOR_MAX_STREAMS \<equiv> 16"

abbreviation UINT32_MAX :: nat where
  "UINT32_MAX \<equiv> 4294967295"

definition u64_wrap :: "int \<Rightarrow> nat" where
  "u64_wrap x = nat (x mod 2 ^ 64)"

text \<open>The kind is an unchecked enumeration value; 1 is a camera, 2 a screen.\<close>

abbreviation SFU_BANDWIDTH_STREAM_CAMERA :: nat where "SFU_BANDWIDTH_STREAM_CAMERA \<equiv> 1"
abbreviation SFU_BANDWIDTH_STREAM_SCREEN :: nat where "SFU_BANDWIDTH_STREAM_SCREEN \<equiv> 2"

record sfu_bandwidth_stream_input =
  in_publisher :: u32
  in_slot :: u32
  in_generation :: u64
  in_kind :: nat
  in_active :: bool

record sfu_bandwidth_stream_allocation =
  st_publisher :: u32
  st_slot :: u32
  st_generation :: u64
  st_kind :: nat
  st_bps :: nat

record sfu_bandwidth_publisher_allocation =
  pub_peer_id :: u32
  pub_bps :: nat

record sfu_bandwidth_allocation =
  estimated_bps :: nat
  reserve_bps :: nat
  video_pool_bps :: nat
  allocated_bps :: nat
  unallocated_bps :: nat
  streams :: "sfu_bandwidth_stream_allocation list"
  publishers :: "sfu_bandwidth_publisher_allocation list"

text \<open>The fields of the global configuration the allocator reads.\<close>

record bandwidth_config =
  bandwidth_video_pool_percent :: nat
  bandwidth_source_admission_bps :: nat
  bandwidth_screen_preferred_bps :: nat
  bandwidth_screen_mid_bps :: nat
  bandwidth_screen_cap_bps :: nat
  bandwidth_camera_mid_bps :: nat
  bandwidth_camera_cap_bps :: nat

datatype bandwidth_metric =
    BANDWIDTH_ALLOCATOR_RUNS
  | BANDWIDTH_ALLOCATOR_ACTIVE_STREAMS
  | BANDWIDTH_ALLOCATOR_UNALLOCATED_BPS
  | BANDWIDTH_SCREEN_PREFERRED
  | BANDWIDTH_SCREEN_BELOW_PREFERRED
  | BANDWIDTH_CAMERA_DEFERRED_FOR_SCREEN

section \<open>Operations\<close>

definition stream_key_less ::
    "sfu_bandwidth_stream_input \<Rightarrow> sfu_bandwidth_stream_input \<Rightarrow> bool" where
  "stream_key_less a b =
     (if in_slot a \<noteq> in_slot b then in_slot a < in_slot b
      else if in_publisher a \<noteq> in_publisher b then in_publisher a < in_publisher b
      else if in_kind a \<noteq> in_kind b then in_kind a < in_kind b
      else in_generation a < in_generation b)"

definition same_stream_key ::
    "sfu_bandwidth_stream_input \<Rightarrow> sfu_bandwidth_stream_input \<Rightarrow> bool" where
  "same_stream_key a b \<longleftrightarrow> in_publisher a = in_publisher b \<and> in_slot a = in_slot b \<and>
     in_generation a = in_generation b \<and> in_kind a = in_kind b"

definition eligible :: "nat \<Rightarrow> nat \<Rightarrow> sfu_bandwidth_stream_allocation \<Rightarrow> bool" where
  "eligible kind target_bps s \<longleftrightarrow> st_kind s = kind \<and> st_bps s < target_bps"

text \<open>The last loop of \<^verbatim>\<open>fill_class\<close>: \<open>k\<close> counts the eligible streams passed so far.\<close>

fun fill_shares ::
    "nat \<Rightarrow> nat \<Rightarrow> nat \<Rightarrow> nat \<Rightarrow> nat \<Rightarrow> sfu_bandwidth_stream_allocation list \<Rightarrow> nat \<Rightarrow>
     sfu_bandwidth_stream_allocation list \<times> nat" where
  "fill_shares kind target_bps share remainder k [] remaining = ([], remaining)"
| "fill_shares kind target_bps share remainder k (s # ss) remaining =
     (if eligible kind target_bps s
      then
        let increment = share + (if k < remainder then 1 else 0);
            deficit = target_bps - st_bps s;
            increment = (if increment > deficit then deficit else increment);
            (ss, remaining) = fill_shares kind target_bps share remainder (k + 1) ss (remaining - increment)
        in (s\<lparr>st_bps := st_bps s + increment\<rparr> # ss, remaining)
      else
        let (ss, remaining) = fill_shares kind target_bps share remainder k ss remaining
        in (s # ss, remaining))"

definition fill_class ::
    "nat \<Rightarrow> nat \<Rightarrow> sfu_bandwidth_stream_allocation list \<times> nat \<Rightarrow>
     sfu_bandwidth_stream_allocation list \<times> nat" where
  "fill_class kind target_bps = (\<lambda>(ss, remaining).
     let el = filter (eligible kind target_bps) ss;
         need = (\<Sum>s\<leftarrow>el. target_bps - st_bps s)
     in if length el = 0 \<or> remaining = 0 then (ss, remaining)
        else if remaining \<ge> need
        then (map (\<lambda>s. if eligible kind target_bps s then s\<lparr>st_bps := target_bps\<rparr> else s) ss,
              remaining - need)
        else fill_shares kind target_bps (remaining div length el) (remaining mod length el) 0 ss remaining)"

definition policy_value :: "nat \<Rightarrow> nat \<Rightarrow> nat" where
  "policy_value configured fallback = (if configured \<noteq> 0 then configured else fallback)"

definition record_allocation_metrics ::
    "sfu_bandwidth_allocation \<Rightarrow> nat \<Rightarrow> nat \<Rightarrow> (bandwidth_metric \<times> nat) list" where
  "record_allocation_metrics allocation screen_preferred_bps admission_bps =
     (let screens = filter (\<lambda>s. st_kind s = SFU_BANDWIDTH_STREAM_SCREEN) (streams allocation);
          has_screen = (screens \<noteq> []);
          screen_at_preferred = list_ex (\<lambda>s. st_bps s \<ge> screen_preferred_bps) screens;
          screen_below_preferred = list_ex (\<lambda>s. \<not> st_bps s \<ge> screen_preferred_bps) screens;
          camera_deferred = list_ex (\<lambda>s. st_kind s = SFU_BANDWIDTH_STREAM_CAMERA \<and>
            st_bps s \<le> admission_bps) (streams allocation)
      in [(BANDWIDTH_ALLOCATOR_RUNS, 1),
          (BANDWIDTH_ALLOCATOR_ACTIVE_STREAMS, length (streams allocation)),
          (BANDWIDTH_ALLOCATOR_UNALLOCATED_BPS, unallocated_bps allocation)] @
         (if screen_at_preferred then [(BANDWIDTH_SCREEN_PREFERRED, 1)] else []) @
         (if screen_below_preferred then [(BANDWIDTH_SCREEN_BELOW_PREFERRED, 1)] else []) @
         (if has_screen \<and> camera_deferred then [(BANDWIDTH_CAMERA_DEFERRED_FOR_SCREEN, 1)] else []))"

text \<open>The bounded insertion sort that selects the streams: the inner loop moves larger
  entries up, and a full selection loses its last entry.\<close>

fun order_insert ::
    "sfu_bandwidth_stream_input \<Rightarrow> sfu_bandwidth_stream_input list \<Rightarrow> sfu_bandwidth_stream_input list" where
  "order_insert x [] = [x]"
| "order_insert x (y # below) = (if stream_key_less x y then y # order_insert x below else x # y # below)"

definition order_step ::
    "sfu_bandwidth_stream_input list \<Rightarrow> sfu_bandwidth_stream_input \<Rightarrow> sfu_bandwidth_stream_input list" where
  "order_step ord x =
     (if \<not> in_active x \<or> in_publisher x = 0 \<or>
         (in_kind x \<noteq> SFU_BANDWIDTH_STREAM_CAMERA \<and> in_kind x \<noteq> SFU_BANDWIDTH_STREAM_SCREEN)
      then ord
      else if list_ex (same_stream_key x) ord then ord
      else if length ord = SFU_BANDWIDTH_ALLOCATOR_MAX_STREAMS \<and> \<not> stream_key_less x (last ord) then ord
      else
        let kept = (if length ord < SFU_BANDWIDTH_ALLOCATOR_MAX_STREAMS then ord else butlast ord)
        in rev (order_insert x (rev kept)))"

definition order_streams :: "sfu_bandwidth_stream_input list \<Rightarrow> sfu_bandwidth_stream_input list" where
  "order_streams inputs = foldl order_step [] inputs"

fun emit_streams ::
    "sfu_bandwidth_stream_input option \<Rightarrow> sfu_bandwidth_stream_input list \<Rightarrow>
     sfu_bandwidth_stream_allocation list" where
  "emit_streams prev [] = []"
| "emit_streams prev (x # xs) =
     (if (case prev of None \<Rightarrow> False | Some p \<Rightarrow> same_stream_key x p) then emit_streams (Some x) xs
      else \<lparr>st_publisher = in_publisher x, st_slot = in_slot x, st_generation = in_generation x,
             st_kind = in_kind x, st_bps = 0\<rparr> # emit_streams (Some x) xs)"

fun add_publisher ::
    "sfu_bandwidth_publisher_allocation list \<Rightarrow> sfu_bandwidth_stream_allocation \<Rightarrow>
     sfu_bandwidth_publisher_allocation list" where
  "add_publisher [] s = [\<lparr>pub_peer_id = st_publisher s, pub_bps = min UINT32_MAX (st_bps s)\<rparr>]"
| "add_publisher (p # ps) s =
     (if pub_peer_id p \<noteq> st_publisher s then p # add_publisher ps s
      else p\<lparr>pub_bps := min UINT32_MAX (pub_bps p + st_bps s)\<rparr> # ps)"

definition fill_streams ::
    "bandwidth_config \<Rightarrow> sfu_bandwidth_stream_allocation list \<Rightarrow> nat \<Rightarrow>
     sfu_bandwidth_stream_allocation list \<times> nat" where
  "fill_streams cfg ss pool =
     (let admission_bps = policy_value (bandwidth_source_admission_bps cfg) 240000;
          screen_preferred_bps = policy_value (bandwidth_screen_preferred_bps cfg) 2000000;
          screen_mid_bps = policy_value (bandwidth_screen_mid_bps cfg) 3000000;
          screen_cap_bps = policy_value (bandwidth_screen_cap_bps cfg) 3500000;
          camera_mid_bps = policy_value (bandwidth_camera_mid_bps cfg) 720000;
          camera_cap_bps = policy_value (bandwidth_camera_cap_bps cfg) 1000000;
          has_screen = list_ex (\<lambda>s. st_kind s = SFU_BANDWIDTH_STREAM_SCREEN) ss;
          st = (ss, pool);
          st = fill_class SFU_BANDWIDTH_STREAM_SCREEN (min admission_bps screen_cap_bps) st;
          st = fill_class SFU_BANDWIDTH_STREAM_SCREEN screen_preferred_bps st;
          st = fill_class SFU_BANDWIDTH_STREAM_CAMERA (min admission_bps camera_cap_bps) st
      in if has_screen
         then let st = fill_class SFU_BANDWIDTH_STREAM_SCREEN screen_mid_bps st
              in fill_class SFU_BANDWIDTH_STREAM_SCREEN screen_cap_bps st
         else let st = fill_class SFU_BANDWIDTH_STREAM_CAMERA camera_mid_bps st
              in fill_class SFU_BANDWIDTH_STREAM_CAMERA camera_cap_bps st)"

definition sfu_bandwidth_allocate ::
    "bandwidth_config \<Rightarrow> sfu_bandwidth_stream_input list \<Rightarrow> nat \<Rightarrow>
     sfu_bandwidth_allocation \<times> (bandwidth_metric \<times> nat) list" where
  "sfu_bandwidth_allocate cfg inputs estimate =
     (let pool_percent = policy_value (bandwidth_video_pool_percent cfg) 85;
          admission_bps = policy_value (bandwidth_source_admission_bps cfg) 240000;
          screen_preferred_bps = policy_value (bandwidth_screen_preferred_bps cfg) 2000000;
          pool = u64_wrap (int (estimate div 100 * pool_percent) +
                           int (u64_wrap (int (estimate mod 100 * pool_percent)) div 100));
          allocation = \<lparr>estimated_bps = estimate, reserve_bps = u64_wrap (int estimate - int pool),
            video_pool_bps = pool, allocated_bps = 0, unallocated_bps = pool, streams = [],
            publishers = []\<rparr>
      in if inputs = [] \<or> pool = 0
         then (allocation, record_allocation_metrics allocation screen_preferred_bps admission_bps)
         else
           let (ss, remaining) = fill_streams cfg (emit_streams None (order_streams inputs)) pool;
               total = (\<Sum>s\<leftarrow>ss. st_bps s);
               allocation = allocation\<lparr>streams := ss, allocated_bps := total,
                 publishers := foldl add_publisher [] ss,
                 unallocated_bps := u64_wrap (int pool - int total)\<rparr>
           in (allocation, record_allocation_metrics allocation screen_preferred_bps admission_bps))"

definition sfu_bandwidth_has_unmet_demand :: "bandwidth_config \<Rightarrow> sfu_bandwidth_allocation \<Rightarrow> bool" where
  "sfu_bandwidth_has_unmet_demand cfg allocation =
     (if streams allocation = [] then False
      else
        let screen_cap_bps = policy_value (bandwidth_screen_cap_bps cfg) 3500000;
            camera_cap_bps = policy_value (bandwidth_camera_cap_bps cfg) 1000000;
            admission_bps = policy_value (bandwidth_source_admission_bps cfg) 240000;
            has_screen = list_ex (\<lambda>s. st_kind s = SFU_BANDWIDTH_STREAM_SCREEN) (streams allocation)
        in list_ex (\<lambda>s.
             if st_kind s = SFU_BANDWIDTH_STREAM_SCREEN then st_bps s < screen_cap_bps
             else if st_kind s = SFU_BANDWIDTH_STREAM_CAMERA
             then st_bps s < (if has_screen then min admission_bps camera_cap_bps else camera_cap_bps)
             else False) (streams allocation))"

section \<open>Filling one class\<close>

abbreviation total_bps :: "sfu_bandwidth_stream_allocation list \<Rightarrow> nat" where
  "total_bps ss \<equiv> (\<Sum>s\<leftarrow>ss. st_bps s)"

text \<open>A stream before and after a fill: only its rate changes, only upwards, and only to
  the target of its class.\<close>

definition grew :: "nat \<Rightarrow> nat \<Rightarrow> sfu_bandwidth_stream_allocation \<Rightarrow> sfu_bandwidth_stream_allocation \<Rightarrow> bool" where
  "grew kind target s s' \<longleftrightarrow> s' = s\<lparr>st_bps := st_bps s'\<rparr> \<and> st_bps s \<le> st_bps s' \<and>
     (st_kind s \<noteq> kind \<longrightarrow> s' = s) \<and> st_bps s' \<le> max (st_bps s) target"

lemma grew_refl [simp]: "grew kind target s s"
  by (simp add: grew_def)

lemma fill_shares_eligible:
  assumes "eligible kind target s"
    and "inc = min (share + (if k < remainder then 1 else 0)) (target - st_bps s)"
    and "fill_shares kind target share remainder (k + 1) ss (remaining - inc) = (ss', remaining')"
  shows "fill_shares kind target share remainder k (s # ss) remaining =
    (s\<lparr>st_bps := st_bps s + inc\<rparr> # ss', remaining')"
proof -
  have "(if share + (if k < remainder then 1 else 0) > target - st_bps s then target - st_bps s
      else share + (if k < remainder then 1 else 0)) = inc"
    using assms(2) by auto
  with assms(1,3) show ?thesis
    by (simp only: fill_shares.simps Let_def if_True prod.case)
qed

lemma fill_shares_sum:
  assumes "share * length (filter (eligible kind target) ss) +
      min (length (filter (eligible kind target) ss)) (remainder - k) \<le> remaining"
    and "fill_shares kind target share remainder k ss remaining = (ss', remaining')"
  shows "total_bps ss' + remaining' = total_bps ss + remaining \<and> list_all2 (grew kind target) ss ss'"
  using assms
proof (induction ss arbitrary: k remaining ss' remaining')
  case (Cons s ss)
  let ?n = "length (filter (eligible kind target) ss)"
  show ?case
  proof (cases "eligible kind target s")
    case True
    define inc where "inc = min (share + (if k < remainder then 1 else 0)) (target - st_bps s)"
    obtain ss1 r1 where rest: "fill_shares kind target share remainder (k + 1) ss (remaining - inc) = (ss1, r1)"
      by (cases "fill_shares kind target share remainder (k + 1) ss (remaining - inc)")
    have eq: "ss' = s\<lparr>st_bps := st_bps s + inc\<rparr> # ss1" "remaining' = r1"
      using fill_shares_eligible [OF True inc_def rest] Cons.prems(2) by simp_all
    have "share + share * ?n + min (?n + 1) (remainder - k) \<le> remaining"
      using Cons.prems True by simp
    moreover have "min ?n (remainder - (k + 1)) + (if k < remainder then 1 else 0) \<le> min (?n + 1) (remainder - k)"
      by auto
    ultimately have le: "share * ?n + min ?n (remainder - (k + 1)) \<le> remaining - inc" "inc \<le> remaining"
      unfolding inc_def by linarith+
    have "grew kind target s (s\<lparr>st_bps := st_bps s + inc\<rparr>)"
      using True by (auto simp: grew_def eligible_def inc_def)
    then show ?thesis
      using Cons.IH [OF le(1) rest] le(2) eq by simp
  next
    case False
    then show ?thesis
      using Cons by (auto simp: case_prod_beta Let_def prod_eq_iff)
  qed
qed simp

text \<open>As long as bandwidth is left, all streams of a kind have the same rate; so a class that
  cannot be filled takes everything.\<close>

definition uniform :: "sfu_bandwidth_stream_allocation list \<Rightarrow> bool" where
  "uniform ss \<longleftrightarrow> (\<forall>s \<in> set ss. \<forall>s' \<in> set ss. st_kind s = st_kind s' \<longrightarrow> st_bps s = st_bps s')"

lemma fill_shares_exhausts:
  assumes "\<forall>s \<in> set ss. eligible kind target s \<longrightarrow> share < target - st_bps s"
    and "remaining = share * length (filter (eligible kind target) ss) +
      min (length (filter (eligible kind target) ss)) (remainder - k)"
    and "fill_shares kind target share remainder k ss remaining = (ss', remaining')"
  shows "remaining' = 0"
  using assms
proof (induction ss arbitrary: k remaining ss' remaining')
  case (Cons s ss)
  let ?n = "length (filter (eligible kind target) ss)"
  show ?case
  proof (cases "eligible kind target s")
    case True
    define inc where "inc = min (share + (if k < remainder then 1 else 0)) (target - st_bps s)"
    obtain ss1 r1 where rest: "fill_shares kind target share remainder (k + 1) ss (remaining - inc) = (ss1, r1)"
      by (cases "fill_shares kind target share remainder (k + 1) ss (remaining - inc)")
    have "remaining' = r1"
      using fill_shares_eligible [OF True inc_def rest] Cons.prems(3) by simp
    moreover have "inc = share + (if k < remainder then 1 else 0)"
      using Cons.prems(1) True unfolding inc_def by simp
    then have "remaining - inc = share * ?n + min ?n (remainder - (k + 1))"
      using Cons.prems(2) True by (auto simp: min_def)
    ultimately show ?thesis
      using Cons.IH [OF _ _ rest] Cons.prems(1) by simp
  next
    case False
    then show ?thesis
      using Cons by (auto simp: case_prod_beta Let_def prod_eq_iff)
  qed
qed simp

lemma fill_class_spec:
  assumes "fill_class kind target (ss, remaining) = (ss', remaining')"
  shows "total_bps ss' + remaining' = total_bps ss + remaining"
    and "list_all2 (grew kind target) ss ss'"
proof -
  let ?el = "filter (eligible kind target) ss"
  let ?full = "map (\<lambda>s. if eligible kind target s then s\<lparr>st_bps := target\<rparr> else s) ss"
  have full: "total_bps ?full = total_bps ss + (\<Sum>s\<leftarrow>?el. target - st_bps s)"
    by (induction ss) (auto simp: eligible_def)
  have grew: "list_all2 (grew kind target) ss ?full"
    by (auto simp: list_all2_conv_all_nth grew_def eligible_def)
  have share: "remaining div length ?el * length ?el + min (length ?el) (remaining mod length ?el - 0) \<le> remaining"
    using div_mult_mod_eq [of remaining "length ?el"] by linarith
  show "total_bps ss' + remaining' = total_bps ss + remaining" "list_all2 (grew kind target) ss ss'"
    using assms full grew fill_shares_sum [OF share]
    by (auto simp: fill_class_def Let_def list_all2_refl split: if_splits)
qed

lemma fill_class_uniform:
  assumes "fill_class kind target (ss, remaining) = (ss', remaining')" "uniform ss"
  shows "remaining' = 0 \<or> (uniform ss' \<and> (\<forall>s \<in> set ss'. st_kind s = kind \<longrightarrow> target \<le> st_bps s))"
proof -
  let ?el = "filter (eligible kind target) ss"
  let ?n = "length ?el" and ?need = "\<Sum>s\<leftarrow>?el. target - st_bps s"
  consider "?el = []" | "remaining = 0" | "?el \<noteq> []" "?need \<le> remaining" |
    "?el \<noteq> []" "remaining \<noteq> 0" "remaining < ?need"
    using linorder_not_less by blast
  then show ?thesis
  proof cases
    case 1
    then have "\<forall>s \<in> set ss. st_kind s = kind \<longrightarrow> target \<le> st_bps s"
      by (force simp: filter_empty_conv eligible_def)
    with 1 assms show ?thesis
      by (simp add: fill_class_def)
  next
    case 2
    with assms show ?thesis
      by (simp add: fill_class_def)
  next
    case 3
    define f where "f = (\<lambda>s. if eligible kind target s then s\<lparr>st_bps := target\<rparr> else s)"
    have f: "st_kind (f s) = st_kind s"
      "st_bps (f s) = (if st_kind s = kind then max (st_bps s) target else st_bps s)" for s
      by (auto simp: f_def eligible_def)
    have "remaining' = 0 \<or> ss' = map f ss"
    proof (cases "remaining = 0")
      case False
      then have "fill_class kind target (ss, remaining) = (map f ss, remaining - ?need)"
        using 3 by (simp add: fill_class_def Let_def f_def)
      then show ?thesis
        using assms(1) by simp
    qed (use assms(1) in \<open>simp add: fill_class_def\<close>)
    moreover have "st_bps (f s) = st_bps (f t)" if "s \<in> set ss" "t \<in> set ss" "st_kind s = st_kind t" for s t
      using assms(2) that unfolding uniform_def f by metis
    then have "uniform (map f ss)"
      unfolding uniform_def set_map ball_simps f(1) by blast
    ultimately show ?thesis
      by (auto simp: f)
  next
    case 4
    define b where "b = st_bps (hd ?el)"
    have hd: "hd ?el \<in> set ss" "eligible kind target (hd ?el)"
      using hd_in_set [OF 4(1)] by simp_all
    then have b: "st_bps s = b" if "s \<in> set ss" "eligible kind target s" for s
      using assms(2) that unfolding uniform_def eligible_def b_def by metis
    have "?need = (\<Sum>s\<leftarrow>?el. target - b)"
      by (rule arg_cong [where f = sum_list], rule map_cong) (simp_all add: b)
    then have "?need = ?n * (target - b)"
      by (simp add: sum_list_triv)
    then have "remaining div ?n < target - b"
      using 4 by (simp add: div_less_iff_less_mult mult.commute)
    then have "\<forall>s \<in> set ss. eligible kind target s \<longrightarrow> remaining div ?n < target - st_bps s"
      using b by simp
    moreover have "remaining = remaining div ?n * ?n + min ?n (remaining mod ?n - 0)"
      using 4 mod_less_divisor [of ?n remaining] by (simp add: min_absorb2 less_imp_le)
    moreover have "fill_shares kind target (remaining div ?n) (remaining mod ?n) 0 ss remaining = (ss', remaining')"
      using assms 4 by (simp add: fill_class_def Let_def)
    ultimately have "remaining' = 0"
      by (rule fill_shares_exhausts)
    then show ?thesis ..
  qed
qed

section \<open>The whole allocation\<close>

text \<open>The policy values the configuration check of \<^verbatim>\<open>src/src/config/config.c\<close> admits.\<close>

definition bandwidth_policy_ok :: "bandwidth_config \<Rightarrow> bool" where
  "bandwidth_policy_ok config \<longleftrightarrow>
     \<not> (bandwidth_video_pool_percent config = 0 \<or> bandwidth_video_pool_percent config > 100 \<or>
        bandwidth_source_admission_bps config = 0 \<or>
        bandwidth_source_admission_bps config > bandwidth_screen_preferred_bps config \<or>
        bandwidth_screen_preferred_bps config > bandwidth_screen_mid_bps config \<or>
        bandwidth_screen_mid_bps config > bandwidth_screen_cap_bps config \<or>
        bandwidth_source_admission_bps config > bandwidth_camera_mid_bps config \<or>
        bandwidth_camera_mid_bps config > bandwidth_camera_cap_bps config)"

lemma policy_ok_values:
  assumes "bandwidth_policy_ok cfg"
  shows "policy_value (bandwidth_video_pool_percent cfg) a = bandwidth_video_pool_percent cfg"
    "policy_value (bandwidth_source_admission_bps cfg) a = bandwidth_source_admission_bps cfg"
    "policy_value (bandwidth_screen_preferred_bps cfg) a = bandwidth_screen_preferred_bps cfg"
    "policy_value (bandwidth_screen_mid_bps cfg) a = bandwidth_screen_mid_bps cfg"
    "policy_value (bandwidth_screen_cap_bps cfg) a = bandwidth_screen_cap_bps cfg"
    "policy_value (bandwidth_camera_mid_bps cfg) a = bandwidth_camera_mid_bps cfg"
    "policy_value (bandwidth_camera_cap_bps cfg) a = bandwidth_camera_cap_bps cfg"
  using assms by (auto simp: bandwidth_policy_ok_def policy_value_def)

text \<open>What holds between the fills: the rates and the remainder make up the pool, no stream
  exceeds the cap of its kind, and rates are uniform while bandwidth remains.\<close>

definition cap_of :: "bandwidth_config \<Rightarrow> nat \<Rightarrow> nat" where
  "cap_of cfg kind = (if kind = SFU_BANDWIDTH_STREAM_SCREEN then bandwidth_screen_cap_bps cfg
     else bandwidth_camera_cap_bps cfg)"

definition fill_inv ::
    "bandwidth_config \<Rightarrow> nat \<Rightarrow> sfu_bandwidth_stream_allocation list \<Rightarrow>
     sfu_bandwidth_stream_allocation list \<times> nat \<Rightarrow> bool" where
  "fill_inv cfg pool ss0 = (\<lambda>(ss, remaining). total_bps ss + remaining = pool \<and>
     (\<forall>s \<in> set ss. st_bps s \<le> cap_of cfg (st_kind s)) \<and> (remaining = 0 \<or> uniform ss) \<and>
     map st_kind ss = map st_kind ss0 \<and> map st_publisher ss = map st_publisher ss0 \<and>
     map st_slot ss = map st_slot ss0 \<and> map st_generation ss = map st_generation ss0)"

text \<open>\<open>filled kind target st\<close>: nothing is left or every stream of the kind has its target.\<close>

definition filled :: "nat \<Rightarrow> nat \<Rightarrow> sfu_bandwidth_stream_allocation list \<times> nat \<Rightarrow> bool" where
  "filled kind target = (\<lambda>(ss, remaining). remaining = 0 \<or>
     (\<forall>s \<in> set ss. st_kind s = kind \<longrightarrow> target \<le> st_bps s))"

lemma grew_map:
  assumes "list_all2 (grew kind target) ss ss'"
  shows "map st_kind ss' = map st_kind ss" "map st_publisher ss' = map st_publisher ss"
    "map st_slot ss' = map st_slot ss" "map st_generation ss' = map st_generation ss"
proof -
  have *: "st_kind s' = st_kind s \<and> st_publisher s' = st_publisher s \<and> st_slot s' = st_slot s \<and>
      st_generation s' = st_generation s" if "grew kind target s s'" for s s'
    using that unfolding grew_def by (metis sfu_bandwidth_stream_allocation.select_convs(1,2,3,4)
        sfu_bandwidth_stream_allocation.surjective sfu_bandwidth_stream_allocation.update_convs(5))
  show "map st_kind ss' = map st_kind ss" "map st_publisher ss' = map st_publisher ss"
    "map st_slot ss' = map st_slot ss" "map st_generation ss' = map st_generation ss"
    using assms by (induction rule: list_all2_induct) (simp_all add: *)
qed

lemma list_all2_source: "list_all2 P xs ys \<Longrightarrow> y \<in> set ys \<Longrightarrow> \<exists>x \<in> set xs. P x y"
  by (induction rule: list_all2_induct) auto

lemma grew_bound:
  assumes "list_all2 (grew kind target) ss ss'" "\<forall>s \<in> set ss. st_bps s \<le> c (st_kind s)" "target \<le> c kind"
  shows "\<forall>s \<in> set ss'. st_bps s \<le> c (st_kind s)"
proof
  fix s'
  assume "s' \<in> set ss'"
  then obtain s where s: "s \<in> set ss" "grew kind target s s'"
    using list_all2_source [OF assms(1)] by blast
  then have "st_kind s' = st_kind s"
    using grew_map(1) [of kind target "[s]" "[s']"] by simp
  then show "st_bps s' \<le> c (st_kind s')"
    using s assms(2,3) by (cases "st_kind s = kind") (auto simp: grew_def max_def split: if_splits)
qed

lemma fill_class_inv:
  assumes "fill_inv cfg pool ss0 st" "target \<le> cap_of cfg kind"
  shows "fill_inv cfg pool ss0 (fill_class kind target st)" "filled kind target (fill_class kind target st)"
proof -
  obtain ss remaining ss' remaining' where st: "st = (ss, remaining)"
    and fill: "fill_class kind target (ss, remaining) = (ss', remaining')"
    by (metis surj_pair)
  have stop: "remaining = 0 \<Longrightarrow> remaining' = 0"
    using fill by (simp add: fill_class_def)
  show "fill_inv cfg pool ss0 (fill_class kind target st)" "filled kind target (fill_class kind target st)"
    using assms fill_class_spec [OF fill] fill_class_uniform [OF fill] stop
      grew_map [OF fill_class_spec(2) [OF fill]] grew_bound [OF fill_class_spec(2) [OF fill], of "cap_of cfg"]
    by (auto simp: fill_inv_def filled_def st fill)
qed

text \<open>Later fills keep what an earlier one filled.\<close>

lemma filled_mono:
  assumes "filled k t st"
  shows "filled k t (fill_class kind target st)"
proof -
  obtain ss remaining ss' remaining' where st: "st = (ss, remaining)"
    and fill: "fill_class kind target (ss, remaining) = (ss', remaining')"
    by (metis surj_pair)
  have stop: "remaining = 0 \<Longrightarrow> remaining' = 0"
    using fill by (simp add: fill_class_def)
  have "t \<le> st_bps s'" if old: "\<forall>s \<in> set ss. st_kind s = k \<longrightarrow> t \<le> st_bps s"
    and s': "s' \<in> set ss'" "st_kind s' = k" for s'
  proof -
    obtain s where s: "s \<in> set ss" "grew kind target s s'"
      using list_all2_source [OF fill_class_spec(2) [OF fill] s'(1)] by blast
    then have "st_kind s = k" "st_bps s \<le> st_bps s'"
      using s'(2) grew_map(1) [of kind target "[s]" "[s']"] by (simp_all add: grew_def)
    then show ?thesis
      using old s(1) order_trans by blast
  qed
  then show ?thesis
    using assms stop by (auto simp: filled_def st fill)
qed

lemma fill_streams_inv:
  assumes "bandwidth_policy_ok cfg" "\<forall>s \<in> set ss. st_bps s = 0"
  shows "fill_inv cfg pool ss (fill_streams cfg ss pool)"
    and "if list_ex (\<lambda>s. st_kind s = SFU_BANDWIDTH_STREAM_SCREEN) ss
      then filled SFU_BANDWIDTH_STREAM_SCREEN (bandwidth_screen_cap_bps cfg) (fill_streams cfg ss pool) \<and>
        filled SFU_BANDWIDTH_STREAM_CAMERA
          (min (bandwidth_source_admission_bps cfg) (bandwidth_camera_cap_bps cfg)) (fill_streams cfg ss pool)
      else filled SFU_BANDWIDTH_STREAM_CAMERA (bandwidth_camera_cap_bps cfg) (fill_streams cfg ss pool)"
proof -
  have "total_bps ss = 0"
    using assms(2) by (induction ss) auto
  then have start: "fill_inv cfg pool ss (ss, pool)"
    using assms(2) by (simp add: fill_inv_def uniform_def)
  have caps: "min (bandwidth_source_admission_bps cfg) (bandwidth_screen_cap_bps cfg) \<le> cap_of cfg 2"
    "bandwidth_screen_preferred_bps cfg \<le> cap_of cfg 2" "bandwidth_screen_mid_bps cfg \<le> cap_of cfg 2"
    "bandwidth_screen_cap_bps cfg \<le> cap_of cfg 2"
    "min (bandwidth_source_admission_bps cfg) (bandwidth_camera_cap_bps cfg) \<le> cap_of cfg 1"
    "bandwidth_camera_mid_bps cfg \<le> cap_of cfg 1" "bandwidth_camera_cap_bps cfg \<le> cap_of cfg 1"
    using assms(1) by (auto simp: bandwidth_policy_ok_def cap_of_def)
  define st where "st = fill_class 1 (min (bandwidth_source_admission_bps cfg) (bandwidth_camera_cap_bps cfg))
    (fill_class 2 (bandwidth_screen_preferred_bps cfg)
      (fill_class 2 (min (bandwidth_source_admission_bps cfg) (bandwidth_screen_cap_bps cfg)) (ss, pool)))"
  have fill: "fill_streams cfg ss pool = (if list_ex (\<lambda>s. st_kind s = SFU_BANDWIDTH_STREAM_SCREEN) ss
      then fill_class 2 (bandwidth_screen_cap_bps cfg) (fill_class 2 (bandwidth_screen_mid_bps cfg) st)
      else fill_class 1 (bandwidth_camera_cap_bps cfg) (fill_class 1 (bandwidth_camera_mid_bps cfg) st))"
    by (simp only: fill_streams_def Let_def policy_ok_values [OF assms(1)] st_def)
  have st: "fill_inv cfg pool ss st"
    "filled 1 (min (bandwidth_source_admission_bps cfg) (bandwidth_camera_cap_bps cfg)) st"
    unfolding st_def using fill_class_inv [OF fill_class_inv(1) [OF fill_class_inv(1) [OF start caps(1)] caps(2)] caps(5)]
    by simp_all
  show "fill_inv cfg pool ss (fill_streams cfg ss pool)"
    by (simp add: fill st(1) caps fill_class_inv(1))
  show "if list_ex (\<lambda>s. st_kind s = SFU_BANDWIDTH_STREAM_SCREEN) ss
      then filled SFU_BANDWIDTH_STREAM_SCREEN (bandwidth_screen_cap_bps cfg) (fill_streams cfg ss pool) \<and>
        filled SFU_BANDWIDTH_STREAM_CAMERA
          (min (bandwidth_source_admission_bps cfg) (bandwidth_camera_cap_bps cfg)) (fill_streams cfg ss pool)
      else filled SFU_BANDWIDTH_STREAM_CAMERA (bandwidth_camera_cap_bps cfg) (fill_streams cfg ss pool)"
    using fill_class_inv(2) [OF fill_class_inv(1) [OF st(1) caps(3)] caps(4)]
      fill_class_inv(2) [OF fill_class_inv(1) [OF st(1) caps(6)] caps(7)]
      filled_mono [OF filled_mono [OF st(2)]]
    by (simp add: fill)
qed

lemma order_insert_length [simp]: "length (order_insert x ys) = length ys + 1"
  by (induction ys) auto

lemma order_streams_length: "length (order_streams inputs) \<le> SFU_BANDWIDTH_ALLOCATOR_MAX_STREAMS"
proof -
  have "length (foldl order_step ord inputs) \<le> 16" if "length ord \<le> 16" for ord
    using that by (induction inputs arbitrary: ord) (auto simp: order_step_def Let_def)
  then show ?thesis
    by (simp add: order_streams_def)
qed

lemma emit_streams_length: "length (emit_streams prev xs) \<le> length xs"
  by (induction prev xs rule: emit_streams.induct) auto

lemma emit_streams_zero: "s \<in> set (emit_streams prev xs) \<Longrightarrow> st_bps s = 0"
  by (induction prev xs rule: emit_streams.induct) (auto split: if_splits)

lemma pool_within:
  assumes "percent \<le> 100" "estimate < 2 ^ 64"
  shows "u64_wrap (int (estimate div 100 * percent) +
      int (u64_wrap (int (estimate mod 100 * percent)) div 100)) = estimate * percent div 100"
    and "estimate * percent div 100 \<le> estimate"
    and "u64_wrap (int estimate - int (estimate * percent div 100)) = estimate - estimate * percent div 100"
proof -
  have "estimate mod 100 * percent \<le> 99 * 100"
    using assms by (intro mult_mono) auto
  moreover have w: "u64_wrap (int n) = n" if "n < 2 ^ 64" for n
    using that by (simp add: u64_wrap_def)
  ultimately have 1: "u64_wrap (int (estimate mod 100 * percent)) = estimate mod 100 * percent"
    by (simp del: of_nat_mult)
  have 2: "estimate * percent div 100 = estimate div 100 * percent + estimate mod 100 * percent div 100"
  proof -
    have "estimate * percent = (estimate div 100 * 100 + estimate mod 100) * percent"
      by (simp only: div_mult_mod_eq)
    also have "\<dots> = estimate mod 100 * percent + estimate div 100 * percent * 100"
      by (simp only: distrib_right distrib_left ac_simps)
    finally show ?thesis
      by simp
  qed
  show 3: "estimate * percent div 100 \<le> estimate"
    using mult_le_mono2 [OF assms(1), of estimate] by (simp add: div_le_mono [of "estimate * percent" "estimate * 100" 100, simplified])
  show "u64_wrap (int (estimate div 100 * percent) +
      int (u64_wrap (int (estimate mod 100 * percent)) div 100)) = estimate * percent div 100"
    using w [of "estimate * percent div 100"] 2 3 assms(2) by (simp add: 1 del: of_nat_mult flip: of_nat_add)
  show "u64_wrap (int estimate - int (estimate * percent div 100)) = estimate - estimate * percent div 100"
    using w [of "estimate - estimate * percent div 100"] 3 assms(2) by (simp add: of_nat_diff)
qed

lemma allocate_streams:
  assumes "bandwidth_policy_ok cfg" "estimate < 2 ^ 64"
    and "a = fst (sfu_bandwidth_allocate cfg inputs estimate)"
  shows "video_pool_bps a = estimate * bandwidth_video_pool_percent cfg div 100"
    and "reserve_bps a = estimate - video_pool_bps a" "video_pool_bps a \<le> estimate"
    and "\<exists>ss0. length ss0 \<le> SFU_BANDWIDTH_ALLOCATOR_MAX_STREAMS \<and>
      fill_inv cfg (video_pool_bps a) ss0 (streams a, unallocated_bps a) \<and>
      (streams a \<noteq> [] \<longrightarrow> (streams a, unallocated_bps a) = fill_streams cfg ss0 (video_pool_bps a) \<and>
        (\<forall>s \<in> set ss0. st_bps s = 0))"
    and "allocated_bps a = total_bps (streams a)"
proof -
  have percent: "bandwidth_video_pool_percent cfg \<le> 100"
    using assms(1) by (simp add: bandwidth_policy_ok_def)
  define pool where "pool = estimate * bandwidth_video_pool_percent cfg div 100"
  note pool = pool_within [OF percent assms(2), folded pool_def]
  let ?ss0 = "emit_streams None (order_streams inputs)"
  obtain ss r where fill: "fill_streams cfg ?ss0 pool = (ss, r)"
    by (cases "fill_streams cfg ?ss0 pool")
  have zero: "\<forall>s \<in> set ?ss0. st_bps s = 0"
    using emit_streams_zero by blast
  have inv: "fill_inv cfg pool ?ss0 (ss, r)"
    using fill_streams_inv(1) [OF assms(1) zero, of pool] fill by simp
  then have sum: "total_bps ss + r = pool"
    by (simp add: fill_inv_def)
  then have "u64_wrap (int pool - int (total_bps ss)) = r"
    using pool(2) assms(2) by (simp add: u64_wrap_def)
  then have a: "a = (if inputs = [] \<or> pool = 0 then \<lparr>estimated_bps = estimate, reserve_bps = estimate - pool,
      video_pool_bps = pool, allocated_bps = 0, unallocated_bps = pool, streams = [], publishers = []\<rparr>
    else \<lparr>estimated_bps = estimate, reserve_bps = estimate - pool, video_pool_bps = pool,
      allocated_bps = total_bps ss, unallocated_bps = r, streams = ss,
      publishers = foldl add_publisher [] ss\<rparr>)"
    unfolding assms(3) sfu_bandwidth_allocate_def Let_def policy_ok_values [OF assms(1)] pool fill
    by simp
  show "video_pool_bps a = estimate * bandwidth_video_pool_percent cfg div 100"
    "reserve_bps a = estimate - video_pool_bps a" "video_pool_bps a \<le> estimate"
    "allocated_bps a = total_bps (streams a)"
    using pool(2) by (auto simp: a pool_def)
  show "\<exists>ss0. length ss0 \<le> SFU_BANDWIDTH_ALLOCATOR_MAX_STREAMS \<and>
      fill_inv cfg (video_pool_bps a) ss0 (streams a, unallocated_bps a) \<and>
      (streams a \<noteq> [] \<longrightarrow> (streams a, unallocated_bps a) = fill_streams cfg ss0 (video_pool_bps a) \<and>
        (\<forall>s \<in> set ss0. st_bps s = 0))"
  proof (cases "inputs = [] \<or> pool = 0")
    case True
    then show ?thesis
      by (intro exI [of _ "[]"]) (auto simp: a fill_inv_def uniform_def)
  next
    case False
    have "length ?ss0 \<le> 16"
      using emit_streams_length order_streams_length order_trans by blast
    with False inv fill zero show ?thesis
      by (intro exI [of _ ?ss0]) (simp add: a)
  qed
qed

text \<open>Property C14. With a policy the configuration check admits, the pool and the reserve make up
  the estimate, the streams' rates and the unallocated rest make up the pool, at most sixteen
  streams get a rate, and none gets more than the cap of its kind.\<close>

theorem bandwidth_within_pool:
  assumes "bandwidth_policy_ok cfg" "estimate < 2 ^ 64"
    and "a = fst (sfu_bandwidth_allocate cfg inputs estimate)"
  shows "video_pool_bps a + reserve_bps a = estimate \<and>
    (\<Sum>s\<leftarrow>streams a. st_bps s) + unallocated_bps a = video_pool_bps a \<and>
    length (streams a) \<le> SFU_BANDWIDTH_ALLOCATOR_MAX_STREAMS \<and>
    (\<forall>s \<in> set (streams a). st_bps s \<le> cap_of cfg (st_kind s))"
proof -
  note * = allocate_streams [OF assms]
  obtain ss0 where ss0: "length ss0 \<le> 16" "fill_inv cfg (video_pool_bps a) ss0 (streams a, unallocated_bps a)"
    using *(4) by blast
  have "length (streams a) = length ss0"
    using ss0(2) unfolding fill_inv_def by (metis (mono_tags, lifting) case_prodD length_map)
  then show ?thesis
    using *(2,3) ss0 by (simp add: fill_inv_def)
qed

text \<open>Property C15. The allocator wastes nothing: if some stream is still below the rate it asks for,
  the whole video pool has been handed out.\<close>

theorem bandwidth_work_conserving:
  assumes "bandwidth_policy_ok cfg" "estimate < 2 ^ 64"
    and "a = fst (sfu_bandwidth_allocate cfg inputs estimate)"
    and "sfu_bandwidth_has_unmet_demand cfg a"
  shows "unallocated_bps a = 0"
proof (rule ccontr)
  assume left: "unallocated_bps a \<noteq> 0"
  have ne: "streams a \<noteq> []"
    using assms(4) by (auto simp: sfu_bandwidth_has_unmet_demand_def)
  then obtain ss0 where ss0: "(streams a, unallocated_bps a) = fill_streams cfg ss0 (video_pool_bps a)"
    "\<forall>s \<in> set ss0. st_bps s = 0"
    using allocate_streams(4) [OF assms(1-3)] by blast
  have "map st_kind (streams a) = map st_kind ss0"
    using fill_streams_inv(1) [OF assms(1) ss0(2), of "video_pool_bps a"] ss0(1) [symmetric] by (simp add: fill_inv_def)
  then have "set (map st_kind (streams a)) = set (map st_kind ss0)"
    by simp
  then have screen: "list_ex (\<lambda>s. st_kind s = 2) ss0 \<longleftrightarrow> list_ex (\<lambda>s. st_kind s = 2) (streams a)"
    by (auto simp: list_ex_iff image_iff set_eq_iff) metis+
  show False
    using fill_streams_inv(2) [OF assms(1) ss0(2), of "video_pool_bps a"] ss0(1) [symmetric] left assms(4) screen
    by (auto simp: sfu_bandwidth_has_unmet_demand_def Let_def policy_ok_values [OF assms(1)] filled_def list_ex_iff
        split: if_splits)
qed

definition sample_policy :: bandwidth_config where
  "sample_policy = \<lparr>bandwidth_video_pool_percent = 85, bandwidth_source_admission_bps = 240000,
     bandwidth_screen_preferred_bps = 2000000, bandwidth_screen_mid_bps = 3000000,
     bandwidth_screen_cap_bps = 3500000, bandwidth_camera_mid_bps = 720000,
     bandwidth_camera_cap_bps = 1000000\<rparr>"

definition sample_streams :: "sfu_bandwidth_stream_input list" where
  "sample_streams = [\<lparr>in_publisher = 7, in_slot = 1, in_generation = 1, in_kind = 1, in_active = True\<rparr>,
     \<lparr>in_publisher = 8, in_slot = 0, in_generation = 1, in_kind = 1, in_active = True\<rparr>]"

theorem bandwidth_within_pool_witness:
  "length (streams (fst (sfu_bandwidth_allocate sample_policy sample_streams 1000000))) \<le> 16 \<and>
   video_pool_bps (fst (sfu_bandwidth_allocate sample_policy sample_streams 1000000)) +
     reserve_bps (fst (sfu_bandwidth_allocate sample_policy sample_streams 1000000)) = 1000000"
  using bandwidth_within_pool [of sample_policy 1000000 _ sample_streams, OF _ _ refl]
  by (simp add: bandwidth_policy_ok_def sample_policy_def)

theorem bandwidth_work_conserving_witness:
  "unallocated_bps (fst (sfu_bandwidth_allocate sample_policy sample_streams 1000000)) = 0"
proof (rule bandwidth_work_conserving [OF _ _ refl])
  show ok: "bandwidth_policy_ok sample_policy"
    by (simp add: bandwidth_policy_ok_def sample_policy_def)
  define cam :: "u32 \<Rightarrow> u32 \<Rightarrow> nat \<Rightarrow> sfu_bandwidth_stream_allocation" where
    "cam = (\<lambda>p sl b. \<lparr>st_publisher = p, st_slot = sl, st_generation = 1, st_kind = 1, st_bps = b\<rparr>)"
  have ss: "emit_streams None (order_streams sample_streams) = [cam 8 0 0, cam 7 1 0]"
    by (simp add: order_streams_def sample_streams_def order_step_def stream_key_less_def same_stream_key_def
        Let_def cam_def)
  have cls: "st_kind (cam p sl b) = 1" "st_bps (cam p sl b) = b" "(cam p sl b)\<lparr>st_bps := c\<rparr> = cam p sl c" for p sl b c
    by (simp_all add: cam_def)
  have fill: "fill_streams sample_policy [cam 8 0 0, cam 7 1 0] 850000 = ([cam 8 0 425000, cam 7 1 425000], 0)"
  proof -
    have "fill_class 2 t ([cam 8 0 0, cam 7 1 0], 850000) = ([cam 8 0 0, cam 7 1 0], 850000)" for t
      by (simp add: fill_class_def eligible_def cls)
    moreover have "fill_class 1 240000 ([cam 8 0 0, cam 7 1 0], 850000) = ([cam 8 0 240000, cam 7 1 240000], 370000)"
      "fill_class 1 720000 ([cam 8 0 240000, cam 7 1 240000], 370000) = ([cam 8 0 425000, cam 7 1 425000], 0)"
      "fill_class 1 1000000 ([cam 8 0 425000, cam 7 1 425000], 0) = ([cam 8 0 425000, cam 7 1 425000], 0)"
      by (simp_all add: fill_class_def eligible_def cls Let_def numeral_2_eq_2 [symmetric])
    moreover have "bandwidth_source_admission_bps sample_policy = 240000"
      "bandwidth_camera_mid_bps sample_policy = 720000" "bandwidth_camera_cap_bps sample_policy = 1000000"
      by (simp_all add: sample_policy_def)
    ultimately show ?thesis
      unfolding fill_streams_def policy_ok_values [OF ok] Let_def by (simp add: cls)
  qed
  have pool: "u64_wrap (int (1000000 div 100 * bandwidth_video_pool_percent sample_policy) +
      int (u64_wrap (int (1000000 mod 100 * bandwidth_video_pool_percent sample_policy)) div 100)) = 850000"
    by (simp add: sample_policy_def u64_wrap_def)
  have "sample_streams \<noteq> []"
    by (simp add: sample_streams_def)
  then have "streams (fst (sfu_bandwidth_allocate sample_policy sample_streams 1000000)) =
      [cam 8 0 425000, cam 7 1 425000]"
    unfolding sfu_bandwidth_allocate_def ss policy_ok_values [OF ok] Let_def pool fill by simp
  then show "sfu_bandwidth_has_unmet_demand sample_policy (fst (sfu_bandwidth_allocate sample_policy sample_streams 1000000))"
    unfolding sfu_bandwidth_has_unmet_demand_def policy_ok_values [OF ok] Let_def
    by (simp add: cls) (simp add: sample_policy_def)
qed simp

end
