(* ===== verification/SFU_Interfaces.thy ===== *)
theory SFU_Interfaces
  imports SFU_Prelude
begin

text \<open>
  The contracts several components share, each as a locale that the components
  interpret on their own operations: pull iterators over a buffer, and
  direct-mapped caches whose slot is computed from the key.
\<close>

lemma ok_case_option [ok_simps]:
  "ok (case r of None \<Rightarrow> x | Some v \<Rightarrow> f v) P \<longleftrightarrow>
   (r = None \<longrightarrow> ok x P) \<and> (\<forall>v. r = Some v \<longrightarrow> ok (f v) P)"
  by (cases r) auto

section \<open>Iterators\<close>

text \<open>\<open>drain n next s\<close> is the loop \<^verbatim>\<open>while (next(&s, &x)) ...\<close>, cut off after \<open>n\<close> calls.\<close>

fun drain :: "nat \<Rightarrow> ('s \<Rightarrow> ('s \<times> 'a ret) option) \<Rightarrow> 's \<Rightarrow> 'a list option" where
  "drain 0 next s = None"
| "drain (Suc n) next s = do {
     (s, r) \<leftarrow> next s;
     case r of
       Reject \<Rightarrow> Some []
     | Accept x \<Rightarrow> do { xs \<leftarrow> drain n next s; Some (x # xs) }
   }"

text \<open>An iterator has a list of pending items; a call yields the first of them and
  leaves the others pending, and is refused exactly when none is left.\<close>

locale iterator =
  fixes inv :: "'s \<Rightarrow> bool" and pending :: "'s \<Rightarrow> 'a list"
    and step :: "'s \<Rightarrow> ('s \<times> 'a ret) option"
  assumes step_empty: "inv s \<Longrightarrow> pending s = [] \<Longrightarrow> \<exists>s'. step s = Some (s', Reject)"
    and step_item: "inv s \<Longrightarrow> pending s = x # xs \<Longrightarrow>
      \<exists>s'. step s = Some (s', Accept x) \<and> inv s' \<and> pending s' = xs"
begin

lemma drain_pending: "inv s \<Longrightarrow> length (pending s) < n \<Longrightarrow> drain n step s = Some (pending s)"
proof (induction n arbitrary: s)
  case 0
  then show ?case
    by simp
next
  case (Suc n)
  show ?case
  proof (cases "pending s")
    case Nil
    then show ?thesis
      using step_empty [OF Suc.prems(1)] by auto
  next
    case (Cons x xs)
    then obtain s' where "step s = Some (s', Accept x)" "inv s'" "pending s' = xs"
      using step_item [OF Suc.prems(1)] by blast
    then show ?thesis
      using Suc.IH [of s'] Suc.prems(2) Cons by simp
  qed
qed

lemma step_total: "inv s \<Longrightarrow> \<exists>s' r. step s = Some (s', r)"
  using step_empty step_item by (cases "pending s") blast+

end

section \<open>Direct-mapped caches\<close>

fun foldM :: "('s \<Rightarrow> 'a \<Rightarrow> 's option) \<Rightarrow> 's \<Rightarrow> 'a list \<Rightarrow> 's option" where
  "foldM f s [] = Some s"
| "foldM f s (x # xs) = do { s \<leftarrow> f s x; foldM f s xs }"

lemma ok_foldM:
  assumes "\<And>s x. x \<in> set xs \<Longrightarrow> I s \<Longrightarrow> ok (f s x) I" "I s"
  shows "ok (foldM f s xs) I"
  using assms
proof (induction xs arbitrary: s)
  case (Cons x xs)
  then show ?case
    by (auto intro!: ok_bindI [where P = I])
qed (simp add: ok_simps)

lemma foldM_append: "foldM f s (xs @ ys) = do { s \<leftarrow> foldM f s xs; foldM f s ys }"
  by (induction xs arbitrary: s) (auto split: bind_splits)

text \<open>What a direct-mapped cache holds for a key after a series of insertions: the
  last one that went to the key's slot, if it was for this key.\<close>

fun latest :: "('k \<Rightarrow> nat) \<Rightarrow> ('k \<times> 'v) list \<Rightarrow> 'k \<Rightarrow> 'v option \<Rightarrow> 'v option" where
  "latest slot [] k v0 = v0"
| "latest slot ((k', v) # ps) k v0 =
     latest slot ps k (if k' = k then Some v else if slot k' = slot k then None else v0)"

locale direct_mapped =
  fixes inv :: "'s \<Rightarrow> bool" and fits :: "'v \<Rightarrow> bool" and slot :: "'k \<Rightarrow> nat"
    and put :: "'s \<Rightarrow> 'k \<times> 'v \<Rightarrow> 's option" and look :: "'s \<Rightarrow> 'k \<Rightarrow> 'v option"
  assumes put_law: "inv s \<Longrightarrow> fits v \<Longrightarrow> ok (put s (k, v)) (\<lambda>s'. inv s' \<and>
      (\<forall>k'. look s' k' = (if k = k' then Some v else if slot k = slot k' then None else look s k')))"
begin

lemma puts_latest:
  assumes "inv s" "\<forall>(k, v) \<in> set ps. fits v"
  shows "ok (foldM put s ps) (\<lambda>s'. inv s' \<and> (\<forall>k. look s' k = latest slot ps k (look s k)))"
  using assms
proof (induction ps arbitrary: s)
  case Nil
  then show ?case
    by (simp add: ok_simps)
next
  case (Cons p ps)
  obtain k v where p: "p = (k, v)"
    by (cases p)
  have "fits v"
    using Cons.prems p by simp
  show ?case
    unfolding p foldM.simps
  proof (rule ok_bindI [OF put_law [OF Cons.prems(1) \<open>fits v\<close>]])
    fix s'
    assume "inv s' \<and> (\<forall>k'. look s' k' = (if k = k' then Some v else if slot k = slot k' then None
      else look s k'))"
    then show "ok (foldM put s' ps)
      (\<lambda>s'. inv s' \<and> (\<forall>ka. look s' ka = latest slot ((k, v) # ps) ka (look s ka)))"
      using Cons.IH [of s'] Cons.prems(2) by simp
  qed
qed

end

text \<open>An insertion survives insertions into other slots.\<close>

lemma latest_other: "\<forall>(k', v) \<in> set ps. slot k' \<noteq> slot k \<Longrightarrow> latest slot ps k v0 = v0"
  by (induction ps arbitrary: v0) (auto split: if_splits)

lemma latest_append: "latest slot (ps @ qs) k v0 = latest slot qs k (latest slot ps k v0)"
  by (induction slot ps k v0 rule: latest.induct) simp_all

end
