(* ===== verification/Twcc_History.thy ===== *)
theory Twcc_History
  imports SFU_Interfaces
begin

text \<open>
  The send history transport-wide feedback is matched against
  (\<^verbatim>\<open>src/src/congestion/twcc_history.h\<close>): a ring of 4096 entries indexed by the low bits of
  the transport-wide sequence number.
\<close>

section \<open>State and operations\<close>

record gcc_packet_info =
  pi_sequence_number :: u16
  pi_send_time_us :: int
  pi_receive_time_us :: int
  pi_size_bytes :: u32

abbreviation SFU_TWCC_HISTORY_CAPACITY :: nat where "SFU_TWCC_HISTORY_CAPACITY \<equiv> 4096"
abbreviation SFU_TWCC_HISTORY_MASK :: u16 where "SFU_TWCC_HISTORY_MASK \<equiv> 4095"

record sfu_twcc_history_entry =
  he_twcc_seq :: u16
  he_send_time_us :: int
  he_size_bytes :: u32
  he_valid :: bool
  he_received_consumed :: bool
  he_loss_reported :: bool
  he_is_probe :: bool
  he_probe_cluster_id :: u32

type_synonym sfu_twcc_history = "sfu_twcc_history_entry list"

definition history_entry_zero :: sfu_twcc_history_entry where
  "history_entry_zero = \<lparr>he_twcc_seq = 0, he_send_time_us = 0, he_size_bytes = 0, he_valid = False,
     he_received_consumed = False, he_loss_reported = False, he_is_probe = False,
     he_probe_cluster_id = 0\<rparr>"

definition history_idx :: "u16 \<Rightarrow> nat" where
  "history_idx seq = unat (seq AND SFU_TWCC_HISTORY_MASK)"

definition sfu_twcc_history_init :: sfu_twcc_history where
  "sfu_twcc_history_init = replicate SFU_TWCC_HISTORY_CAPACITY history_entry_zero"

definition sfu_twcc_history_record ::
    "sfu_twcc_history \<Rightarrow> u16 \<Rightarrow> int \<Rightarrow> u32 \<Rightarrow> sfu_twcc_history option" where
  "sfu_twcc_history_record h seq send_time_us size_bytes =
     aset h (history_idx seq)
       \<lparr>he_twcc_seq = seq, he_send_time_us = send_time_us, he_size_bytes = size_bytes, he_valid = True,
        he_received_consumed = False, he_loss_reported = False, he_is_probe = False,
        he_probe_cluster_id = 0\<rparr>"

definition sfu_twcc_history_record_probe ::
    "sfu_twcc_history \<Rightarrow> u16 \<Rightarrow> int \<Rightarrow> u32 \<Rightarrow> u32 \<Rightarrow> sfu_twcc_history option" where
  "sfu_twcc_history_record_probe h seq send_time_us size_bytes cluster_id =
     aset h (history_idx seq)
       \<lparr>he_twcc_seq = seq, he_send_time_us = send_time_us, he_size_bytes = size_bytes, he_valid = True,
        he_received_consumed = False, he_loss_reported = False, he_is_probe = True,
        he_probe_cluster_id = cluster_id\<rparr>"

text \<open>Lookups fill the packet they are given, and return the probe flag and cluster.\<close>

definition sfu_twcc_history_lookup_ext ::
    "sfu_twcc_history \<Rightarrow> u16 \<Rightarrow> gcc_packet_info \<Rightarrow> (gcc_packet_info \<times> bool \<times> u32) ret option" where
  "sfu_twcc_history_lookup_ext h seq out_pkt = do {
     entry \<leftarrow> aget h (history_idx seq);
     if he_valid entry \<and> he_twcc_seq entry = seq
     then Some (Accept (out_pkt\<lparr>pi_send_time_us := he_send_time_us entry, pi_size_bytes := he_size_bytes entry\<rparr>,
       he_is_probe entry, he_probe_cluster_id entry))
     else Some Reject
   }"

definition sfu_twcc_history_lookup ::
    "sfu_twcc_history \<Rightarrow> u16 \<Rightarrow> gcc_packet_info \<Rightarrow> gcc_packet_info ret option" where
  "sfu_twcc_history_lookup h seq out_pkt = do {
     r \<leftarrow> sfu_twcc_history_lookup_ext h seq out_pkt;
     Some (case r of Reject \<Rightarrow> Reject | Accept (pkt, _) \<Rightarrow> Accept pkt)
   }"

definition sfu_twcc_history_consume_received_ext ::
    "sfu_twcc_history \<Rightarrow> u16 \<Rightarrow> gcc_packet_info \<Rightarrow>
     (sfu_twcc_history \<times> (gcc_packet_info \<times> bool \<times> bool \<times> u32) ret) option" where
  "sfu_twcc_history_consume_received_ext h seq out_pkt = do {
     entry \<leftarrow> aget h (history_idx seq);
     if \<not> he_valid entry \<or> he_twcc_seq entry \<noteq> seq \<or> he_received_consumed entry then Some (h, Reject)
     else do {
       h \<leftarrow> aset h (history_idx seq) (entry\<lparr>he_received_consumed := True\<rparr>);
       Some (h, Accept (out_pkt\<lparr>pi_send_time_us := he_send_time_us entry, pi_size_bytes := he_size_bytes entry\<rparr>,
         he_loss_reported entry, he_is_probe entry, he_probe_cluster_id entry))
     }
   }"

definition sfu_twcc_history_consume_received ::
    "sfu_twcc_history \<Rightarrow> u16 \<Rightarrow> gcc_packet_info \<Rightarrow>
     (sfu_twcc_history \<times> (gcc_packet_info \<times> bool) ret) option" where
  "sfu_twcc_history_consume_received h seq out_pkt = do {
     (h, r) \<leftarrow> sfu_twcc_history_consume_received_ext h seq out_pkt;
     Some (h, case r of Reject \<Rightarrow> Reject | Accept (pkt, was_loss, _) \<Rightarrow> Accept (pkt, was_loss))
   }"

definition sfu_twcc_history_report_loss_once ::
    "sfu_twcc_history \<Rightarrow> u16 \<Rightarrow> (sfu_twcc_history \<times> bool) option" where
  "sfu_twcc_history_report_loss_once h seq = do {
     entry \<leftarrow> aget h (history_idx seq);
     if \<not> he_valid entry \<or> he_twcc_seq entry \<noteq> seq \<or> he_received_consumed entry \<or> he_loss_reported entry
     then Some (h, False)
     else do {
       h \<leftarrow> aset h (history_idx seq) (entry\<lparr>he_loss_reported := True\<rparr>);
       Some (h, True)
     }
   }"

lemma history_idx_less [simp]: "history_idx seq < 4096"
  using unat_and_le [of seq SFU_TWCC_HISTORY_MASK] by (simp add: history_idx_def)

section \<open>The history as a direct-mapped cache\<close>

type_synonym history_value = "int \<times> u32 \<times> bool \<times> u32"

definition history_look :: "sfu_twcc_history \<Rightarrow> u16 \<Rightarrow> history_value option" where
  "history_look h seq =
     (let e = h ! history_idx seq
      in if he_valid e \<and> he_twcc_seq e = seq
         then Some (he_send_time_us e, he_size_bytes e, he_is_probe e, he_probe_cluster_id e) else None)"

definition history_put :: "sfu_twcc_history \<Rightarrow> u16 \<times> history_value \<Rightarrow> sfu_twcc_history option" where
  "history_put h = (\<lambda>(seq, t, n, probe, cluster).
     if probe then sfu_twcc_history_record_probe h seq t n cluster
     else sfu_twcc_history_record h seq t n)"

interpretation history: direct_mapped "\<lambda>h. length h = SFU_TWCC_HISTORY_CAPACITY"
    "\<lambda>(t, n, probe, cluster). probe \<or> cluster = 0" history_idx history_put history_look
proof
  fix h :: sfu_twcc_history and v :: history_value and k
  assume "length h = 4096" "case v of (t, n, probe, cluster) \<Rightarrow> probe \<or> cluster = 0"
  then show "ok (history_put h (k, v)) (\<lambda>h'. length h' = 4096 \<and> (\<forall>k'. history_look h' k' =
      (if k = k' then Some v else if history_idx k = history_idx k' then None else history_look h k')))"
    by (cases v) (auto simp: history_put_def sfu_twcc_history_record_def sfu_twcc_history_record_probe_def
        ok_simps history_look_def Let_def)
qed

section \<open>Feedback is counted once\<close>

text \<open>What a feedback handler does with the history: record a packet, consume a reception,
  report a loss.  The outcome of an event says whether the operation took effect.\<close>

datatype history_event = Sent u16 history_value | Received u16 | Lost u16

fun history_run :: "sfu_twcc_history \<Rightarrow> history_event list \<Rightarrow> (history_event \<times> bool) list option" where
  "history_run h [] = Some []"
| "history_run h (Sent seq v # es) = do {
     h \<leftarrow> history_put h (seq, v);
     rs \<leftarrow> history_run h es;
     Some ((Sent seq v, True) # rs)
   }"
| "history_run h (Received seq # es) = do {
     (h, r) \<leftarrow> sfu_twcc_history_consume_received h seq
        \<lparr>pi_sequence_number = seq, pi_send_time_us = 0, pi_receive_time_us = 0, pi_size_bytes = 0\<rparr>;
     rs \<leftarrow> history_run h es;
     Some ((Received seq, r \<noteq> Reject) # rs)
   }"
| "history_run h (Lost seq # es) = do {
     (h, r) \<leftarrow> sfu_twcc_history_report_loss_once h seq;
     rs \<leftarrow> history_run h es;
     Some ((Lost seq, r) # rs)
   }"

definition resent :: "u16 \<Rightarrow> history_event list \<Rightarrow> bool" where
  "resent seq es \<longleftrightarrow> (\<exists>v. Sent seq v \<in> set es)"

definition history_live :: "sfu_twcc_history \<Rightarrow> u16 \<Rightarrow> bool" where
  "history_live h seq \<longleftrightarrow> he_valid (h ! history_idx seq) \<and> he_twcc_seq (h ! history_idx seq) = seq"

text \<open>How often an event on a sequence number may still take effect.\<close>

definition may_receive :: "sfu_twcc_history \<Rightarrow> u16 \<Rightarrow> nat" where
  "may_receive h seq = (if history_live h seq \<and> \<not> he_received_consumed (h ! history_idx seq) then 1 else 0)"

definition may_lose :: "sfu_twcc_history \<Rightarrow> u16 \<Rightarrow> nat" where
  "may_lose h seq = (if history_live h seq \<and> \<not> he_received_consumed (h ! history_idx seq) \<and>
     \<not> he_loss_reported (h ! history_idx seq) then 1 else 0)"

lemmas history_defs = history_put_def sfu_twcc_history_record_def sfu_twcc_history_record_probe_def
  sfu_twcc_history_consume_received_def sfu_twcc_history_consume_received_ext_def
  sfu_twcc_history_report_loss_once_def history_live_def may_receive_def may_lose_def

lemma history_sent:
  assumes "length h = SFU_TWCC_HISTORY_CAPACITY" "s \<noteq> seq"
  shows "ok (history_put h (s, v)) (\<lambda>h'. length h' = SFU_TWCC_HISTORY_CAPACITY \<and>
    may_receive h' seq \<le> may_receive h seq \<and> may_lose h' seq \<le> may_lose h seq)"
  using assms by (cases v) (auto simp: history_defs ok_simps nth_list_update)

lemma consume_eq:
  assumes "length h = SFU_TWCC_HISTORY_CAPACITY"
  shows "sfu_twcc_history_consume_received h s pkt =
    (let e = h ! history_idx s
     in if history_live h s \<and> \<not> he_received_consumed e
        then Some (h[history_idx s := e\<lparr>he_received_consumed := True\<rparr>],
          Accept (pkt\<lparr>pi_send_time_us := he_send_time_us e, pi_size_bytes := he_size_bytes e\<rparr>, he_loss_reported e))
        else Some (h, Reject))"
  using assms by (simp add: sfu_twcc_history_consume_received_def sfu_twcc_history_consume_received_ext_def
      history_live_def Let_def)

lemma loss_eq:
  assumes "length h = SFU_TWCC_HISTORY_CAPACITY"
  shows "sfu_twcc_history_report_loss_once h s =
    (let e = h ! history_idx s
     in if history_live h s \<and> \<not> he_received_consumed e \<and> \<not> he_loss_reported e
        then Some (h[history_idx s := e\<lparr>he_loss_reported := True\<rparr>], True) else Some (h, False))"
  using assms by (simp add: sfu_twcc_history_report_loss_once_def history_live_def Let_def)

text \<open>An update of an entry that keeps its identity changes only what holds of its own
  sequence number.\<close>

lemma may_update:
  assumes "length h = SFU_TWCC_HISTORY_CAPACITY" "history_live h s" "e = h ! history_idx s"
    and "he_valid e' = he_valid e" "he_twcc_seq e' = he_twcc_seq e"
  shows "may_receive (h[history_idx s := e']) seq =
      (if seq = s then if he_received_consumed e' then 0 else 1 else may_receive h seq)"
    and "may_lose (h[history_idx s := e']) seq =
      (if seq = s then if he_received_consumed e' \<or> he_loss_reported e' then 0 else 1 else may_lose h seq)"
  using assms by (cases "history_idx seq = history_idx s";
      simp add: may_receive_def may_lose_def history_live_def; metis)+

lemma history_received:
  assumes "length h = SFU_TWCC_HISTORY_CAPACITY"
  shows "ok (sfu_twcc_history_consume_received h s pkt) (\<lambda>(h', r). length h' = SFU_TWCC_HISTORY_CAPACITY \<and>
    (if s = seq \<and> r \<noteq> Reject then 1 else 0) + may_receive h' seq \<le> may_receive h seq \<and>
    may_lose h' seq \<le> may_lose h seq \<and> (s = seq \<and> r \<noteq> Reject \<longrightarrow> may_lose h' seq = 0))"
proof (cases "history_live h s \<and> \<not> he_received_consumed (h ! history_idx s)")
  case True
  then show ?thesis
    using assms may_update [OF assms _ refl, of s "(h ! history_idx s)\<lparr>he_received_consumed := True\<rparr>" seq]
    by (cases "seq = s") (simp_all add: consume_eq Let_def ok_Some may_receive_def [of h])
qed (use assms in \<open>auto simp: consume_eq Let_def ok_Some\<close>)

lemma history_lost:
  assumes "length h = SFU_TWCC_HISTORY_CAPACITY"
  shows "ok (sfu_twcc_history_report_loss_once h s) (\<lambda>(h', r). length h' = SFU_TWCC_HISTORY_CAPACITY \<and>
    (if s = seq \<and> r then 1 else 0) + may_lose h' seq \<le> may_lose h seq \<and>
    may_receive h' seq \<le> may_receive h seq)"
proof (cases "history_live h s \<and> \<not> he_received_consumed (h ! history_idx s) \<and>
    \<not> he_loss_reported (h ! history_idx s)")
  case True
  then show ?thesis
    using assms may_update [OF assms _ refl, of s "(h ! history_idx s)\<lparr>he_loss_reported := True\<rparr>" seq]
    by (cases "seq = s") (simp_all add: loss_eq Let_def ok_Some may_lose_def [of h] may_receive_def [of h])
qed (use assms in \<open>auto simp: loss_eq Let_def ok_Some\<close>)

text \<open>No counted loss follows a counted reception.\<close>

fun received_last :: "u16 \<Rightarrow> (history_event \<times> bool) list \<Rightarrow> bool" where
  "received_last seq [] = True"
| "received_last seq (r # rs) =
     ((r = (Received seq, True) \<longrightarrow> (Lost seq, True) \<notin> set rs) \<and> received_last seq rs)"

lemma received_lastD: "received_last seq (pre @ (Received seq, True) # post) \<Longrightarrow> (Lost seq, True) \<notin> set post"
  by (induction pre) auto

lemma history_run_once:
  assumes "length h = SFU_TWCC_HISTORY_CAPACITY" "\<not> resent seq es"
  shows "ok (history_run h es) (\<lambda>rs. count_list rs (Received seq, True) \<le> may_receive h seq \<and>
    count_list rs (Lost seq, True) \<le> may_lose h seq \<and> received_last seq rs)"
  using assms
proof (induction es arbitrary: h)
  case Nil
  then show ?case
    by (simp add: ok_simps)
next
  case (Cons e es)
  have IH: "ok (history_run h' es) (\<lambda>rs. count_list rs (Received seq, True) \<le> may_receive h' seq \<and>
      count_list rs (Lost seq, True) \<le> may_lose h' seq \<and> received_last seq rs)" if "length h' = 4096" for h'
    using Cons.IH [OF that] Cons.prems(2) by (simp add: resent_def)
  show ?case
  proof (cases e)
    case (Sent s v)
    then have "s \<noteq> seq"
      using Cons.prems(2) by (cases v) (auto simp: resent_def)
    then show ?thesis
      unfolding Sent history_run.simps
      by (intro ok_bindI [OF history_sent [OF Cons.prems(1)]] ok_bindI [OF IH]) (auto simp: ok_Some)
  next
    case (Received s)
    then show ?thesis
      unfolding Received history_run.simps
      by (intro ok_bindI [OF history_received [OF Cons.prems(1), where seq = seq]])
        (auto intro!: ok_bindI [OF IH] simp: ok_Some count_list_0_iff split: if_splits)
  next
    case (Lost s)
    then show ?thesis
      unfolding Lost history_run.simps
      by (intro ok_bindI [OF history_lost [OF Cons.prems(1), where seq = seq]])
        (auto intro!: ok_bindI [OF IH] simp: ok_Some count_list_0_iff split: if_splits)
  qed
qed

text \<open>Property C13. Once a packet is in the history, later feedback counts its reception at most
  once and its loss at most once until its sequence number is sent again, and after a
  counted reception no loss is counted; other packets may be sent, received and lost in
  between in any order.\<close>

theorem history_counts_once:
  assumes "length h = SFU_TWCC_HISTORY_CAPACITY" "\<not> resent seq es"
  shows "\<exists>rs. history_run h es = Some rs \<and>
    count_list rs (Received seq, True) \<le> 1 \<and> count_list rs (Lost seq, True) \<le> 1 \<and>
    (\<forall>pre post. rs = pre @ (Received seq, True) # post \<longrightarrow> (Lost seq, True) \<notin> set post)"
proof -
  have "may_receive h seq \<le> 1" "may_lose h seq \<le> 1"
    by (simp_all add: may_receive_def may_lose_def)
  then show ?thesis
    using history_run_once [OF assms] received_lastD [of seq] by (fastforce simp: ok_def)
qed

theorem history_counts_once_witness:
  "\<exists>h rs. history_put sfu_twcc_history_init (7, 100, 1200, False, 0) = Some h \<and>
    history_run h [Lost 7, Received 7, Sent 8 (0, 1, False, 0), Lost 7, Received 7] = Some rs \<and>
    count_list rs (Received 7, True) \<le> 1 \<and> count_list rs (Lost 7, True) \<le> 1"
proof -
  obtain h where h: "history_put sfu_twcc_history_init (7, 100, 1200, False, 0) = Some h"
    "length h = SFU_TWCC_HISTORY_CAPACITY"
    by (simp add: history_put_def sfu_twcc_history_record_def sfu_twcc_history_init_def)
  then show ?thesis
    using history_counts_once [OF h(2), of 7 "[Lost 7, Received 7, Sent 8 (0, 1, False, 0), Lost 7, Received 7]"]
    by (auto simp: resent_def)
qed

end
