(* ===== verification/Gcc.thy ===== *)
theory Gcc
  imports Twcc_History Complex_Main
begin

text \<open>
  Bandwidth estimation (\<^verbatim>\<open>src/src/congestion/gcc.c\<close>): arrival groups, the trendline
  estimator with its overuse detector, the acknowledged bit rate and the AIMD controller.
  Floating-point arithmetic is an argument of the definitions that use it, the record
  \<open>'d fp\<close> of the operations on \<^verbatim>\<open>double\<close>; the theorems hold for every choice of them, so for
  the IEEE operations.
\<close>

section \<open>Floating point\<close>

text \<open>\<open>fp_lit n d\<close> is the literal with the decimal value \<open>n / d\<close>.\<close>

record 'd fp =
  fp_int :: "int \<Rightarrow> 'd"
  fp_lit :: "int \<Rightarrow> int \<Rightarrow> 'd"
  fp_add :: "'d \<Rightarrow> 'd \<Rightarrow> 'd"
  fp_sub :: "'d \<Rightarrow> 'd \<Rightarrow> 'd"
  fp_mul :: "'d \<Rightarrow> 'd \<Rightarrow> 'd"
  fp_div :: "'d \<Rightarrow> 'd \<Rightarrow> 'd"
  fp_neg :: "'d \<Rightarrow> 'd"
  fp_abs :: "'d \<Rightarrow> 'd"
  fp_less :: "'d \<Rightarrow> 'd \<Rightarrow> bool"
  fp_le :: "'d \<Rightarrow> 'd \<Rightarrow> bool"
  fp_eq :: "'d \<Rightarrow> 'd \<Rightarrow> bool"
  fp_u64 :: "'d \<Rightarrow> nat"

section \<open>State\<close>

abbreviation GCC_TRENDLINE_WINDOW_SIZE :: nat where "GCC_TRENDLINE_WINDOW_SIZE \<equiv> 20"
abbreviation UINT32_MAX :: nat where "UINT32_MAX \<equiv> 4294967295"

datatype gcc_bwe_usage = GCC_BWE_NORMAL | GCC_BWE_UNDERUSE | GCC_BWE_OVERUSE
datatype gcc_rate_ctrl_state = GCC_RATE_CTRL_HOLD | GCC_RATE_CTRL_INCREASE | GCC_RATE_CTRL_DECREASE

record gcc_arrival_group =
  ag_first_send_time_us :: int
  ag_last_send_time_us :: int
  ag_first_recv_time_us :: int
  ag_last_recv_time_us :: int
  ag_total_size :: u32
  ag_packet_count :: nat

record 'd gcc_trendline_estimator =
  te_arrival_time_ms :: "'d list"
  te_smoothed_delay_history_ms :: "'d list"
  te_history_index :: nat
  te_history_count :: nat
  te_accumulated_delay_ms :: 'd
  te_smoothed_delay_ms :: 'd
  te_trendline_slope :: 'd
  te_threshold_ms :: 'd
  te_last_threshold_update_us :: int
  te_time_over_using_ms :: 'd
  te_last_overuse_check_us :: int
  te_first_arrival_time_us :: int
  te_have_first_arrival :: bool
  te_usage_state :: gcc_bwe_usage

record gcc_aimd_controller =
  am_current_bitrate_bps :: u32
  am_min_bitrate_bps :: u32
  am_max_bitrate_bps :: u32
  am_state :: gcc_rate_ctrl_state
  am_last_increase_us :: int
  am_last_recovery_probe_us :: int
  am_last_active_probe_us :: int
  am_ack_bitrate_bps :: u32
  am_ack_window_bytes :: nat
  am_ack_window_min_recv_us :: int
  am_ack_window_max_recv_us :: int
  am_consecutive_high_loss_windows :: u32
  am_have_ack_bitrate :: bool
  am_active_probing :: bool

record 'd gcc_bwe_context =
  gc_current_group :: gcc_arrival_group
  gc_prev_group :: gcc_arrival_group
  gc_trendline :: "'d gcc_trendline_estimator"
  gc_aimd :: gcc_aimd_controller
  gc_last_feedback_us :: int

section \<open>Initialisation\<close>

definition arrival_group_zero :: gcc_arrival_group where
  "arrival_group_zero = \<lparr>ag_first_send_time_us = 0, ag_last_send_time_us = 0, ag_first_recv_time_us = 0,
     ag_last_recv_time_us = 0, ag_total_size = 0, ag_packet_count = 0\<rparr>"

definition gcc_bwe_init :: "'d fp \<Rightarrow> u32 \<Rightarrow> u32 \<Rightarrow> u32 \<Rightarrow> 'd gcc_bwe_context" where
  "gcc_bwe_init fp start_bitrate min_bitrate max_bitrate =
     (let (start_bitrate, min_bitrate, max_bitrate) =
        (if min_bitrate = 0 \<or> max_bitrate = 0 \<or> min_bitrate > max_bitrate \<or>
            start_bitrate < min_bitrate \<or> start_bitrate > max_bitrate
         then (300000, 50000, 5000000) else (start_bitrate, min_bitrate, max_bitrate));
         zero = fp_int fp 0
      in \<lparr>gc_current_group = arrival_group_zero, gc_prev_group = arrival_group_zero,
          gc_trendline = \<lparr>te_arrival_time_ms = replicate GCC_TRENDLINE_WINDOW_SIZE zero,
            te_smoothed_delay_history_ms = replicate GCC_TRENDLINE_WINDOW_SIZE zero,
            te_history_index = 0, te_history_count = 0, te_accumulated_delay_ms = zero,
            te_smoothed_delay_ms = zero, te_trendline_slope = zero, te_threshold_ms = fp_lit fp 25 2,
            te_last_threshold_update_us = 0, te_time_over_using_ms = zero, te_last_overuse_check_us = 0,
            te_first_arrival_time_us = 0, te_have_first_arrival = False, te_usage_state = GCC_BWE_NORMAL\<rparr>,
          gc_aimd = \<lparr>am_current_bitrate_bps = start_bitrate, am_min_bitrate_bps = min_bitrate,
            am_max_bitrate_bps = max_bitrate, am_state = GCC_RATE_CTRL_INCREASE, am_last_increase_us = 0,
            am_last_recovery_probe_us = 0, am_last_active_probe_us = 0, am_ack_bitrate_bps = 0,
            am_ack_window_bytes = 0, am_ack_window_min_recv_us = 0, am_ack_window_max_recv_us = 0,
            am_consecutive_high_loss_windows = 0, am_have_ack_bitrate = False, am_active_probing = False\<rparr>,
          gc_last_feedback_us = 0\<rparr>)"

section \<open>Trendline estimator\<close>

definition clampd :: "'d fp \<Rightarrow> 'd \<Rightarrow> 'd \<Rightarrow> 'd \<Rightarrow> 'd" where
  "clampd fp v lo hi = (if fp_less fp v lo then lo else if fp_less fp hi v then hi else v)"

definition trendline_modified_trend :: "'d fp \<Rightarrow> 'd gcc_trendline_estimator \<Rightarrow> 'd" where
  "trendline_modified_trend fp te =
     (if te_history_count te < 2 then fp_lit fp 0 1
      else
        let n = te_history_count te;
            xs = take n (te_arrival_time_ms te);
            ys = take n (te_smoothed_delay_history_ms te);
            sum_x = foldl (fp_add fp) (fp_int fp 0) xs;
            sum_y = foldl (fp_add fp) (fp_int fp 0) ys;
            x_min = foldl (\<lambda>m x. if fp_less fp x m then x else m) (hd xs) xs;
            x_max = foldl (\<lambda>m x. if fp_less fp m x then x else m) (hd xs) xs;
            avg_x = fp_div fp sum_x (fp_int fp (int n));
            avg_y = fp_div fp sum_y (fp_int fp (int n));
            (numerator, denominator) = foldl (\<lambda>(num, den) (x, y).
               let dx = fp_sub fp x avg_x
               in (fp_add fp num (fp_mul fp dx (fp_sub fp y avg_y)), fp_add fp den (fp_mul fp dx dx)))
               (fp_int fp 0, fp_int fp 0) (zip xs ys);
            slope = (if \<not> fp_eq fp denominator (fp_lit fp 0 1) then fp_div fp numerator denominator
                     else fp_lit fp 0 1)
        in fp_mul fp slope (fp_sub fp x_max x_min))"

definition trendline_adapt_threshold ::
    "'d fp \<Rightarrow> 'd gcc_trendline_estimator \<Rightarrow> 'd \<Rightarrow> int \<Rightarrow> 'd gcc_trendline_estimator" where
  "trendline_adapt_threshold fp te modified_trend now_us =
     (if te_last_threshold_update_us te = 0 then te\<lparr>te_last_threshold_update_us := now_us\<rparr>
      else
        let delta_s = fp_div fp (fp_int fp (now_us - te_last_threshold_update_us te)) (fp_lit fp 1000000 1)
        in if fp_le fp delta_s (fp_lit fp 0 1) then te
           else
             let delta_s = (if fp_less fp (fp_lit fp 1 10) delta_s then fp_lit fp 1 10 else delta_s);
                 abs_trend = fp_abs fp modified_trend
             in if fp_less fp (fp_add fp (te_threshold_ms te) (fp_lit fp 20 1)) abs_trend
                then te\<lparr>te_last_threshold_update_us := now_us\<rparr>
                else
                  let k = (if fp_less fp abs_trend (te_threshold_ms te) then fp_lit fp 39 1000
                           else fp_lit fp 87 10000);
                      nxt = fp_add fp (te_threshold_ms te)
                        (fp_mul fp (fp_mul fp k (fp_sub fp abs_trend (te_threshold_ms te))) delta_s)
                  in te\<lparr>te_threshold_ms := clampd fp nxt (fp_lit fp 6 1) (fp_lit fp 600 1),
                       te_last_threshold_update_us := now_us\<rparr>)"

definition trendline_detect ::
    "'d fp \<Rightarrow> 'd gcc_trendline_estimator \<Rightarrow> 'd \<Rightarrow> int \<Rightarrow> 'd gcc_trendline_estimator" where
  "trendline_detect fp te modified_trend now_us =
     (let te = (if te_last_overuse_check_us te = 0 then te\<lparr>te_last_overuse_check_us := now_us\<rparr> else te);
          gap_ms = fp_div fp (fp_int fp (now_us - te_last_overuse_check_us te)) (fp_lit fp 1000 1);
          te = te\<lparr>te_last_overuse_check_us := now_us\<rparr>
      in if fp_less fp (te_threshold_ms te) modified_trend
         then
           let te = (if fp_less fp (fp_lit fp 75 1) gap_ms then te\<lparr>te_time_over_using_ms := fp_int fp 0\<rparr>
                     else te\<lparr>te_time_over_using_ms := fp_add fp (te_time_over_using_ms te) gap_ms\<rparr>)
           in if fp_le fp (fp_lit fp 15 1) (te_time_over_using_ms te) \<and> te_history_count te \<ge> 2
              then te\<lparr>te_time_over_using_ms := fp_int fp 0, te_usage_state := GCC_BWE_OVERUSE\<rparr>
              else te
         else if fp_less fp modified_trend (fp_neg fp (te_threshold_ms te))
         then te\<lparr>te_time_over_using_ms := fp_int fp 0, te_usage_state := GCC_BWE_UNDERUSE\<rparr>
         else te\<lparr>te_time_over_using_ms := fp_int fp 0, te_usage_state := GCC_BWE_NORMAL\<rparr>)"

definition update_trendline ::
    "'d fp \<Rightarrow> 'd gcc_trendline_estimator \<Rightarrow> 'd \<Rightarrow> int \<Rightarrow> 'd gcc_trendline_estimator option" where
  "update_trendline fp te delay_variation_ms arrival_time_us = do {
     let te = (if \<not> te_have_first_arrival te
       then te\<lparr>te_first_arrival_time_us := arrival_time_us, te_have_first_arrival := True\<rparr> else te);
     let te = te\<lparr>te_accumulated_delay_ms := fp_add fp (te_accumulated_delay_ms te) delay_variation_ms\<rparr>;
     let te = te\<lparr>te_smoothed_delay_ms :=
       fp_add fp (fp_mul fp (fp_lit fp 9 10) (te_smoothed_delay_ms te))
         (fp_mul fp (fp_sub fp (fp_lit fp 1 1) (fp_lit fp 9 10)) (te_accumulated_delay_ms te))\<rparr>;
     let rel_arrival_ms =
       fp_div fp (fp_int fp (arrival_time_us - te_first_arrival_time_us te)) (fp_lit fp 1000 1);
     xs \<leftarrow> aset (te_arrival_time_ms te) (te_history_index te) rel_arrival_ms;
     ys \<leftarrow> aset (te_smoothed_delay_history_ms te) (te_history_index te) (te_smoothed_delay_ms te);
     let te = te\<lparr>te_arrival_time_ms := xs, te_smoothed_delay_history_ms := ys,
       te_history_index := (te_history_index te + 1) mod GCC_TRENDLINE_WINDOW_SIZE,
       te_history_count := (if te_history_count te < GCC_TRENDLINE_WINDOW_SIZE
         then te_history_count te + 1 else te_history_count te)\<rparr>;
     let modified_trend = trendline_modified_trend fp te;
     let te = te\<lparr>te_trendline_slope := (if te_history_count te > 0
       then fp_div fp modified_trend (fp_int fp (int (te_history_count te))) else fp_lit fp 0 1)\<rparr>;
     let te = trendline_adapt_threshold fp te modified_trend arrival_time_us;
     Some (trendline_detect fp te modified_trend arrival_time_us)
   }"

section \<open>Rate controller\<close>

definition decrease_basis :: "gcc_aimd_controller \<Rightarrow> nat" where
  "decrease_basis aimd =
     (if am_have_ack_bitrate aimd \<and> am_ack_bitrate_bps aimd < am_current_bitrate_bps aimd
      then unat (am_ack_bitrate_bps aimd) else unat (am_current_bitrate_bps aimd))"

definition aimd_recovery_probe :: "gcc_aimd_controller \<Rightarrow> nat \<Rightarrow> int \<Rightarrow> gcc_aimd_controller" where
  "aimd_recovery_probe aimd cap now_us =
     (if am_last_active_probe_us aimd > 0 \<and> now_us > am_last_active_probe_us aimd \<and>
         now_us - am_last_active_probe_us aimd < 1000000
      then aimd
      else
        let recovery_cap = min (cap + 200000) (unat (am_max_bitrate_bps aimd))
        in if unat (am_current_bitrate_bps aimd) < recovery_cap
           then if am_last_recovery_probe_us aimd = 0 then aimd\<lparr>am_last_recovery_probe_us := now_us\<rparr>
           else if now_us - am_last_recovery_probe_us aimd \<ge> 1000000
           then aimd\<lparr>am_current_bitrate_bps :=
                  of_nat (min (unat (am_current_bitrate_bps aimd) + 50000) recovery_cap),
                am_last_recovery_probe_us := now_us\<rparr>
           else aimd
           else aimd)"

definition aimd_increase :: "'d fp \<Rightarrow> gcc_aimd_controller \<Rightarrow> int \<Rightarrow> gcc_aimd_controller" where
  "aimd_increase fp aimd now_us =
     (let elapsed_s = fp_div fp (fp_int fp (now_us - am_last_increase_us aimd)) (fp_lit fp 1000000 1);
          add = fp_u64 fp (fp_mul fp (fp_lit fp 400000 1) elapsed_s);
          add = (if add = 0 then 1000 else add);
          cap = (if am_have_ack_bitrate aimd then unat (am_ack_bitrate_bps aimd) * 3 div 2 else UINT32_MAX);
          aimd = (if cap > unat (am_current_bitrate_bps aimd)
            then
              let nxt = min (unat (am_current_bitrate_bps aimd) + add) cap
              in aimd\<lparr>am_current_bitrate_bps := of_nat (min nxt UINT32_MAX), am_last_recovery_probe_us := 0\<rparr>
            else if am_have_ack_bitrate aimd \<and> \<not> am_active_probing aimd
            then aimd_recovery_probe aimd cap now_us
            else aimd)
      in aimd\<lparr>am_last_increase_us := now_us\<rparr>)"

definition aimd_react :: "'d fp \<Rightarrow> gcc_aimd_controller \<Rightarrow> gcc_bwe_usage \<Rightarrow> int \<Rightarrow> gcc_aimd_controller" where
  "aimd_react fp aimd usage now_us =
     (case usage of
        GCC_BWE_OVERUSE \<Rightarrow>
          aimd\<lparr>am_current_bitrate_bps := of_nat (min (decrease_basis aimd * 85 div 100) UINT32_MAX),
            am_state := GCC_RATE_CTRL_DECREASE, am_last_recovery_probe_us := 0\<rparr>
      | GCC_BWE_UNDERUSE \<Rightarrow> aimd\<lparr>am_state := GCC_RATE_CTRL_HOLD\<rparr>
      | GCC_BWE_NORMAL \<Rightarrow>
          if am_state aimd = GCC_RATE_CTRL_DECREASE then aimd\<lparr>am_state := GCC_RATE_CTRL_HOLD\<rparr>
          else
            let aimd = aimd\<lparr>am_state := GCC_RATE_CTRL_INCREASE\<rparr>
            in if am_last_increase_us aimd = 0 then aimd\<lparr>am_last_increase_us := now_us\<rparr>
               else if now_us - am_last_increase_us aimd \<ge> 100000 then aimd_increase fp aimd now_us
               else aimd)"

definition update_aimd :: "'d fp \<Rightarrow> gcc_aimd_controller \<Rightarrow> gcc_bwe_usage \<Rightarrow> int \<Rightarrow> gcc_aimd_controller" where
  "update_aimd fp aimd usage now_us =
     (let aimd = aimd_react fp aimd usage now_us;
          aimd = (if am_current_bitrate_bps aimd < am_min_bitrate_bps aimd
            then aimd\<lparr>am_current_bitrate_bps := am_min_bitrate_bps aimd\<rparr> else aimd)
      in if am_current_bitrate_bps aimd > am_max_bitrate_bps aimd
         then aimd\<lparr>am_current_bitrate_bps := am_max_bitrate_bps aimd\<rparr> else aimd)"

definition update_ack_bitrate :: "gcc_aimd_controller \<Rightarrow> gcc_packet_info \<Rightarrow> gcc_aimd_controller" where
  "update_ack_bitrate aimd pkt =
     (if pi_size_bytes pkt = 0 then aimd
      else
        let aimd = (if am_ack_window_bytes aimd > 0 \<and> pi_receive_time_us pkt > am_ack_window_max_recv_us aimd \<and>
                       pi_receive_time_us pkt - am_ack_window_max_recv_us aimd > 300000
              then aimd\<lparr>am_ack_window_bytes := 0, am_ack_window_min_recv_us := 0, am_ack_window_max_recv_us := 0,
                am_ack_bitrate_bps := 0, am_have_ack_bitrate := False\<rparr> else aimd);
            aimd = (if am_ack_window_bytes aimd = 0
              then aimd\<lparr>am_ack_window_min_recv_us := pi_receive_time_us pkt,
                am_ack_window_max_recv_us := pi_receive_time_us pkt\<rparr>
              else aimd\<lparr>am_ack_window_min_recv_us := min (pi_receive_time_us pkt) (am_ack_window_min_recv_us aimd),
                am_ack_window_max_recv_us := max (pi_receive_time_us pkt) (am_ack_window_max_recv_us aimd)\<rparr>);
            aimd = aimd\<lparr>am_ack_window_bytes := am_ack_window_bytes aimd + unat (pi_size_bytes pkt)\<rparr>;
            span_us = am_ack_window_max_recv_us aimd - am_ack_window_min_recv_us aimd
        in if span_us < 300000 then aimd
           else
             let sample = min (am_ack_window_bytes aimd * 8 * 1000000 div nat span_us) UINT32_MAX;
                 sample = (if am_have_ack_bitrate aimd
                   then (unat (am_ack_bitrate_bps aimd) * 9 + sample) div 10 else sample)
             in aimd\<lparr>am_ack_bitrate_bps := of_nat sample, am_have_ack_bitrate := True, am_ack_window_bytes := 0,
                  am_ack_window_min_recv_us := 0, am_ack_window_max_recv_us := 0\<rparr>)"

section \<open>Interface\<close>

definition gcc_bwe_report_loss :: "'d gcc_bwe_context \<Rightarrow> u32 \<Rightarrow> u32 \<Rightarrow> 'd gcc_bwe_context \<times> bool" where
  "gcc_bwe_report_loss ctx lost tot =
     (if tot = 0 then (ctx, False)
      else
        let aimd = gc_aimd ctx
        in if lost = 0 then (ctx\<lparr>gc_aimd := aimd\<lparr>am_consecutive_high_loss_windows := 0\<rparr>\<rparr>, False)
        else if lost * 100 > tot * 10
        then
          let aimd = aimd\<lparr>am_consecutive_high_loss_windows := am_consecutive_high_loss_windows aimd + 1\<rparr>
          in if am_consecutive_high_loss_windows aimd \<ge> 3
             then
               let nxt = decrease_basis aimd * 85 div 100;
                   nxt = (if nxt < unat (am_min_bitrate_bps aimd) then unat (am_min_bitrate_bps aimd)
                          else if nxt > unat (am_max_bitrate_bps aimd) then unat (am_max_bitrate_bps aimd)
                          else nxt)
               in (ctx\<lparr>gc_aimd := aimd\<lparr>am_current_bitrate_bps := of_nat nxt, am_state := GCC_RATE_CTRL_HOLD,
                     am_last_recovery_probe_us := 0, am_consecutive_high_loss_windows := 0\<rparr>\<rparr>, True)
             else (ctx\<lparr>gc_aimd := aimd\<rparr>, False)
        else
          let aimd = aimd\<lparr>am_consecutive_high_loss_windows := 0\<rparr>
          in (ctx\<lparr>gc_aimd := (if lost * 100 > tot * 2
                then aimd\<lparr>am_state := GCC_RATE_CTRL_HOLD, am_last_recovery_probe_us := 0\<rparr> else aimd)\<rparr>, False))"

definition gcc_bwe_process_twcc_packet ::
    "'d fp \<Rightarrow> 'd gcc_bwe_context \<Rightarrow> gcc_packet_info \<Rightarrow> ('d gcc_bwe_context \<times> u32) option" where
  "gcc_bwe_process_twcc_packet fp ctx pkt = do {
     let ctx = (if pi_send_time_us pkt > gc_last_feedback_us ctx
       then ctx\<lparr>gc_last_feedback_us := pi_send_time_us pkt\<rparr> else ctx);
     let cg = gc_current_group ctx;
     if ag_packet_count cg > 0 \<and> pi_send_time_us pkt < ag_first_send_time_us cg
     then Some (ctx, am_current_bitrate_bps (gc_aimd ctx))
     else do {
       let ctx = ctx\<lparr>gc_aimd := update_ack_bitrate (gc_aimd ctx) pkt\<rparr>;
       if ag_packet_count cg = 0 \<or> pi_send_time_us pkt - ag_first_send_time_us cg \<le> 5000
       then
         let cg = (if ag_packet_count cg = 0
               then cg\<lparr>ag_first_send_time_us := pi_send_time_us pkt, ag_first_recv_time_us := pi_receive_time_us pkt\<rparr>
               else cg);
             cg = cg\<lparr>ag_last_send_time_us := pi_send_time_us pkt, ag_last_recv_time_us := pi_receive_time_us pkt,
               ag_total_size := ag_total_size cg + pi_size_bytes pkt, ag_packet_count := ag_packet_count cg + 1\<rparr>
         in Some (ctx\<lparr>gc_current_group := cg\<rparr>, am_current_bitrate_bps (gc_aimd ctx))
       else do {
         ctx \<leftarrow> (if ag_packet_count (gc_prev_group ctx) > 0
           then do {
             let delta_send_ms = fp_div fp (fp_int fp (ag_last_send_time_us cg -
               ag_last_send_time_us (gc_prev_group ctx))) (fp_lit fp 1000 1);
             let delta_recv_ms = fp_div fp (fp_int fp (ag_last_recv_time_us cg -
               ag_last_recv_time_us (gc_prev_group ctx))) (fp_lit fp 1000 1);
             let delay_variation_ms = fp_sub fp delta_recv_ms delta_send_ms;
             te \<leftarrow> update_trendline fp (gc_trendline ctx) delay_variation_ms (ag_last_recv_time_us cg);
             Some (ctx\<lparr>gc_trendline := te,
               gc_aimd := update_aimd fp (gc_aimd ctx) (te_usage_state te) (ag_last_recv_time_us cg)\<rparr>)
           }
           else Some ctx);
         let ctx = ctx\<lparr>gc_prev_group := cg,
           gc_current_group := \<lparr>ag_first_send_time_us = pi_send_time_us pkt,
             ag_last_send_time_us = pi_send_time_us pkt, ag_first_recv_time_us = pi_receive_time_us pkt,
             ag_last_recv_time_us = pi_receive_time_us pkt, ag_total_size = pi_size_bytes pkt,
             ag_packet_count = 1\<rparr>\<rparr>;
         Some (ctx, am_current_bitrate_bps (gc_aimd ctx))
       }
     }
   }"

definition gcc_bwe_is_overusing :: "'d gcc_bwe_context \<Rightarrow> bool" where
  "gcc_bwe_is_overusing ctx \<longleftrightarrow> te_usage_state (gc_trendline ctx) = GCC_BWE_OVERUSE"

definition gcc_bwe_get_usage :: "'d gcc_bwe_context \<Rightarrow> gcc_bwe_usage" where
  "gcc_bwe_get_usage ctx = te_usage_state (gc_trendline ctx)"

definition gcc_bwe_get_bitrate :: "'d gcc_bwe_context \<Rightarrow> u32" where
  "gcc_bwe_get_bitrate ctx = am_current_bitrate_bps (gc_aimd ctx)"

definition gcc_bwe_get_ack_bitrate :: "'d gcc_bwe_context \<Rightarrow> u32" where
  "gcc_bwe_get_ack_bitrate ctx =
     (if am_have_ack_bitrate (gc_aimd ctx) then am_ack_bitrate_bps (gc_aimd ctx) else 0)"

definition gcc_bwe_has_recent_feedback :: "'d gcc_bwe_context \<Rightarrow> int \<Rightarrow> int \<Rightarrow> bool" where
  "gcc_bwe_has_recent_feedback ctx now_us max_age_us =
     (if gc_last_feedback_us ctx = 0 then False
      else if now_us \<le> gc_last_feedback_us ctx then True
      else now_us - gc_last_feedback_us ctx \<le> max_age_us)"

definition gcc_bwe_record_feedback :: "'d gcc_bwe_context \<Rightarrow> int \<Rightarrow> 'd gcc_bwe_context" where
  "gcc_bwe_record_feedback ctx now_us =
     (if now_us > gc_last_feedback_us ctx then ctx\<lparr>gc_last_feedback_us := now_us\<rparr> else ctx)"

definition gcc_bwe_set_active_probing :: "'d gcc_bwe_context \<Rightarrow> bool \<Rightarrow> 'd gcc_bwe_context" where
  "gcc_bwe_set_active_probing ctx active =
     (let aimd = (gc_aimd ctx)\<lparr>am_active_probing := active\<rparr>
      in ctx\<lparr>gc_aimd := (if active then aimd\<lparr>am_last_recovery_probe_us := 0\<rparr> else aimd)\<rparr>)"

definition gcc_bwe_on_probe_cluster_completed ::
    "'d gcc_bwe_context \<Rightarrow> u32 \<Rightarrow> int \<Rightarrow> 'd gcc_bwe_context" where
  "gcc_bwe_on_probe_cluster_completed ctx probe_bitrate_bps now_us =
     (if probe_bitrate_bps = 0 then ctx
      else if te_usage_state (gc_trendline ctx) = GCC_BWE_OVERUSE then ctx
      else
        let aimd = gc_aimd ctx;
            aimd = (if probe_bitrate_bps > am_current_bitrate_bps aimd
              then
                let new_bps = min probe_bitrate_bps (am_max_bitrate_bps aimd);
                    new_bps = max new_bps (am_min_bitrate_bps aimd)
                in aimd\<lparr>am_current_bitrate_bps := new_bps\<rparr>
              else aimd);
            aimd = (if probe_bitrate_bps > am_ack_bitrate_bps aimd
              then aimd\<lparr>am_ack_bitrate_bps := probe_bitrate_bps, am_have_ack_bitrate := True\<rparr> else aimd);
            aimd = aimd\<lparr>am_last_increase_us := now_us, am_last_recovery_probe_us := now_us,
              am_last_active_probe_us := now_us\<rparr>
        in ctx\<lparr>gc_aimd := (if am_state aimd = GCC_RATE_CTRL_HOLD
              then aimd\<lparr>am_state := GCC_RATE_CTRL_INCREASE\<rparr> else aimd)\<rparr>)"

section \<open>The estimate stays within its bounds\<close>

definition aimd_inv :: "gcc_aimd_controller \<Rightarrow> bool" where
  "aimd_inv a \<longleftrightarrow> am_min_bitrate_bps a \<le> am_current_bitrate_bps a \<and>
     am_current_bitrate_bps a \<le> am_max_bitrate_bps a"

definition trendline_inv :: "'d gcc_trendline_estimator \<Rightarrow> bool" where
  "trendline_inv te \<longleftrightarrow> length (te_arrival_time_ms te) = GCC_TRENDLINE_WINDOW_SIZE \<and>
     length (te_smoothed_delay_history_ms te) = GCC_TRENDLINE_WINDOW_SIZE \<and>
     te_history_index te < GCC_TRENDLINE_WINDOW_SIZE \<and> te_history_count te \<le> GCC_TRENDLINE_WINDOW_SIZE"

definition gcc_inv :: "'d gcc_bwe_context \<Rightarrow> bool" where
  "gcc_inv ctx \<longleftrightarrow> aimd_inv (gc_aimd ctx) \<and> trendline_inv (gc_trendline ctx)"

lemma aimd_increase_frame:
  "am_min_bitrate_bps (aimd_increase fp a now) = am_min_bitrate_bps a"
  "am_max_bitrate_bps (aimd_increase fp a now) = am_max_bitrate_bps a"
  by (simp_all add: aimd_increase_def aimd_recovery_probe_def Let_def)

lemma aimd_react_frame:
  "am_min_bitrate_bps (aimd_react fp a usage now) = am_min_bitrate_bps a"
  "am_max_bitrate_bps (aimd_react fp a usage now) = am_max_bitrate_bps a"
  by (simp_all add: aimd_react_def Let_def aimd_increase_frame split: gcc_bwe_usage.split)

lemma update_aimd_inv: "aimd_inv a \<Longrightarrow> aimd_inv (update_aimd fp a usage now)"
  by (auto simp: update_aimd_def Let_def aimd_inv_def aimd_react_frame)

lemma update_ack_frame:
  "am_min_bitrate_bps (update_ack_bitrate a pkt) = am_min_bitrate_bps a"
  "am_max_bitrate_bps (update_ack_bitrate a pkt) = am_max_bitrate_bps a"
  "am_current_bitrate_bps (update_ack_bitrate a pkt) = am_current_bitrate_bps a"
  by (simp_all add: update_ack_bitrate_def Let_def)

lemma aimd_inv_ack [simp]: "aimd_inv (update_ack_bitrate a pkt) = aimd_inv a"
  by (simp add: aimd_inv_def update_ack_frame)

lemma detect_frame:
  "te_arrival_time_ms (trendline_detect fp te m now) = te_arrival_time_ms te"
  "te_smoothed_delay_history_ms (trendline_detect fp te m now) = te_smoothed_delay_history_ms te"
  "te_history_index (trendline_detect fp te m now) = te_history_index te"
  "te_history_count (trendline_detect fp te m now) = te_history_count te"
  by (simp_all add: trendline_detect_def Let_def)

lemma adapt_frame:
  "te_arrival_time_ms (trendline_adapt_threshold fp te m now) = te_arrival_time_ms te"
  "te_smoothed_delay_history_ms (trendline_adapt_threshold fp te m now) = te_smoothed_delay_history_ms te"
  "te_history_index (trendline_adapt_threshold fp te m now) = te_history_index te"
  "te_history_count (trendline_adapt_threshold fp te m now) = te_history_count te"
  by (simp_all add: trendline_adapt_threshold_def Let_def)

lemma update_trendline_ok:
  assumes "trendline_inv te"
  shows "ok (update_trendline fp te d t) trendline_inv"
  using assms
  by (simp add: update_trendline_def Let_def ok_simps trendline_inv_def detect_frame adapt_frame)

lemma process_ok:
  assumes "gcc_inv ctx"
  shows "ok (gcc_bwe_process_twcc_packet fp ctx pkt) (\<lambda>(ctx', r). gcc_inv ctx' \<and> r = gcc_bwe_get_bitrate ctx')"
proof -
  have te: "ok (update_trendline fp (gc_trendline ctx) d t) (\<lambda>te. gcc_inv (ctx\<lparr>gc_trendline := te\<rparr>))" for d t
    by (rule ok_mono [OF update_trendline_ok]) (use assms in \<open>simp_all add: gcc_inv_def\<close>)
  have aimd: "aimd_inv (gc_aimd ctx)" "trendline_inv (gc_trendline ctx)"
    using assms by (simp_all add: gcc_inv_def)
  show ?thesis
    unfolding gcc_bwe_process_twcc_packet_def Let_def
    by (auto simp: ok_simps gcc_inv_def gcc_bwe_get_bitrate_def aimd update_aimd_inv
        intro!: ok_mono [OF update_trendline_ok [OF aimd(2)]])
qed

lemma decrease_basis_le: "decrease_basis a * 85 div 100 < 4294967296"
proof -
  have "decrease_basis a < 4294967296"
    by (simp add: decrease_basis_def)
  then show ?thesis
    by linarith
qed

lemma report_loss_inv: "gcc_inv ctx \<Longrightarrow> gcc_inv (fst (gcc_bwe_report_loss ctx lost tot))"
proof -
  assume inv: "gcc_inv ctx"
  define a where "a = gc_aimd ctx"
  have "unat (am_min_bitrate_bps a) \<le> unat (am_max_bitrate_bps a)"
    using inv by (auto simp: gcc_inv_def aimd_inv_def a_def word_le_nat_alt)
  then have *: "am_min_bitrate_bps a \<le> of_nat m \<and> of_nat m \<le> am_max_bitrate_bps a"
    if "m = (if n < unat (am_min_bitrate_bps a) then unat (am_min_bitrate_bps a)
      else if n > unat (am_max_bitrate_bps a) then unat (am_max_bitrate_bps a) else n)"
      "n < 4294967296" for m n
    using that by (auto simp: word_le_nat_alt unat_of_nat_less)
  have db: "decrease_basis (a\<lparr>am_consecutive_high_loss_windows := x\<rparr>) = decrease_basis a" for x
    by (simp add: decrease_basis_def)
  define n where "n = decrease_basis a * 85 div 100"
  have "n < 4294967296"
    using decrease_basis_le [of a] by (simp only: n_def)
  define m where "m = (if n < unat (am_min_bitrate_bps a) then unat (am_min_bitrate_bps a)
      else if n > unat (am_max_bitrate_bps a) then unat (am_max_bitrate_bps a) else n)"
  note clamp = * [OF m_def \<open>n < 4294967296\<close>]
  show ?thesis
    unfolding gcc_bwe_report_loss_def Let_def a_def [symmetric] gcc_aimd_controller.simps db n_def [symmetric]
      m_def [symmetric]
    using inv clamp by (simp add: gcc_inv_def aimd_inv_def a_def [symmetric]) (auto simp: m_def split: if_splits)
qed

lemma probe_completed_inv: "gcc_inv ctx \<Longrightarrow> gcc_inv (gcc_bwe_on_probe_cluster_completed ctx bps now)"
  by (auto simp: gcc_bwe_on_probe_cluster_completed_def gcc_inv_def aimd_inv_def Let_def)

lemma small_ops_inv:
  "gcc_inv ctx \<Longrightarrow> gcc_inv (gcc_bwe_record_feedback ctx now)"
  "gcc_inv ctx \<Longrightarrow> gcc_inv (gcc_bwe_set_active_probing ctx b)"
  by (simp_all add: gcc_bwe_record_feedback_def gcc_bwe_set_active_probing_def gcc_inv_def aimd_inv_def Let_def)

lemma init_inv: "gcc_inv (gcc_bwe_init fp start lo hi)"
  by (auto simp: gcc_bwe_init_def gcc_inv_def aimd_inv_def trendline_inv_def Let_def)

text \<open>The bounds themselves are fixed by the initialisation: no operation changes them.\<close>

definition gcc_bounds :: "'d gcc_bwe_context \<Rightarrow> u32 \<times> u32" where
  "gcc_bounds ctx = (am_min_bitrate_bps (gc_aimd ctx), am_max_bitrate_bps (gc_aimd ctx))"

lemma update_aimd_frame:
  "am_min_bitrate_bps (update_aimd fp a usage now) = am_min_bitrate_bps a"
  "am_max_bitrate_bps (update_aimd fp a usage now) = am_max_bitrate_bps a"
  by (simp_all add: update_aimd_def Let_def aimd_react_frame)

lemma process_bounds:
  "gcc_bwe_process_twcc_packet fp ctx pkt = Some (ctx', bps) \<Longrightarrow> gcc_bounds ctx' = gcc_bounds ctx"
  by (auto simp: gcc_bwe_process_twcc_packet_def gcc_bounds_def Let_def update_ack_frame update_aimd_frame
      split: bind_splits if_splits)

lemma ops_bounds:
  "gcc_bounds (fst (gcc_bwe_report_loss ctx lost tot)) = gcc_bounds ctx"
  "gcc_bounds (gcc_bwe_record_feedback ctx now) = gcc_bounds ctx"
  "gcc_bounds (gcc_bwe_set_active_probing ctx active) = gcc_bounds ctx"
  "gcc_bounds (gcc_bwe_on_probe_cluster_completed ctx bps now) = gcc_bounds ctx"
  by (simp_all add: gcc_bounds_def gcc_bwe_report_loss_def gcc_bwe_record_feedback_def gcc_bwe_set_active_probing_def
      gcc_bwe_on_probe_cluster_completed_def Let_def)

lemma init_bounds:
  "0 < lo \<Longrightarrow> lo \<le> start \<Longrightarrow> start \<le> hi \<Longrightarrow> gcc_bounds (gcc_bwe_init fp start lo hi) = (lo, hi)"
  "\<not> (0 < lo \<and> lo \<le> start \<and> start \<le> hi) \<Longrightarrow> gcc_bounds (gcc_bwe_init fp start lo hi) = (50000, 5000000)"
  by (auto simp: gcc_bounds_def gcc_bwe_init_def Let_def word_gt_0 not_le not_less)

text \<open>Every operation of the estimator's interface.\<close>

inductive gcc_step :: "'d fp \<Rightarrow> 'd gcc_bwe_context \<Rightarrow> 'd gcc_bwe_context \<Rightarrow> bool" for fp where
  packet: "gcc_bwe_process_twcc_packet fp ctx pkt = Some (ctx', bps) \<Longrightarrow> gcc_step fp ctx ctx'"
| loss: "gcc_step fp ctx (fst (gcc_bwe_report_loss ctx lost tot))"
| feedback: "gcc_step fp ctx (gcc_bwe_record_feedback ctx now)"
| probing: "gcc_step fp ctx (gcc_bwe_set_active_probing ctx active)"
| probed: "gcc_step fp ctx (gcc_bwe_on_probe_cluster_completed ctx bps now)"

text \<open>Property C10. Whatever feedback arrives and whatever the floating-point unit computes, the
  estimate stays between the minimum and the maximum the estimator was configured with, or between
  50 kbit/s and 5 Mbit/s when that configuration is not consistent; the history ring is never indexed outside
  its arrays, and the next packet can be processed.\<close>

theorem gcc_bitrate_bounded:
  assumes "(gcc_step fp)\<^sup>*\<^sup>* (gcc_bwe_init fp start lo hi) ctx"
  shows "(if 0 < lo \<and> lo \<le> start \<and> start \<le> hi
      then lo \<le> gcc_bwe_get_bitrate ctx \<and> gcc_bwe_get_bitrate ctx \<le> hi
      else 50000 \<le> gcc_bwe_get_bitrate ctx \<and> gcc_bwe_get_bitrate ctx \<le> 5000000) \<and>
    trendline_inv (gc_trendline ctx) \<and>
    (\<exists>ctx' bps. gcc_bwe_process_twcc_packet fp ctx pkt = Some (ctx', bps) \<and> bps = gcc_bwe_get_bitrate ctx')"
proof -
  have step: "gcc_inv c' \<and> gcc_bounds c' = gcc_bounds c" if "gcc_step fp c c'" "gcc_inv c" for c c'
    using that by cases (auto simp: report_loss_inv small_ops_inv probe_completed_inv ops_bounds
        dest: process_ok ok_result process_bounds)
  from assms have inv: "gcc_inv ctx \<and> gcc_bounds ctx = gcc_bounds (gcc_bwe_init fp start lo hi)"
  proof (induction rule: rtranclp_induct)
    case base
    then show ?case
      by (simp add: init_inv)
  next
    case (step c c')
    then show ?case
      using \<open>\<And>c' c. gcc_step fp c c' \<Longrightarrow> gcc_inv c \<Longrightarrow> gcc_inv c' \<and> gcc_bounds c' = gcc_bounds c\<close> by metis
  qed
  have "fst (gcc_bounds ctx) \<le> gcc_bwe_get_bitrate ctx" "gcc_bwe_get_bitrate ctx \<le> snd (gcc_bounds ctx)"
    using conjunct1 [OF inv] by (simp_all add: gcc_inv_def aimd_inv_def gcc_bounds_def gcc_bwe_get_bitrate_def)
  then have "if 0 < lo \<and> lo \<le> start \<and> start \<le> hi
      then lo \<le> gcc_bwe_get_bitrate ctx \<and> gcc_bwe_get_bitrate ctx \<le> hi
      else 50000 \<le> gcc_bwe_get_bitrate ctx \<and> gcc_bwe_get_bitrate ctx \<le> 5000000"
    using inv init_bounds [of lo start hi fp] by (cases "0 < lo \<and> lo \<le> start \<and> start \<le> hi") auto
  then show ?thesis
    using inv process_ok [of ctx fp pkt] by (auto simp: gcc_inv_def elim!: okE)
qed

text \<open>Property C29. On overuse the controller goes to 85 percent of the smaller of the estimate and
  the acknowledged rate, but not below the minimum, and does not increase until another
  group of packets has arrived.\<close>

theorem gcc_overuse_backs_off:
  assumes "aimd_inv a"
  shows "unat (am_current_bitrate_bps (update_aimd fp a GCC_BWE_OVERUSE now)) =
      max (unat (am_min_bitrate_bps a))
        ((if am_have_ack_bitrate a then min (unat (am_ack_bitrate_bps a)) (unat (am_current_bitrate_bps a))
          else unat (am_current_bitrate_bps a)) * 85 div 100) \<and>
    am_current_bitrate_bps (update_aimd fp a GCC_BWE_OVERUSE now) \<le> am_current_bitrate_bps a \<and>
    am_current_bitrate_bps (update_aimd fp (update_aimd fp a GCC_BWE_OVERUSE now) GCC_BWE_NORMAL later) =
      am_current_bitrate_bps (update_aimd fp a GCC_BWE_OVERUSE now)"
proof -
  define n where "n = decrease_basis a * 85 div 100"
  have n: "n < 4294967296"
    using decrease_basis_le [of a] by (simp only: n_def)
  have "decrease_basis a \<le> unat (am_current_bitrate_bps a)"
    by (auto simp: decrease_basis_def word_less_nat_alt)
  then have le: "n \<le> unat (am_current_bitrate_bps a)"
    unfolding n_def by linarith
  have "min n UINT32_MAX = n"
    using n by simp
  then have react: "aimd_react fp a GCC_BWE_OVERUSE now = a\<lparr>am_current_bitrate_bps := of_nat n,
      am_state := GCC_RATE_CTRL_DECREASE, am_last_recovery_probe_us := 0\<rparr>"
    by (simp add: aimd_react_def n_def)
  have u: "unat (of_nat n :: u32) = n"
    using n by (simp add: unat_of_nat_less)
  have bounds: "unat (am_min_bitrate_bps a) \<le> unat (am_current_bitrate_bps a)"
    "unat (am_current_bitrate_bps a) \<le> unat (am_max_bitrate_bps a)"
    using assms by (simp_all add: aimd_inv_def word_le_nat_alt)
  define b where "b = update_aimd fp a GCC_BWE_OVERUSE now"
  have b: "b = a\<lparr>am_current_bitrate_bps := max (am_min_bitrate_bps a) (of_nat n),
      am_state := GCC_RATE_CTRL_DECREASE, am_last_recovery_probe_us := 0\<rparr>"
    using le bounds u unfolding b_def update_aimd_def Let_def react
    by (auto simp: word_less_nat_alt word_le_nat_alt max_def)
  have rate: "unat (am_current_bitrate_bps b) = max (unat (am_min_bitrate_bps a)) n"
    using u by (simp add: b max_def word_le_nat_alt)
  have "aimd_inv b"
    using update_aimd_inv [OF assms] by (simp add: b_def)
  then have "am_current_bitrate_bps (update_aimd fp b GCC_BWE_NORMAL later) = am_current_bitrate_bps b"
    by (simp add: update_aimd_def aimd_react_def Let_def aimd_inv_def) (auto simp: b max_def)
  moreover have "n = (if am_have_ack_bitrate a then min (unat (am_ack_bitrate_bps a)) (unat (am_current_bitrate_bps a))
      else unat (am_current_bitrate_bps a)) * 85 div 100"
    by (auto simp: n_def decrease_basis_def word_less_nat_alt min_def)
  ultimately show ?thesis
    using rate le bounds by (simp only: b_def [symmetric] word_le_nat_alt) simp
qed

text \<open>Rational arithmetic as an instance of the floating-point operations.\<close>

definition rat_fp :: "rat fp" where
  "rat_fp = \<lparr>fp_int = of_int, fp_lit = (\<lambda>n d. of_int n / of_int d), fp_add = (+), fp_sub = (-), fp_mul = (*),
     fp_div = (/), fp_neg = uminus, fp_abs = abs, fp_less = (<), fp_le = (\<le>), fp_eq = (=),
     fp_u64 = (\<lambda>x. nat \<lfloor>x\<rfloor>)\<rparr>"

text \<open>A probe result above the configured maximum of 2 Mbit/s, and then a packet.\<close>

theorem gcc_bitrate_bounded_witness:
  "\<exists>ctx1 ctx2 bps. ctx1 = gcc_bwe_on_probe_cluster_completed (gcc_bwe_init rat_fp 300000 100000 2000000) 9000000 7 \<and>
     gcc_bwe_get_bitrate ctx1 = 2000000 \<and>
     gcc_bwe_process_twcc_packet rat_fp ctx1 \<lparr>pi_sequence_number = 1, pi_send_time_us = 10, pi_receive_time_us = 20,
       pi_size_bytes = 1200\<rparr> = Some (ctx2, bps) \<and>
     100000 \<le> gcc_bwe_get_bitrate ctx2 \<and> gcc_bwe_get_bitrate ctx2 \<le> 2000000"
proof -
  define ctx0 where "ctx0 = gcc_bwe_init rat_fp 300000 100000 2000000"
  define ctx1 where "ctx1 = gcc_bwe_on_probe_cluster_completed ctx0 9000000 7"
  define pkt where "pkt = \<lparr>pi_sequence_number = (1 :: u16), pi_send_time_us = 10, pi_receive_time_us = 20, pi_size_bytes = (1200 :: u32)\<rparr>"
  have run: "(gcc_step rat_fp)\<^sup>*\<^sup>* ctx0 ctx1"
    unfolding ctx1_def by (rule r_into_rtranclp) (rule gcc_step.probed)
  then obtain ctx2 bps where p: "gcc_bwe_process_twcc_packet rat_fp ctx1 pkt = Some (ctx2, bps)"
    using gcc_bitrate_bounded [of rat_fp 300000 100000 2000000 ctx1 pkt] unfolding ctx0_def by blast
  have "(gcc_step rat_fp)\<^sup>*\<^sup>* ctx0 ctx2"
    by (rule rtranclp.rtrancl_into_rtrancl [OF run gcc_step.packet [OF p]])
  from gcc_bitrate_bounded [OF this [unfolded ctx0_def], of pkt]
  have "100000 \<le> gcc_bwe_get_bitrate ctx2 \<and> gcc_bwe_get_bitrate ctx2 \<le> 2000000"
    by simp
  moreover have "gcc_bwe_get_bitrate ctx1 = 2000000"
    by (simp add: ctx1_def ctx0_def gcc_bwe_init_def gcc_bwe_on_probe_cluster_completed_def gcc_bwe_get_bitrate_def Let_def)
  ultimately show ?thesis
    using p unfolding ctx1_def ctx0_def pkt_def by blast
qed

text \<open>An estimate of 300 kbit/s of which 200 kbit/s were acknowledged.\<close>

theorem gcc_overuse_backs_off_witness:
  "unat (am_current_bitrate_bps (update_aimd rat_fp ((gc_aimd (gcc_bwe_init rat_fp 300000 50000 5000000))
     \<lparr>am_ack_bitrate_bps := 200000, am_have_ack_bitrate := True\<rparr>) GCC_BWE_OVERUSE 7)) = 170000"
proof -
  define a where "a = (gc_aimd (gcc_bwe_init rat_fp 300000 50000 5000000))
     \<lparr>am_ack_bitrate_bps := 200000, am_have_ack_bitrate := True\<rparr>"
  have "aimd_inv a" "unat (am_min_bitrate_bps a) = 50000" "unat (am_ack_bitrate_bps a) = 200000"
      "unat (am_current_bitrate_bps a) = 300000" "am_have_ack_bitrate a"
    by (simp_all add: a_def aimd_inv_def gcc_bwe_init_def Let_def)
  then show ?thesis
    using gcc_overuse_backs_off [of a rat_fp 7] unfolding a_def [symmetric] by simp
qed

end
