(* ===== verification/Ring_Buffer.thy ===== *)
theory Ring_Buffer
  imports SFU_Interfaces
begin

text \<open>
  Circular buffers: the items an array holds from a head index on, with the lemmas the
  queues of the program share, and the lock-free single-producer single-consumer ring of
  \<^verbatim>\<open>src/src/util/ringbuffer.c\<close>.  The ring is modelled at the granularity of its accesses to
  shared memory: a step relation interleaves the loads and stores of the producer with those
  of the consumer, in any order, with 32-bit counters that wrap.
\<close>

section \<open>Items of a circular buffer\<close>

definition ring :: "'a list \<Rightarrow> nat \<Rightarrow> nat \<Rightarrow> 'a list" where
  "ring es h n = map (\<lambda>i. es ! ((h + i) mod length es)) [0..<n]"

lemma ring_0 [simp]: "ring es h 0 = []"
  by (simp add: ring_def)

lemma length_ring [simp]: "length (ring es h n) = n"
  by (simp add: ring_def)

lemma nth_ring [simp]: "i < n \<Longrightarrow> ring es h n ! i = es ! ((h + i) mod length es)"
  by (simp add: ring_def)

lemma mod_add_inj: "i < m \<Longrightarrow> j < m \<Longrightarrow> (h + i) mod m = (h + j) mod m \<longleftrightarrow> i = j" for m :: nat
proof
  assume m: "i < m" "j < m" and eq: "(h + i) mod m = (h + j) mod m"
  have *: "i' = j'" if "(h + i') mod m = (h + j') mod m" "i' \<le> j'" "j' < m" for i' j'
  proof -
    have "m dvd (h + j') - (h + i')"
      using that by (metis add_le_cancel_left mod_eq_dvd_iff_nat)
    then show ?thesis
      using that by (auto dest: dvd_imp_le)
  qed
  show "i = j"
    using * [of i j] * [of j i] m eq by (cases "i \<le> j") auto
qed simp

lemma mod_below: "i < m \<Longrightarrow> k mod m < m" for m :: nat
  by (rule mod_less_divisor) simp

lemma ring_push:
  "n < length es \<Longrightarrow> ring (es[(h + n) mod length es := x]) h (n + 1) = ring es h n @ [x]"
  by (rule nth_equalityI) (auto simp: nth_append nth_list_update mod_add_inj less_Suc_eq One_nat_def mod_below)

lemma ring_pop: "0 < n \<Longrightarrow> h < length es \<Longrightarrow> ring es h n = es ! h # ring es ((h + 1) mod length es) (n - 1)"
proof (rule nth_equalityI)
  fix i
  assume "0 < n" "h < length es" "i < length (ring es h n)"
  moreover have "((h + 1) mod length es + (i - 1)) mod length es = (h + i) mod length es" if "0 < i"
    using that by (subst mod_add_left_eq) simp
  ultimately show "ring es h n ! i = (es ! h # ring es ((h + 1) mod length es) (n - 1)) ! i"
    by (auto simp: nth_Cons')
qed auto

lemma ring_unpush: "ring es h (n + 1) = ring es h n @ [es ! ((h + n) mod length es)]"
  by (simp add: ring_def One_nat_def)

lemma ring_upd:
  "i < n \<Longrightarrow> n \<le> length es \<Longrightarrow> ring (es[(h + i) mod length es := x]) h n = (ring es h n)[i := x]"
proof (rule nth_equalityI)
  fix j
  assume "i < n" "n \<le> length es" "j < length (ring (es[(h + i) mod length es := x]) h n)"
  moreover from this have "(h + j) mod length es < length es"
    by (intro mod_below [of j]) simp
  ultimately show "ring (es[(h + i) mod length es := x]) h n ! j = (ring es h n)[i := x] ! j"
    by (auto simp: nth_list_update mod_add_inj)
qed simp

lemma ring_upd_other:
  "n \<le> i \<Longrightarrow> i < length es \<Longrightarrow> ring (es[(h + i) mod length es := x]) h n = ring es h n"
  by (rule nth_equalityI) (auto simp: nth_list_update mod_add_inj)

lemma ring_head [simp]: "0 < n \<Longrightarrow> h < length es \<Longrightarrow> hd (ring es h n) = es ! h"
  by (simp add: ring_pop)

lemma ring_slot: "i < n \<Longrightarrow> es \<noteq> [] \<Longrightarrow> (h + i) mod length es < length es"
  by simp

section \<open>The single-producer single-consumer ring\<close>

record 'a sfu_spsc_ring =
  ring_slots :: "'a option list"
  ring_capacity :: u32
  ring_mask :: u32
  ring_head :: u32
  ring_tail :: u32
  ring_high_water :: u32
  ring_push_failures :: u64

text \<open>A slot is \<open>None\<close> until it is written (\<^verbatim>\<open>calloc\<close>).  \<open>alloc_ok\<close> says whether the allocation
  succeeds.\<close>

definition sfu_spsc_ring_init :: "bool \<Rightarrow> u32 \<Rightarrow> 'a sfu_spsc_ring option" where
  "sfu_spsc_ring_init alloc_ok capacity_pow2 =
     (if capacity_pow2 = 0 \<or> capacity_pow2 AND (capacity_pow2 - 1) \<noteq> 0 then None
      else if \<not> alloc_ok then None
      else Some \<lparr>ring_slots = replicate (unat capacity_pow2) None, ring_capacity = capacity_pow2,
        ring_mask = capacity_pow2 - 1, ring_head = 0, ring_tail = 0, ring_high_water = 0, ring_push_failures = 0\<rparr>)"

definition sfu_spsc_ring_destroy :: "'a sfu_spsc_ring \<Rightarrow> 'a sfu_spsc_ring" where
  "sfu_spsc_ring_destroy r = r\<lparr>ring_slots := []\<rparr>"

definition sfu_spsc_ring_size :: "'a sfu_spsc_ring \<Rightarrow> u32" where
  "sfu_spsc_ring_size r = (ring_tail r - ring_head r) AND ring_mask r"

text \<open>Where each side is between two accesses to the shared ring, with the values it has
  loaded so far.\<close>

datatype 'a push_pc =
    Push_Idle
  | Push_Tail 'a u32
  | Push_Head 'a u32 u32
  | Push_Stored 'a u32 u32
  | Push_Marked 'a u32

datatype 'a pop_pc =
    Pop_Idle
  | Pop_Head u32
  | Pop_Tail u32 u32
  | Pop_Read 'a u32

text \<open>One access of the producer inside \<^verbatim>\<open>sfu_spsc_ring_push\<close>; the last component is the
  result of the call, with the item pushed, when the access ends it.  The compare-and-exchange loop on \<^verbatim>\<open>high_water\<close> is one access:
  the producer is its only writer.\<close>

fun sfu_spsc_ring_push ::
    "'a sfu_spsc_ring \<Rightarrow> 'a push_pc \<Rightarrow> ('a sfu_spsc_ring \<times> 'a push_pc \<times> 'a ret option) option" where
  "sfu_spsc_ring_push r (Push_Tail item tail) = Some (r, Push_Head item tail (ring_head r), None)"
| "sfu_spsc_ring_push r (Push_Head item tail head) =
     (if tail - head \<ge> ring_capacity r
      then Some (r\<lparr>ring_push_failures := ring_push_failures r + 1\<rparr>, Push_Idle, Some Reject)
      else do {
        sl \<leftarrow> aset (ring_slots r) (unat (tail AND ring_mask r)) (Some item);
        Some (r\<lparr>ring_slots := sl\<rparr>, Push_Stored item tail head, None)
      })"
| "sfu_spsc_ring_push r (Push_Stored item tail head) =
     (let depth = tail - head + 1
      in Some (if depth > ring_high_water r then r\<lparr>ring_high_water := depth\<rparr> else r, Push_Marked item tail, None))"
| "sfu_spsc_ring_push r (Push_Marked item tail) = Some (r\<lparr>ring_tail := tail + 1\<rparr>, Push_Idle, Some (Accept item))"
| "sfu_spsc_ring_push r Push_Idle = None"

text \<open>One access of the consumer inside \<^verbatim>\<open>sfu_spsc_ring_pop\<close>; reading a slot that was never
  written is \<open>None\<close>.\<close>

fun sfu_spsc_ring_pop ::
    "'a sfu_spsc_ring \<Rightarrow> 'a pop_pc \<Rightarrow> ('a sfu_spsc_ring \<times> 'a pop_pc \<times> 'a ret option) option" where
  "sfu_spsc_ring_pop r (Pop_Head head) = Some (r, Pop_Tail head (ring_tail r), None)"
| "sfu_spsc_ring_pop r (Pop_Tail head tail) =
     (if head = tail then Some (r, Pop_Idle, Some Reject)
      else do {
        sl \<leftarrow> aget (ring_slots r) (unat (head AND ring_mask r));
        item \<leftarrow> sl;
        Some (r, Pop_Read item head, None)
      })"
| "sfu_spsc_ring_pop r (Pop_Read item head) = Some (r\<lparr>ring_head := head + 1\<rparr>, Pop_Idle, Some (Accept item))"
| "sfu_spsc_ring_pop r Pop_Idle = None"

text \<open>A run: the ring, both sides, and the items pushed and popped so far.  A call of the
  producer starts by loading \<^verbatim>\<open>tail\<close>, a call of the consumer by loading \<^verbatim>\<open>head\<close>.\<close>

record 'a spsc_run =
  shared :: "'a sfu_spsc_ring"
  producer :: "'a push_pc"
  consumer :: "'a pop_pc"
  pushed :: "'a list"
  popped :: "'a list"

inductive spsc_step :: "'a spsc_run \<Rightarrow> 'a spsc_run \<Rightarrow> bool" where
  push_call: "producer s = Push_Idle \<Longrightarrow>
    spsc_step s (s\<lparr>producer := Push_Tail x (ring_tail (shared s))\<rparr>)"
| push_access: "producer s \<noteq> Push_Idle \<Longrightarrow> sfu_spsc_ring_push (shared s) (producer s) = Some (r, pc, res) \<Longrightarrow>
    spsc_step s (s\<lparr>shared := r, producer := pc,
      pushed := (case res of Some (Accept x) \<Rightarrow> pushed s @ [x] | _ \<Rightarrow> pushed s)\<rparr>)"
| pop_call: "consumer s = Pop_Idle \<Longrightarrow> spsc_step s (s\<lparr>consumer := Pop_Head (ring_head (shared s))\<rparr>)"
| pop_access: "consumer s \<noteq> Pop_Idle \<Longrightarrow> sfu_spsc_ring_pop (shared s) (consumer s) = Some (r, pc, res) \<Longrightarrow>
    spsc_step s (s\<lparr>shared := r, consumer := pc,
      popped := (case res of Some (Accept x) \<Rightarrow> popped s @ [x] | _ \<Rightarrow> popped s)\<rparr>)"

definition spsc_start :: "'a sfu_spsc_ring \<Rightarrow> 'a spsc_run" where
  "spsc_start r = \<lparr>shared = r, producer = Push_Idle, consumer = Pop_Idle,
     pushed = [], popped = []\<rparr>"

section \<open>No interleaving loses, duplicates or reorders an item\<close>

fun push_pc_inv :: "nat \<Rightarrow> 'a option list \<Rightarrow> nat \<Rightarrow> nat \<Rightarrow> 'a push_pc \<Rightarrow> bool" where
  "push_pc_inv c sl m n Push_Idle \<longleftrightarrow> True"
| "push_pc_inv c sl m n (Push_Tail x t) \<longleftrightarrow> t = of_nat n"
| "push_pc_inv c sl m n (Push_Head x t h) \<longleftrightarrow>
     t = of_nat n \<and> (\<exists>h'. h = of_nat h' \<and> h' \<le> m \<and> n \<le> h' + c)"
| "push_pc_inv c sl m n (Push_Stored x t h) \<longleftrightarrow>
     t = of_nat n \<and> n < m + c \<and> sl ! (n mod c) = Some x"
| "push_pc_inv c sl m n (Push_Marked x t) \<longleftrightarrow> t = of_nat n \<and> n < m + c \<and> sl ! (n mod c) = Some x"

fun pop_pc_inv :: "'a list \<Rightarrow> nat \<Rightarrow> 'a pop_pc \<Rightarrow> bool" where
  "pop_pc_inv ps m Pop_Idle \<longleftrightarrow> True"
| "pop_pc_inv ps m (Pop_Head h) \<longleftrightarrow> h = of_nat m"
| "pop_pc_inv ps m (Pop_Tail h t) \<longleftrightarrow>
     h = of_nat m \<and> (\<exists>t'. t = of_nat t' \<and> m \<le> t' \<and> t' \<le> length ps)"
| "pop_pc_inv ps m (Pop_Read x h) \<longleftrightarrow> h = of_nat m \<and> m < length ps \<and> x = ps ! m"

definition ring_geometry :: "nat \<Rightarrow> 'a sfu_spsc_ring \<Rightarrow> bool" where
  "ring_geometry c r \<longleftrightarrow> (\<exists>k < 32. c = 2 ^ k \<and> ring_mask r = mask k) \<and> ring_capacity r = of_nat c \<and>
     length (ring_slots r) = c"

definition spsc_inv :: "nat \<Rightarrow> 'a spsc_run \<Rightarrow> bool" where
  "spsc_inv c s \<longleftrightarrow>
     (let r = shared s; m = length (popped s); n = length (pushed s)
      in ring_geometry c r \<and> ring_head r = of_nat m \<and> ring_tail r = of_nat n \<and> m \<le> n \<and> n \<le> m + c \<and>
         popped s = take m (pushed s) \<and>
         (\<forall>j. m \<le> j \<longrightarrow> j < n \<longrightarrow> ring_slots r ! (j mod c) = Some (pushed s ! j)) \<and>
         push_pc_inv c (ring_slots r) m n (producer s) \<and> pop_pc_inv (pushed s) m (consumer s))"

lemma of_nat_diff_u32: "m \<le> n \<Longrightarrow> (of_nat n :: u32) - of_nat m = of_nat (n - m)"
  by (simp add: of_nat_diff)

lemma geometry_size: "ring_geometry c r \<Longrightarrow> 0 < c \<and> c < 4294967296"
  using power_strict_increasing [of _ 32 "2 :: nat"] by (auto simp: ring_geometry_def)

lemma geometry_index:
  assumes "ring_geometry c r"
  shows "unat ((of_nat j :: u32) AND ring_mask r) = j mod c"
proof -
  obtain k where k: "k < 32" "c = 2 ^ k" "ring_mask r = mask k"
    using assms by (auto simp: ring_geometry_def)
  have "(2 :: nat) ^ k dvd 2 ^ 32"
    using k(1) by (intro le_imp_power_dvd) simp
  then have "j mod 2 ^ 32 mod 2 ^ k = j mod 2 ^ k"
    by (rule mod_mod_cancel)
  then show ?thesis
    by (simp add: k unat_mask unsigned_of_nat take_bit_eq_mod)
qed

lemma unat_diff_u32:
  assumes "m \<le> n" "n \<le> m + c" "c < 4294967296"
  shows "unat ((of_nat n :: u32) - of_nat m) = n - m"
  unfolding of_nat_diff_u32 [OF assms(1)] by (rule unat_of_nat_less) (use assms in simp)

lemma counters_full:
  assumes "ring_geometry c r" "m \<le> n" "n \<le> m + c"
  shows "ring_capacity r \<le> (of_nat n :: u32) - of_nat m \<longleftrightarrow> m + c \<le> n"
proof -
  have "c < 4294967296" "ring_capacity r = of_nat c"
    using assms(1) geometry_size [OF assms(1)] by (auto simp: ring_geometry_def)
  then have "unat (ring_capacity r) = c" "unat ((of_nat n :: u32) - of_nat m) = n - m"
    using unat_diff_u32 [OF assms(2,3)] by (simp_all add: unat_of_nat_less)
  then show ?thesis
    unfolding word_le_nat_alt using assms(2) by auto
qed

lemma counters_equal:
  assumes "m \<le> n" "n \<le> m + c" "c < 4294967296"
  shows "(of_nat m :: u32) = of_nat n \<longleftrightarrow> m = n"
proof
  assume "(of_nat m :: u32) = of_nat n"
  then have "unat ((of_nat n :: u32) - of_nat m) = 0"
    by simp
  then show "m = n"
    using unat_diff_u32 [OF assms] assms(1) by simp
qed simp

lemma mod_slot_other: "m \<le> j \<Longrightarrow> j < n \<Longrightarrow> n < m + c \<Longrightarrow> j mod c \<noteq> n mod (c :: nat)"
proof
  assume *: "m \<le> j" "j < n" "n < m + c" "j mod c = n mod c"
  then have "c dvd n - j"
    by (metis less_imp_le mod_eq_dvd_iff_nat)
  then show False
    using * by (auto dest: dvd_imp_le)
qed

lemma power_of_two_u32:
  fixes x :: u32
  assumes "x \<noteq> 0" "x AND (x - 1) = 0"
  shows "\<exists>k < 32. unat x = 2 ^ k"
proof -
  have pos: "1 \<le> unat x"
    using assms(1) by (simp add: Suc_le_eq One_nat_def unat_gt_0)
  then obtain k where k: "2 ^ k \<le> unat x" "unat x < 2 ^ (k + 1)"
    using ex_power_ivl1 [of 2 "unat x"] by auto
  have bit: "bit y k" if "2 ^ k \<le> unat y" "unat y < 2 ^ (k + 1)" for y :: u32
  proof -
    have "unat y div 2 ^ k = 1"
      using that by (intro div_nat_eqI) (simp_all add: One_nat_def)
    then have "bit (unat y) k"
      by (simp add: bit_iff_odd)
    then show ?thesis
      by (simp add: bit_unsigned_iff)
  qed
  have "unat x = 2 ^ k"
  proof (rule ccontr)
    assume "unat x \<noteq> 2 ^ k"
    then have "2 ^ k \<le> unat (x - 1)" "unat (x - 1) < 2 ^ (k + 1)"
      using k assms(1) by (simp_all add: unat_minus_one)
    then have "bit (x AND (x - 1)) k"
      using bit [OF k] bit by (simp add: bit_and_iff)
    then show False
      using assms(2) by simp
  qed
  moreover have "k < 32"
  proof (rule ccontr)
    assume "\<not> k < 32"
    then have "(2 :: nat) ^ 32 \<le> 2 ^ k"
      by (intro power_increasing) simp_all
    then show False
      using k(1) unat_u32_less [of x] by simp
  qed
  ultimately show ?thesis
    by blast
qed

lemma init_run:
  assumes "sfu_spsc_ring_init alloc_ok capacity_pow2 = Some r"
  shows "spsc_inv (unat capacity_pow2) (spsc_start r)"
proof -
  have "capacity_pow2 \<noteq> 0" "capacity_pow2 AND (capacity_pow2 - 1) = 0"
    using assms by (auto simp: sfu_spsc_ring_init_def split: if_splits)
  then obtain k where k: "k < 32" "unat capacity_pow2 = 2 ^ k"
    using power_of_two_u32 by blast
  have "capacity_pow2 = of_nat (unat capacity_pow2)"
    by simp
  then have "capacity_pow2 = 2 ^ k"
    by (simp only: k(2) of_nat_power of_nat_numeral)
  then have "capacity_pow2 - 1 = mask k"
    by (simp add: mask_eq_exp_minus_1)
  then show ?thesis
    using assms k \<open>capacity_pow2 = 2 ^ k\<close>
    by (auto simp: sfu_spsc_ring_init_def spsc_inv_def spsc_start_def ring_geometry_def split: if_splits)
qed

lemma push_access_inv:
  assumes "spsc_inv c s" "producer s \<noteq> Push_Idle"
  shows "ok (sfu_spsc_ring_push (shared s) (producer s)) (\<lambda>(r, pc, res).
    spsc_inv c (s\<lparr>shared := r, producer := pc,
      pushed := (case res of Some (Accept x) \<Rightarrow> pushed s @ [x] | _ \<Rightarrow> pushed s)\<rparr>))"
proof (cases "producer s")
  case Push_Idle
  then show ?thesis
    using assms by simp
next
  case (Push_Tail x t)
  then show ?thesis
    using assms by (auto simp: spsc_inv_def Let_def ok_simps)
next
  case (Push_Head x t h)
  define m n sl where "m = length (popped s)" and "n = length (pushed s)" and "sl = ring_slots (shared s)"
  note defs = m_def n_def sl_def
  obtain h' where *: "t = of_nat n" "h = of_nat h'" "h' \<le> m" "n \<le> h' + c" "m \<le> n"
      "ring_geometry c (shared s)" "length sl = c"
    using assms Push_Head by (auto simp: spsc_inv_def Let_def ring_geometry_def defs)
  show ?thesis
  proof (cases "ring_capacity (shared s) \<le> t - h")
    case True
    then show ?thesis
      using assms Push_Head by (auto simp: spsc_inv_def Let_def ok_simps ring_geometry_def)
  next
    case False
    then have less: "n < m + c"
      using counters_full [OF *(6), of h' n] * by simp
    have idx: "unat (t AND ring_mask (shared s)) = n mod c" "n mod c < length sl"
      using geometry_index [OF *(6), of n] geometry_size [OF *(6)] *(1,7) by simp_all
    have "sl[n mod c := Some x] ! (j mod c) = sl ! (j mod c)" if "m \<le> j" "j < n" for j
      using mod_slot_other [OF that less] by simp
    then show ?thesis
      using assms(1) Push_Head False idx less *(1)
      by (auto simp: spsc_inv_def Let_def ok_simps ring_geometry_def simp flip: defs)
  qed
next
  case (Push_Stored x t h)
  then show ?thesis
    using assms by (auto simp: spsc_inv_def Let_def ok_simps ring_geometry_def)
next
  case (Push_Marked x t)
  then show ?thesis
    using assms
    by (cases "consumer s") (auto simp: spsc_inv_def Let_def ok_simps ring_geometry_def nth_append less_Suc_eq One_nat_def)
qed

lemma pop_access_inv:
  assumes "spsc_inv c s" "consumer s \<noteq> Pop_Idle"
  shows "ok (sfu_spsc_ring_pop (shared s) (consumer s)) (\<lambda>(r, pc, res).
    spsc_inv c (s\<lparr>shared := r, consumer := pc,
      popped := (case res of Some (Accept x) \<Rightarrow> popped s @ [x] | _ \<Rightarrow> popped s)\<rparr>))"
proof (cases "consumer s")
  case Pop_Idle
  then show ?thesis
    using assms by simp
next
  case (Pop_Head h)
  then show ?thesis
    using assms by (auto simp: spsc_inv_def Let_def ok_simps)
next
  case (Pop_Tail h t)
  define m n where "m = length (popped s)" and "n = length (pushed s)"
  obtain t' where *: "h = of_nat m" "t = of_nat t'" "m \<le> t'" "t' \<le> n" "n \<le> m + c"
      "ring_geometry c (shared s)" "length (ring_slots (shared s)) = c"
    using assms Pop_Tail by (auto simp: spsc_inv_def Let_def ring_geometry_def m_def n_def)
  have idx: "unat (h AND ring_mask (shared s)) = m mod c" "m mod c < c"
    using geometry_index [OF *(6), of m] geometry_size [OF *(6)] *(1) by simp_all
  have "h = t \<longleftrightarrow> m = t'"
    using counters_equal [of m t' c] * geometry_size [OF *(6)] by simp
  moreover have "ring_slots (shared s) ! (m mod c) = Some (pushed s ! m)" if "m < n"
    using assms(1) that by (simp add: spsc_inv_def Let_def m_def n_def)
  ultimately show ?thesis
    using assms(1) Pop_Tail idx *
    by (auto simp: spsc_inv_def Let_def ok_simps ring_geometry_def simp flip: m_def n_def)
next
  case (Pop_Read x h)
  then show ?thesis
    using assms
    by (cases "producer s")
      (auto simp: spsc_inv_def Let_def ok_simps ring_geometry_def take_Suc_conv_app_nth One_nat_def)
qed

lemma spsc_step_inv: "spsc_step s s' \<Longrightarrow> spsc_inv c s \<Longrightarrow> spsc_inv c s'"
proof (induction rule: spsc_step.induct)
  case (push_access s r pc res)
  then show ?case
    using ok_result [OF push_access_inv] by fastforce
next
  case (pop_access s r pc res)
  then show ?case
    using ok_result [OF pop_access_inv] by fastforce
qed (auto simp: spsc_inv_def Let_def)

lemma spsc_reachable:
  assumes "sfu_spsc_ring_init alloc_ok capacity_pow2 = Some r" "spsc_step\<^sup>*\<^sup>* (spsc_start r) s"
  shows "spsc_inv (unat capacity_pow2) s"
  using assms(2) by induction (auto intro: init_run [OF assms(1)] spsc_step_inv)

text \<open>Property C1.  Whatever way the loads and stores of one producer and one consumer interleave,
  and however often the 32-bit counters wrap: the items popped are a prefix of the items pushed
  (none lost, duplicated or reordered), at most \<^verbatim>\<open>capacity\<close> items are in flight, and no access is
  outside the slots or reads a slot that was not written.\<close>

theorem spsc_ring_fifo:
  assumes "sfu_spsc_ring_init alloc_ok capacity_pow2 = Some r" "spsc_step\<^sup>*\<^sup>* (spsc_start r) s"
  shows "popped s = take (length (popped s)) (pushed s) \<and>
    length (popped s) \<le> length (pushed s) \<and> length (pushed s) \<le> length (popped s) + unat capacity_pow2 \<and>
    (producer s \<noteq> Push_Idle \<longrightarrow> sfu_spsc_ring_push (shared s) (producer s) \<noteq> None) \<and>
    (consumer s \<noteq> Pop_Idle \<longrightarrow> sfu_spsc_ring_pop (shared s) (consumer s) \<noteq> None)"
proof -
  note inv = spsc_reachable [OF assms]
  have "sfu_spsc_ring_push (shared s) (producer s) \<noteq> None" if "producer s \<noteq> Push_Idle"
    using push_access_inv [OF inv that] by (auto simp: ok_def)
  moreover have "sfu_spsc_ring_pop (shared s) (consumer s) \<noteq> None" if "consumer s \<noteq> Pop_Idle"
    using pop_access_inv [OF inv that] by (auto simp: ok_def)
  ultimately show ?thesis
    using inv unfolding spsc_inv_def Let_def by blast
qed

text \<open>Property C34.  \<^verbatim>\<open>sfu_spsc_ring_size\<close> is the number of items in flight modulo the capacity: it
  reports 0 exactly when the ring is empty or full, so a caller that reads 0 as ``nothing
  pending'' never serves a full ring.\<close>

theorem spsc_size_modulo:
  assumes "sfu_spsc_ring_init alloc_ok capacity_pow2 = Some r" "spsc_step\<^sup>*\<^sup>* (spsc_start r) s"
  shows "unat (sfu_spsc_ring_size (shared s)) =
      (length (pushed s) - length (popped s)) mod unat capacity_pow2 \<and>
    (sfu_spsc_ring_size (shared s) = 0 \<longleftrightarrow>
      length (pushed s) = length (popped s) \<or> length (pushed s) = length (popped s) + unat capacity_pow2)"
proof -
  define m n c where "m = length (popped s)" and "n = length (pushed s)" and "c = unat capacity_pow2"
  have *: "ring_geometry c (shared s)" "ring_head (shared s) = of_nat m" "ring_tail (shared s) = of_nat n"
      "m \<le> n" "n \<le> m + c"
    using spsc_reachable [OF assms] by (simp_all add: spsc_inv_def Let_def m_def n_def c_def)
  have size: "unat (sfu_spsc_ring_size (shared s)) = (n - m) mod c"
    unfolding sfu_spsc_ring_size_def *(2,3) of_nat_diff_u32 [OF *(4)] by (rule geometry_index [OF *(1)])
  moreover have "(n - m) mod c = 0 \<longleftrightarrow> n = m \<or> n = m + c"
    using *(4,5) by (cases "n = m + c") (auto simp: mod_less)
  moreover have "sfu_spsc_ring_size (shared s) = 0 \<longleftrightarrow> unat (sfu_spsc_ring_size (shared s)) = 0"
    by (simp add: unsigned_eq_0_iff)
  ultimately show ?thesis
    unfolding m_def n_def c_def by metis
qed

section \<open>Witnesses\<close>

text \<open>A schedule run step by step.\<close>

datatype 'a spsc_op = Call_Push 'a | Access_Push | Call_Pop | Access_Pop

fun spsc_exec :: "'a spsc_run \<Rightarrow> 'a spsc_op \<Rightarrow> 'a spsc_run option" where
  "spsc_exec s (Call_Push x) =
     (case producer s of Push_Idle \<Rightarrow> Some (s\<lparr>producer := Push_Tail x (ring_tail (shared s))\<rparr>) | _ \<Rightarrow> None)"
| "spsc_exec s Access_Push = do {
     (r, pc, res) \<leftarrow> sfu_spsc_ring_push (shared s) (producer s);
     Some (s\<lparr>shared := r, producer := pc,
       pushed := (case res of Some (Accept x) \<Rightarrow> pushed s @ [x] | _ \<Rightarrow> pushed s)\<rparr>)
   }"
| "spsc_exec s Call_Pop =
     (case consumer s of Pop_Idle \<Rightarrow> Some (s\<lparr>consumer := Pop_Head (ring_head (shared s))\<rparr>) | _ \<Rightarrow> None)"
| "spsc_exec s Access_Pop = do {
     (r, pc, res) \<leftarrow> sfu_spsc_ring_pop (shared s) (consumer s);
     Some (s\<lparr>shared := r, consumer := pc,
       popped := (case res of Some (Accept x) \<Rightarrow> popped s @ [x] | _ \<Rightarrow> popped s)\<rparr>)
   }"

lemma spsc_exec_step: "spsc_exec s op = Some s' \<Longrightarrow> spsc_step s s'"
proof (cases op)
  case Access_Push
  assume "spsc_exec s op = Some s'"
  then obtain r pc res where *: "sfu_spsc_ring_push (shared s) (producer s) = Some (r, pc, res)"
      "s' = s\<lparr>shared := r, producer := pc,
        pushed := (case res of Some (Accept x) \<Rightarrow> pushed s @ [x] | _ \<Rightarrow> pushed s)\<rparr>"
    using Access_Push by (auto split: bind_splits)
  have "producer s \<noteq> Push_Idle"
    using *(1) by auto
  then show ?thesis
    unfolding *(2) by (rule spsc_step.push_access [OF _ *(1)])
next
  case Access_Pop
  assume "spsc_exec s op = Some s'"
  then obtain r pc res where *: "sfu_spsc_ring_pop (shared s) (consumer s) = Some (r, pc, res)"
      "s' = s\<lparr>shared := r, consumer := pc,
        popped := (case res of Some (Accept x) \<Rightarrow> popped s @ [x] | _ \<Rightarrow> popped s)\<rparr>"
    using Access_Pop by (auto split: bind_splits)
  have "consumer s \<noteq> Pop_Idle"
    using *(1) by auto
  then show ?thesis
    unfolding *(2) by (rule spsc_step.pop_access [OF _ *(1)])
qed (auto split: push_pc.splits pop_pc.splits intro: spsc_step.intros)

lemma spsc_exec_steps: "foldM spsc_exec s ops = Some s' \<Longrightarrow> spsc_step\<^sup>*\<^sup>* s s'"
proof (induction ops arbitrary: s)
  case (Cons op ops)
  then show ?case
    by (auto split: bind_splits intro: converse_rtranclp_into_rtranclp spsc_exec_step)
qed simp

text \<open>A ring of two slots: both filled, a pop overlaps the second push, and a last push finds the
  slot of the first item free again.\<close>

definition ring2 :: "nat sfu_spsc_ring" where
  "ring2 = the (sfu_spsc_ring_init True 2)"

definition ring2_ops :: "nat spsc_op list" where
  "ring2_ops = [Call_Push 7, Access_Push, Access_Push, Access_Push, Access_Push,
     Call_Push 8, Access_Push, Call_Pop, Access_Push, Access_Pop, Access_Push, Access_Pop, Access_Push,
     Access_Pop, Call_Push 9, Access_Push, Access_Push, Access_Push, Access_Push]"

definition ring2_run :: "nat spsc_run" where
  "ring2_run = the (foldM spsc_exec (spsc_start ring2) ring2_ops)"

lemma ring2_init: "sfu_spsc_ring_init True 2 = Some ring2"
  by code_simp

lemma ring2_reach: "spsc_step\<^sup>*\<^sup>* (spsc_start ring2) ring2_run"
proof (rule spsc_exec_steps)
  show "foldM spsc_exec (spsc_start ring2) ring2_ops = Some ring2_run"
    by code_simp
qed

theorem spsc_ring_fifo_witness:
  "pushed ring2_run = [7, 8, 9] \<and> popped ring2_run = take 1 (pushed ring2_run)"
proof -
  have "popped ring2_run = take (length (popped ring2_run)) (pushed ring2_run)"
    using spsc_ring_fifo [OF ring2_init ring2_reach] by blast
  moreover have "pushed ring2_run = [7, 8, 9] \<and> length (popped ring2_run) = 1"
    by code_simp
  ultimately show ?thesis
    by simp
qed

theorem spsc_size_modulo_witness:
  "length (pushed ring2_run) = length (popped ring2_run) + 2 \<and> sfu_spsc_ring_size (shared ring2_run) = 0"
proof -
  have "length (pushed ring2_run) = length (popped ring2_run) + 2"
    by code_simp
  then show ?thesis
    using spsc_size_modulo [OF ring2_init ring2_reach] by simp
qed

end
