(* ===== verification/Pacer.thy ===== *)
theory Pacer
  imports SFU_Prelude
begin

text \<open>
  The egress pacer: a byte bucket for media with reservations and a separate budget for
  retransmissions (\<^verbatim>\<open>src/src/congestion/pacer.c\<close>).  The \<^verbatim>\<open>int64_t\<close> fields are integers; the
  32-bit rates keep their width, since \<^verbatim>\<open>set_rate\<close> truncates to them.
\<close>

section \<open>State\<close>

abbreviation SFU_PACER_CLASS_AUDIO :: u8 where "SFU_PACER_CLASS_AUDIO \<equiv> 0"
abbreviation SFU_PACER_CLASS_RTX :: u8 where "SFU_PACER_CLASS_RTX \<equiv> 1"
abbreviation SFU_PACER_CLASS_VIDEO_BASE :: u8 where "SFU_PACER_CLASS_VIDEO_BASE \<equiv> 2"
abbreviation SFU_PACER_CLASS_VIDEO_TRANSITION :: u8 where "SFU_PACER_CLASS_VIDEO_TRANSITION \<equiv> 3"
abbreviation SFU_PACER_CLASS_VIDEO_ENH :: u8 where "SFU_PACER_CLASS_VIDEO_ENH \<equiv> 4"
abbreviation SFU_PACER_CLASS_COUNT :: u8 where "SFU_PACER_CLASS_COUNT \<equiv> 5"

abbreviation SFU_PACER_BURST_US :: int where "SFU_PACER_BURST_US \<equiv> 10000"
abbreviation SFU_PACER_MIN_BUCKET_BYTES :: int where "SFU_PACER_MIN_BUCKET_BYTES \<equiv> 1500"

record sfu_pacer =
  sent :: "u64 list"
  balance_bytes :: int
  bucket_cap_bytes :: int
  reserved_bytes :: int
  last_refill_us :: int
  dropped_enh :: u64
  rtx_dropped_budget :: u64
  rtx_budget_bytes :: int
  rtx_budget_cap_bytes :: int
  rtx_last_refill_us :: int
  pacing_bps :: u32
  rtx_budget_bps :: u32
  pacer_active :: bool

record sfu_pacer_reservation =
  res_bytes :: u32
  res_class :: u8
  res_charged :: bool
  res_active :: bool

section \<open>Operations\<close>

definition sfu_pacer_class_droppable :: "u8 \<Rightarrow> bool" where
  "sfu_pacer_class_droppable cls \<longleftrightarrow> cls = SFU_PACER_CLASS_VIDEO_ENH"

definition sfu_pacer_init :: sfu_pacer where
  "sfu_pacer_init = \<lparr>sent = replicate 5 0, balance_bytes = 0, bucket_cap_bytes = 0, reserved_bytes = 0,
     last_refill_us = 0, dropped_enh = 0, rtx_dropped_budget = 0, rtx_budget_bytes = 0,
     rtx_budget_cap_bytes = 0, rtx_last_refill_us = 0, pacing_bps = 0, rtx_budget_bps = 0,
     pacer_active = False\<rparr>"

definition sfu_pacer_set_rate :: "sfu_pacer \<Rightarrow> u32 \<Rightarrow> int \<Rightarrow> sfu_pacer" where
  "sfu_pacer_set_rate p bps now_us =
     (if bps = 0 then p\<lparr>pacer_active := False, pacing_bps := 0\<rparr>
      else
        let paced = unat bps * 5 div 2;
            cap = int paced div 8 * SFU_PACER_BURST_US div 1000000;
            cap = (if cap < SFU_PACER_MIN_BUCKET_BYTES then SFU_PACER_MIN_BUCKET_BYTES else cap);
            rtx_bps = of_nat (paced div 4) :: u32;
            rtx_cap = uint rtx_bps div 8 * SFU_PACER_BURST_US div 1000000;
            rtx_cap = (if rtx_cap < SFU_PACER_MIN_BUCKET_BYTES then SFU_PACER_MIN_BUCKET_BYTES else rtx_cap);
            p = p\<lparr>pacing_bps := of_nat paced, bucket_cap_bytes := cap, rtx_budget_bps := rtx_bps,
              rtx_budget_cap_bytes := rtx_cap\<rparr>
        in if \<not> pacer_active p
           then p\<lparr>balance_bytes := cap, last_refill_us := now_us, rtx_budget_bytes := rtx_cap,
             rtx_last_refill_us := now_us, pacer_active := True\<rparr>
           else p\<lparr>balance_bytes := (if balance_bytes p > cap then cap else balance_bytes p),
             rtx_budget_bytes := (if rtx_budget_bytes p > rtx_cap then rtx_cap else rtx_budget_bytes p)\<rparr>)"

definition sfu_pacer_refill :: "sfu_pacer \<Rightarrow> int \<Rightarrow> sfu_pacer" where
  "sfu_pacer_refill p now_us =
     (if last_refill_us p = 0 \<or> now_us \<le> last_refill_us p
      then if last_refill_us p = 0 then p\<lparr>last_refill_us := now_us\<rparr> else p
      else
        let elapsed_us = now_us - last_refill_us p;
            p = p\<lparr>last_refill_us := now_us\<rparr>;
            tokens = uint (pacing_bps p) div 8 * elapsed_us div 1000000
        in if tokens \<le> 0 then p
           else let p = p\<lparr>balance_bytes := balance_bytes p + tokens\<rparr>
                in if balance_bytes p > bucket_cap_bytes p
                   then p\<lparr>balance_bytes := bucket_cap_bytes p\<rparr> else p)"

definition sfu_pacer_debt_after :: "sfu_pacer \<Rightarrow> u32 \<Rightarrow> int \<Rightarrow> int" where
  "sfu_pacer_debt_after p bytes now_us =
     (if \<not> pacer_active p then 0
      else let after = balance_bytes (sfu_pacer_refill p now_us) - uint bytes
           in if after < 0 then - after else 0)"

definition sfu_pacer_reserve ::
    "sfu_pacer \<Rightarrow> u8 \<Rightarrow> u32 \<Rightarrow> bool \<Rightarrow> int \<Rightarrow> sfu_pacer_reservation \<Rightarrow>
     sfu_pacer \<times> sfu_pacer_reservation \<times> bool" where
  "sfu_pacer_reserve p cls bytes allow_congestion_drop now_us reservation =
     (if cls \<ge> SFU_PACER_CLASS_COUNT \<or> res_active reservation then (p, reservation, False)
      else
        let charged = (cls \<noteq> SFU_PACER_CLASS_AUDIO \<and> pacer_active p);
            grant = reservation\<lparr>res_bytes := bytes, res_class := cls, res_charged := charged,
              res_active := True\<rparr>
        in if charged
           then
             let p = sfu_pacer_refill p now_us;
                 after = balance_bytes p - reserved_bytes p - uint bytes;
                 is_transition_or_base =
                   (cls = SFU_PACER_CLASS_VIDEO_BASE \<or> cls = SFU_PACER_CLASS_VIDEO_TRANSITION)
             in if after < 0 \<and> allow_congestion_drop \<and> sfu_pacer_class_droppable cls \<and>
                   \<not> is_transition_or_base \<and> - after > bucket_cap_bytes p
                then (p\<lparr>dropped_enh := dropped_enh p + 1\<rparr>, reservation, False)
                else (p\<lparr>reserved_bytes := reserved_bytes p + uint bytes\<rparr>, grant, True)
           else (p, grant, True))"

definition sfu_pacer_commit ::
    "sfu_pacer \<Rightarrow> sfu_pacer_reservation \<Rightarrow> sfu_pacer \<times> sfu_pacer_reservation" where
  "sfu_pacer_commit p reservation =
     (if \<not> res_active reservation then (p, reservation)
      else
        let cls = res_class reservation;
            p = (if res_charged reservation
                 then p\<lparr>reserved_bytes := reserved_bytes p - uint (res_bytes reservation),
                   balance_bytes := balance_bytes p - uint (res_bytes reservation)\<rparr>
                 else p);
            p = (if cls < SFU_PACER_CLASS_COUNT
                 then p\<lparr>sent := (sent p)[unat cls := sent p ! unat cls + 1]\<rparr> else p)
        in (p, reservation\<lparr>res_active := False\<rparr>))"

definition sfu_pacer_cancel ::
    "sfu_pacer \<Rightarrow> sfu_pacer_reservation \<Rightarrow> sfu_pacer \<times> sfu_pacer_reservation" where
  "sfu_pacer_cancel p reservation =
     (if \<not> res_active reservation then (p, reservation)
      else
        let p = (if res_charged reservation
                 then p\<lparr>reserved_bytes := reserved_bytes p - uint (res_bytes reservation)\<rparr>
                 else p)
        in (p, reservation\<lparr>res_active := False\<rparr>))"

definition reservation_zero :: sfu_pacer_reservation where
  "reservation_zero = \<lparr>res_bytes = 0, res_class = 0, res_charged = False, res_active = False\<rparr>"

definition sfu_pacer_should_send :: "sfu_pacer \<Rightarrow> u8 \<Rightarrow> u32 \<Rightarrow> bool \<Rightarrow> int \<Rightarrow> sfu_pacer \<times> bool" where
  "sfu_pacer_should_send p cls bytes allow_congestion_drop now_us =
     (let (p, reservation, granted) =
        sfu_pacer_reserve p cls bytes allow_congestion_drop now_us reservation_zero
      in if granted then (fst (sfu_pacer_commit p reservation), True) else (p, False))"

definition rtx_refill :: "sfu_pacer \<Rightarrow> int \<Rightarrow> sfu_pacer" where
  "rtx_refill p now_us =
     (if rtx_last_refill_us p = 0 then p\<lparr>rtx_last_refill_us := now_us\<rparr>
      else if now_us > rtx_last_refill_us p
      then let elapsed_us = now_us - rtx_last_refill_us p;
               p = p\<lparr>rtx_last_refill_us := now_us\<rparr>;
               tokens = uint (rtx_budget_bps p) div 8 * elapsed_us div 1000000
           in if tokens > 0
              then let p = p\<lparr>rtx_budget_bytes := rtx_budget_bytes p + tokens\<rparr>
                   in if rtx_budget_bytes p > rtx_budget_cap_bytes p
                      then p\<lparr>rtx_budget_bytes := rtx_budget_cap_bytes p\<rparr> else p
              else p
      else p)"

definition sfu_pacer_rtx_allow :: "sfu_pacer \<Rightarrow> u32 \<Rightarrow> int \<Rightarrow> sfu_pacer \<times> bool" where
  "sfu_pacer_rtx_allow p bytes now_us =
     (if \<not> pacer_active p then (p, True)
      else let p = rtx_refill p now_us
           in if uint bytes > rtx_budget_bytes p
              then (p\<lparr>rtx_dropped_budget := rtx_dropped_budget p + 1\<rparr>, False)
              else (p\<lparr>rtx_budget_bytes := rtx_budget_bytes p - uint bytes\<rparr>, True))"

definition sfu_pacer_rtx_refund :: "sfu_pacer \<Rightarrow> u32 \<Rightarrow> sfu_pacer" where
  "sfu_pacer_rtx_refund p bytes =
     (if \<not> pacer_active p \<or> bytes = 0 then p
      else let p = p\<lparr>rtx_budget_bytes := rtx_budget_bytes p + uint bytes\<rparr>
           in if rtx_budget_bytes p > rtx_budget_cap_bytes p
              then p\<lparr>rtx_budget_bytes := rtx_budget_cap_bytes p\<rparr> else p)"

section \<open>Reservations are conserved\<close>

definition pacer_inv :: "sfu_pacer \<Rightarrow> bool" where
  "pacer_inv p \<longleftrightarrow> length (sent p) = 5 \<and>
     (pacer_active p \<longrightarrow> SFU_PACER_MIN_BUCKET_BYTES \<le> bucket_cap_bytes p \<and>
        SFU_PACER_MIN_BUCKET_BYTES \<le> rtx_budget_cap_bytes p \<and>
        balance_bytes p \<le> bucket_cap_bytes p \<and>
        0 \<le> rtx_budget_bytes p \<and> rtx_budget_bytes p \<le> rtx_budget_cap_bytes p)"

definition charge :: "sfu_pacer_reservation \<Rightarrow> int" where
  "charge r = (if res_active r \<and> res_charged r then uint (res_bytes r) else 0)"

text \<open>The pacer of a session with the reservations its callers hold, and every operation
  a caller may perform on them, in any order.\<close>

inductive pacer_step ::
    "sfu_pacer \<times> sfu_pacer_reservation list \<Rightarrow> sfu_pacer \<times> sfu_pacer_reservation list \<Rightarrow> bool" where
  rate: "pacer_step (p, rs) (sfu_pacer_set_rate p bps now, rs)"
| fresh: "pacer_step (p, rs) (p, rs @ [reservation_zero])"
| reserve: "i < length rs \<Longrightarrow> sfu_pacer_reserve p cls bytes drop_ok now (rs ! i) = (p', r, granted) \<Longrightarrow>
    pacer_step (p, rs) (p', rs[i := r])"
| commit: "i < length rs \<Longrightarrow> sfu_pacer_commit p (rs ! i) = (p', r) \<Longrightarrow> pacer_step (p, rs) (p', rs[i := r])"
| cancel: "i < length rs \<Longrightarrow> sfu_pacer_cancel p (rs ! i) = (p', r) \<Longrightarrow> pacer_step (p, rs) (p', rs[i := r])"
| send: "pacer_step (p, rs) (fst (sfu_pacer_should_send p cls bytes drop_ok now), rs)"
| allow: "pacer_step (p, rs) (fst (sfu_pacer_rtx_allow p bytes now), rs)"
| refund: "pacer_step (p, rs) (sfu_pacer_rtx_refund p bytes, rs)"

definition pacer_conserved :: "sfu_pacer \<times> sfu_pacer_reservation list \<Rightarrow> bool" where
  "pacer_conserved = (\<lambda>(p, rs). pacer_inv p \<and> reserved_bytes p = sum_list (map charge rs))"

lemma sum_list_upd: "i < length xs \<Longrightarrow> sum_list (xs[i := v]) = sum_list xs - xs ! i + (v :: int)"
proof (induction xs arbitrary: i)
  case (Cons x xs)
  then show ?case
    by (cases i) auto
qed simp

lemma uint_div_mult [simp]: "0 \<le> uint (r :: u32) div k * c div d" if "0 \<le> k" "0 \<le> c" "0 \<le> d" for k c d :: int
  using that by (simp add: pos_imp_zdiv_nonneg_iff div_int_pos_iff)

lemma pacer_inv_set_rate [simp]: "pacer_inv p \<Longrightarrow> pacer_inv (sfu_pacer_set_rate p bps now)"
proof (cases "bps = 0")
  case False
  define c r where "c = int (unat bps * 5 div 2) div 8 * SFU_PACER_BURST_US div 1000000"
    and "r = uint (of_nat (unat bps * 5 div 2 div 4) :: u32) div 8 * SFU_PACER_BURST_US div 1000000"
  define cap rcap where "cap = (if c < SFU_PACER_MIN_BUCKET_BYTES then SFU_PACER_MIN_BUCKET_BYTES else c)"
    and "rcap = (if r < SFU_PACER_MIN_BUCKET_BYTES then SFU_PACER_MIN_BUCKET_BYTES else r)"
  have "1500 \<le> cap" "1500 \<le> rcap"
    by (simp_all add: cap_def rcap_def)
  then show ?thesis if "pacer_inv p"
    unfolding sfu_pacer_set_rate_def Let_def c_def [symmetric] r_def [symmetric] cap_def [symmetric]
      rcap_def [symmetric]
    using False that by (simp add: pacer_inv_def)
qed (simp add: pacer_inv_def sfu_pacer_set_rate_def)

lemma reserved_set_rate [simp]: "reserved_bytes (sfu_pacer_set_rate p bps now) = reserved_bytes p"
  by (simp add: sfu_pacer_set_rate_def Let_def)

lemma refill_simps [simp]:
  "reserved_bytes (sfu_pacer_refill p now) = reserved_bytes p"
  "sent (sfu_pacer_refill p now) = sent p"
  "pacer_active (sfu_pacer_refill p now) = pacer_active p"
  "bucket_cap_bytes (sfu_pacer_refill p now) = bucket_cap_bytes p"
  "dropped_enh (sfu_pacer_refill p now) = dropped_enh p"
  by (simp_all add: sfu_pacer_refill_def Let_def)

lemma pacer_inv_refill [simp]: "pacer_inv p \<Longrightarrow> pacer_inv (sfu_pacer_refill p now)"
  by (auto simp: pacer_inv_def sfu_pacer_refill_def Let_def)

lemma rtx_refill_simps [simp]:
  "reserved_bytes (rtx_refill p now) = reserved_bytes p"
  "pacer_active (rtx_refill p now) = pacer_active p"
  by (simp_all add: rtx_refill_def Let_def)

lemma pacer_inv_rtx_refill [simp]: "pacer_inv p \<Longrightarrow> pacer_inv (rtx_refill p now)"
  by (auto simp: pacer_inv_def rtx_refill_def Let_def)

lemma minus_uint_le [simp]: "a \<le> b \<Longrightarrow> a - uint (x :: u32) \<le> b"
  using uint_ge_0 [of x] by linarith

lemma charge_zero [simp]: "charge reservation_zero = 0"
  by (simp add: charge_def reservation_zero_def)

lemma pacer_inv_rtx:
  assumes "pacer_inv p"
  shows "pacer_inv (fst (sfu_pacer_rtx_allow p bytes now))" "pacer_inv (sfu_pacer_rtx_refund p bytes)"
    "reserved_bytes (fst (sfu_pacer_rtx_allow p bytes now)) = reserved_bytes p"
    "reserved_bytes (sfu_pacer_rtx_refund p bytes) = reserved_bytes p"
  using assms pacer_inv_rtx_refill [OF assms, of now]
  by (auto simp: sfu_pacer_rtx_allow_def sfu_pacer_rtx_refund_def Let_def pacer_inv_def
      intro: order_trans)

lemma reserve_charge:
  assumes "sfu_pacer_reserve p cls bytes drop_ok now r = (p', r', granted)"
  shows "reserved_bytes p' = reserved_bytes p - charge r + charge r'"
    and "pacer_inv p \<Longrightarrow> pacer_inv p'"
    and "granted \<longleftrightarrow> res_active r' \<and> \<not> res_active r" "\<not> granted \<Longrightarrow> r' = r"
    and "granted \<Longrightarrow> res_bytes r' = bytes \<and> res_class r' = cls \<and> cls < SFU_PACER_CLASS_COUNT"
  subgoal using assms by (auto simp: sfu_pacer_reserve_def Let_def charge_def split: if_splits)
  subgoal using assms pacer_inv_refill [of p now]
    by (auto simp: sfu_pacer_reserve_def Let_def pacer_inv_def split: if_splits)
  subgoal using assms by (auto simp: sfu_pacer_reserve_def Let_def split: if_splits)
  subgoal using assms by (auto simp: sfu_pacer_reserve_def Let_def split: if_splits)
  subgoal using assms by (auto simp: sfu_pacer_reserve_def Let_def split: if_splits)
  done

lemma settle_charge:
  shows "sfu_pacer_commit p r = (p', r') \<Longrightarrow> reserved_bytes p' = reserved_bytes p - charge r + charge r' \<and>
      (pacer_inv p \<longrightarrow> pacer_inv p')"
    and "sfu_pacer_cancel p r = (p', r') \<Longrightarrow> reserved_bytes p' = reserved_bytes p - charge r + charge r' \<and>
      (pacer_inv p \<longrightarrow> pacer_inv p')"
  by (auto simp: sfu_pacer_commit_def sfu_pacer_cancel_def Let_def charge_def pacer_inv_def
      split: if_splits intro: order_trans)

lemma should_send_charge:
  "reserved_bytes (fst (sfu_pacer_should_send p cls bytes drop_ok now)) = reserved_bytes p \<and>
   (pacer_inv p \<longrightarrow> pacer_inv (fst (sfu_pacer_should_send p cls bytes drop_ok now)))"
proof -
  obtain q r g where reserve: "sfu_pacer_reserve p cls bytes drop_ok now reservation_zero = (q, r, g)"
    by (rule prod_cases3)
  obtain q' r' where commit: "sfu_pacer_commit q r = (q', r')"
    by (cases "sfu_pacer_commit q r")
  have "charge r' = 0"
    using commit by (auto simp: sfu_pacer_commit_def Let_def charge_def split: if_splits)
  then show ?thesis
    using reserve_charge(1,2,4) [OF reserve] settle_charge(1) [OF commit] commit reserve
    by (cases g) (simp_all add: sfu_pacer_should_send_def)
qed

text \<open>Property C6. Whatever the callers do and in whatever order, the bytes the pacer holds as
  reserved are exactly those of the charged reservations still open, the media balance
  never exceeds the bucket, and the retransmission budget stays between zero and its cap.\<close>

theorem pacer_conserves:
  assumes "pacer_step\<^sup>*\<^sup>* (sfu_pacer_init, []) (p, rs)"
  shows "pacer_inv p \<and> reserved_bytes p = (\<Sum>r\<leftarrow>rs. charge r)"
proof -
  have step: "pacer_conserved t" if "pacer_step s t" "pacer_conserved s" for s t
    using that
    by (cases rule: pacer_step.cases)
      (auto simp: pacer_conserved_def map_update sum_list_upd pacer_inv_rtx should_send_charge dest: reserve_charge settle_charge)
  have "pacer_conserved (sfu_pacer_init, [])"
    by (simp add: pacer_conserved_def pacer_inv_def sfu_pacer_init_def)
  with assms have "pacer_conserved (p, rs)"
    by (induction rule: rtranclp_induct) (blast intro: step)+
  then show ?thesis
    by (simp add: pacer_conserved_def)
qed

theorem pacer_conserves_witness:
  "\<exists>p rs. pacer_step\<^sup>*\<^sup>* (sfu_pacer_init, []) (p, rs) \<and> reserved_bytes p = 1200 \<and>
     pacer_inv p \<and> reserved_bytes p = (\<Sum>r\<leftarrow>rs. charge r)"
proof -
  define p1 where "p1 = sfu_pacer_set_rate sfu_pacer_init 1000000 1"
  obtain p2 r g where r: "sfu_pacer_reserve p1 2 1200 False 1 reservation_zero = (p2, r, g)"
    by (rule prod_cases3)
  have "pacer_step (sfu_pacer_init, []) (p1, [])" "pacer_step (p1, []) (p1, [reservation_zero])"
    "pacer_step (p1, [reservation_zero]) (p2, [r])"
    using pacer_step.rate [of sfu_pacer_init "[]" 1000000 1] pacer_step.fresh [of p1 "[]"]
      pacer_step.reserve [of 0 "[reservation_zero]" p1 2 1200 False 1 p2 r g] r
    by (simp_all add: p1_def)
  then have "pacer_step\<^sup>*\<^sup>* (sfu_pacer_init, []) (p2, [r])"
    by (meson rtranclp.rtrancl_into_rtrancl rtranclp.rtrancl_refl)
  moreover have "reserved_bytes p2 = 1200"
    using r by (auto simp: p1_def sfu_pacer_set_rate_def sfu_pacer_init_def sfu_pacer_reserve_def
        sfu_pacer_refill_def reservation_zero_def Let_def)
  ultimately show ?thesis
    using pacer_conserves by blast
qed

section \<open>The retransmission budget bounds the rate\<close>

text \<open>The bytes granted to a series of retransmission requests.\<close>

fun rtx_granted :: "sfu_pacer \<Rightarrow> (u32 \<times> int) list \<Rightarrow> int" where
  "rtx_granted p [] = 0"
| "rtx_granted p ((bytes, now) # reqs) =
     (let (p, allowed) = sfu_pacer_rtx_allow p bytes now
      in (if allowed then uint bytes else 0) + rtx_granted p reqs)"

lemma floor_superadd: "a div d + b div d \<le> (a + b) div d" if "0 < d" for a b d :: int
proof -
  have "(a div d + b div d) * d \<le> a + b"
    using add_nonneg_nonneg [OF pos_mod_sign [OF that, of a] pos_mod_sign [OF that, of b]]
    by (simp add: distrib_right minus_mod_eq_div_mult [symmetric])
  then show ?thesis
    using that by (simp add: zdiv_mono1 [of "(a div d + b div d) * d" "a + b" d, simplified])
qed

lemma rtx_refill_gain:
  assumes "rtx_last_refill_us p \<noteq> 0"
  shows "rtx_budget_bytes (rtx_refill p now) \<le> rtx_budget_bytes p +
      uint (rtx_budget_bps p) div 8 * (max (rtx_last_refill_us p) now - rtx_last_refill_us p) div 1000000"
    and "rtx_last_refill_us (rtx_refill p now) = max (rtx_last_refill_us p) now"
    and "rtx_budget_bps (rtx_refill p now) = rtx_budget_bps p"
  using assms by (simp_all add: rtx_refill_def Let_def max_def)

lemma rtx_allow_step:
  assumes "rtx_last_refill_us p \<noteq> 0" "pacer_active p" "sfu_pacer_rtx_allow p bytes now = (p', allowed)"
  shows "(if allowed then uint bytes else 0) + rtx_budget_bytes p' \<le> rtx_budget_bytes p +
      uint (rtx_budget_bps p) div 8 * (max (rtx_last_refill_us p) now - rtx_last_refill_us p) div 1000000"
    and "rtx_last_refill_us p' = max (rtx_last_refill_us p) now"
    and "rtx_budget_bps p' = rtx_budget_bps p" "pacer_active p'"
  using rtx_refill_gain [OF assms(1), of now] assms(2,3)
  by (auto simp: sfu_pacer_rtx_allow_def Let_def split: if_splits)

text \<open>Property C28. However retransmissions are requested, up to any time the bytes granted are
  at most the budget at the start plus what the configured rate adds by then.\<close>

theorem rtx_budget_bounds_rate:
  assumes "pacer_inv p" "pacer_active p" "0 < rtx_last_refill_us p"
    and "\<forall>(bytes, now) \<in> set reqs. now \<le> t" "rtx_last_refill_us p \<le> t"
  shows "rtx_granted p reqs \<le> rtx_budget_bytes p +
    uint (rtx_budget_bps p) div 8 * (t - rtx_last_refill_us p) div 1000000"
  using assms
proof (induction reqs arbitrary: p)
  case Nil
  then show ?case
    by (auto simp: pacer_inv_def intro!: add_nonneg_nonneg)
next
  case (Cons req reqs)
  obtain bytes now where req: "req = (bytes, now)"
    by (cases req)
  obtain p' allowed where allow: "sfu_pacer_rtx_allow p bytes now = (p', allowed)"
    by (cases "sfu_pacer_rtx_allow p bytes now")
  let ?r = "uint (rtx_budget_bps p) div 8" and ?l = "rtx_last_refill_us p"
  have ne: "?l \<noteq> 0"
    using Cons.prems by simp
  note step = rtx_allow_step [OF ne Cons.prems(2) allow]
  have t: "now \<le> t"
    using Cons.prems req by simp
  have "pacer_inv p'"
    using pacer_inv_rtx(1) [OF Cons.prems(1), of bytes now] allow by simp
  then have "rtx_granted p' reqs \<le> rtx_budget_bytes p' + ?r * (t - max ?l now) div 1000000"
    using Cons.IH [of p'] Cons.prems step t by simp
  moreover have "?r * (max ?l now - ?l) div 1000000 + ?r * (t - max ?l now) div 1000000 \<le>
      ?r * (t - ?l) div 1000000"
    using floor_superadd [of 1000000 "?r * (max ?l now - ?l)" "?r * (t - max ?l now)"]
    by (simp add: algebra_simps)
  ultimately show ?case
    using step(1) by (simp add: req allow)
qed

theorem rtx_budget_bounds_rate_witness:
  "let p = sfu_pacer_set_rate sfu_pacer_init 8000000 5
   in rtx_granted p [(1400, 5), (6000, 6), (1400, 1000005)] \<le> 6250 + 625000"
  using rtx_budget_bounds_rate [of "sfu_pacer_set_rate sfu_pacer_init 8000000 5"
      "[(1400, 5), (6000, 6), (1400, 1000005)]" 1000005]
  by (simp add: sfu_pacer_set_rate_def sfu_pacer_init_def pacer_inv_def Let_def)

end
