(* ===== verification/Netbytes.thy ===== *)
theory Netbytes
  imports SFU_Prelude
begin

text \<open>
  Big-endian integers in byte buffers: \<^verbatim>\<open>src/src/util/netbytes.h\<close>.
\<close>

definition be16 :: "u8 \<Rightarrow> u8 \<Rightarrow> u16" where
  "be16 a b = push_bit 8 (ucast a) OR ucast b"

definition be24 :: "u8 \<Rightarrow> u8 \<Rightarrow> u8 \<Rightarrow> u32" where
  "be24 a b c = push_bit 16 (ucast a) OR push_bit 8 (ucast b) OR ucast c"

definition be32 :: "u8 \<Rightarrow> u8 \<Rightarrow> u8 \<Rightarrow> u8 \<Rightarrow> u32" where
  "be32 a b c d =
     push_bit 24 (ucast a) OR push_bit 16 (ucast b) OR push_bit 8 (ucast c) OR ucast d"

definition sfu_read_be16 :: "bytes \<Rightarrow> nat \<Rightarrow> u16 option" where
  "sfu_read_be16 p i = do { a \<leftarrow> rd p i; b \<leftarrow> rd p (i + 1); Some (be16 a b) }"

definition sfu_read_be24 :: "bytes \<Rightarrow> nat \<Rightarrow> u32 option" where
  "sfu_read_be24 p i =
     do { a \<leftarrow> rd p i; b \<leftarrow> rd p (i + 1); c \<leftarrow> rd p (i + 2); Some (be24 a b c) }"

definition sfu_read_be32 :: "bytes \<Rightarrow> nat \<Rightarrow> u32 option" where
  "sfu_read_be32 p i =
     do { a \<leftarrow> rd p i; b \<leftarrow> rd p (i + 1); c \<leftarrow> rd p (i + 2); d \<leftarrow> rd p (i + 3);
          Some (be32 a b c d) }"

definition sfu_write_be16 :: "bytes \<Rightarrow> nat \<Rightarrow> u16 \<Rightarrow> bytes option" where
  "sfu_write_be16 p i v =
     do { p \<leftarrow> wr p i (ucast (drop_bit 8 v)); wr p (i + 1) (ucast v) }"

definition sfu_write_be32 :: "bytes \<Rightarrow> nat \<Rightarrow> u32 \<Rightarrow> bytes option" where
  "sfu_write_be32 p i v =
     do { p \<leftarrow> wr p i (ucast (drop_bit 24 v)); p \<leftarrow> wr p (i + 1) (ucast (drop_bit 16 v));
          p \<leftarrow> wr p (i + 2) (ucast (drop_bit 8 v)); wr p (i + 3) (ucast v) }"

lemma be16_split [simp, byte_simps]: "be16 (ucast (drop_bit 8 v)) (ucast v) = v"
  by (rule bit_word_eqI) (auto simp: be16_def bit_simps)

lemma be32_split [simp, byte_simps]:
  "be32 (ucast (drop_bit 24 v)) (ucast (drop_bit 16 v)) (ucast (drop_bit 8 v)) (ucast v) = v"
proof (rule bit_word_eqI)
  fix n
  assume "n < LENGTH(32)"
  consider "n < 8" | "8 \<le> n" "n < 16" | "16 \<le> n" "n < 24" | "24 \<le> n"
    by linarith
  then show "bit (be32 (ucast (drop_bit 24 v)) (ucast (drop_bit 16 v))
      (ucast (drop_bit 8 v)) (ucast v)) n = bit v n"
    using \<open>n < LENGTH(32)\<close> by cases (auto simp: be32_def bit_simps)
qed

lemma be16_hi [simp, byte_simps]: "ucast (drop_bit 8 (be16 a b)) = a"
  by (rule bit_word_eqI) (auto simp: be16_def bit_simps dest: bit_imp_le_length)

lemma be16_lo [simp, byte_simps]: "ucast (be16 a b) = b"
  by (rule bit_word_eqI) (auto simp: be16_def bit_simps dest: bit_imp_le_length)

lemma unat_be16: "unat (be16 a b) = unat a * 256 + unat b"
proof -
  have "be16 a b = push_bit 8 (ucast a) + ucast b"
    unfolding be16_def
    by (rule disjunctive_add [symmetric]) (auto simp: bit_simps dest: bit_imp_le_length)
  moreover have "unat a * 256 + unat b < 65536"
    using unat_u8_less [of a] unat_u8_less [of b] by linarith
  ultimately show ?thesis
    by (simp add: push_bit_eq_mult unat_ucast_up unat_word_ariths mod_less)
qed

lemma read_be16_in [simp, mem_simps]:
  "i + 1 < length p \<Longrightarrow> sfu_read_be16 p i = Some (be16 (p ! i) (p ! (i + 1)))"
  by (simp add: sfu_read_be16_def)

lemma read_be24_in [simp, mem_simps]:
  "i + 2 < length p \<Longrightarrow>
   sfu_read_be24 p i = Some (be24 (p ! i) (p ! (i + 1)) (p ! (i + 2)))"
  by (simp add: sfu_read_be24_def)

lemma read_be32_in [simp, mem_simps]:
  "i + 3 < length p \<Longrightarrow>
   sfu_read_be32 p i = Some (be32 (p ! i) (p ! (i + 1)) (p ! (i + 2)) (p ! (i + 3)))"
  by (simp add: sfu_read_be32_def)

lemma write_be16_in [simp, mem_simps]:
  "i + 1 < length p \<Longrightarrow>
   sfu_write_be16 p i v = Some (p[i := ucast (drop_bit 8 v), i + 1 := ucast v])"
  by (simp add: sfu_write_be16_def)

lemma write_be32_in [simp, mem_simps]:
  "i + 3 < length p \<Longrightarrow>
   sfu_write_be32 p i v =
     Some (p[i := ucast (drop_bit 24 v), i + 1 := ucast (drop_bit 16 v),
             i + 2 := ucast (drop_bit 8 v), i + 3 := ucast v])"
  by (simp add: sfu_write_be32_def)

lemma ok_read_be16 [ok_simps]:
  "ok (sfu_read_be16 p i) P \<longleftrightarrow> i + 1 < length p \<and> P (be16 (p ! i) (p ! (i + 1)))"
  by (auto simp: sfu_read_be16_def ok_simps)

lemma ok_read_be24 [ok_simps]:
  "ok (sfu_read_be24 p i) P \<longleftrightarrow>
   i + 2 < length p \<and> P (be24 (p ! i) (p ! (i + 1)) (p ! (i + 2)))"
  by (auto simp: sfu_read_be24_def ok_simps)

lemma ok_read_be32 [ok_simps]:
  "ok (sfu_read_be32 p i) P \<longleftrightarrow>
   i + 3 < length p \<and> P (be32 (p ! i) (p ! (i + 1)) (p ! (i + 2)) (p ! (i + 3)))"
  by (auto simp: sfu_read_be32_def ok_simps)

lemma ok_write_be16 [ok_simps]:
  "ok (sfu_write_be16 p i v) P \<longleftrightarrow>
   i + 1 < length p \<and> P (p[i := ucast (drop_bit 8 v), i + 1 := ucast v])"
  by (auto simp: sfu_write_be16_def ok_simps)

lemma ok_write_be32 [ok_simps]:
  "ok (sfu_write_be32 p i v) P \<longleftrightarrow>
   i + 3 < length p \<and>
   P (p[i := ucast (drop_bit 24 v), i + 1 := ucast (drop_bit 16 v),
        i + 2 := ucast (drop_bit 8 v), i + 3 := ucast v])"
  by (auto simp: sfu_write_be32_def ok_simps)

end
