(* ===== verification/Rtx.thy ===== *)
theory Rtx
  imports Netbytes SFU_Interfaces
begin

text \<open>
  Retransmissions: the parser of generic NACK feedback and the cache of sent packets
  (\<^verbatim>\<open>src/src/rtp/rtx.c\<close>, \<^verbatim>\<open>src/src/rtp/rtx.h\<close>).  Pointers into a buffer are offsets; \<open>None\<close>
  is the null pointer.  The payload slab is one buffer that all cache entries point
  into.
\<close>

section \<open>NACK parser\<close>

record sfu_nack_parser =
  nack_ptr :: "nat option"
  nack_end :: nat
  nack_media_ssrc :: u32
  current_pid :: u16
  current_blp :: u16
  bit_index :: int

definition nack_parser_zero :: sfu_nack_parser where
  "nack_parser_zero = \<lparr>nack_ptr = None, nack_end = 0, nack_media_ssrc = 0, current_pid = 0,
     current_blp = 0, bit_index = 0\<rparr>"

definition sfu_nack_parser_init :: "bytes \<Rightarrow> nat \<Rightarrow> (sfu_nack_parser \<times> bool) option" where
  "sfu_nack_parser_init data len =
     (if len < 16 then Some (nack_parser_zero, False)
      else do {
        b0 \<leftarrow> rd data 0;
        b1 \<leftarrow> rd data 1;
        if drop_bit 6 b0 \<noteq> 2 \<or> b0 AND 0x1F \<noteq> 1 \<or> b1 \<noteq> 205 then Some (nack_parser_zero, False)
        else if (len - 12) mod 4 \<noteq> 0 then Some (nack_parser_zero, False)
        else do {
          ssrc \<leftarrow> sfu_read_be32 data 8;
          Some (nack_parser_zero\<lparr>nack_ptr := Some 12, nack_end := len, nack_media_ssrc := ssrc,
            bit_index := 16\<rparr>, True)
        }
      })"

definition sfu_nack_parser_media_ssrc :: "sfu_nack_parser \<Rightarrow> u32" where
  "sfu_nack_parser_media_ssrc parser = nack_media_ssrc parser"

text \<open>The inner loop over the bits of the mask; shifting by a negative count is
  undefined.\<close>

function nack_scan :: "sfu_nack_parser \<Rightarrow> (sfu_nack_parser \<times> u16 ret) option" where
  "nack_scan parser =
     (if bit_index parser < 16
      then if bit_index parser < 0 then None
      else let is_lost = current_blp parser AND push_bit (nat (bit_index parser)) 1 \<noteq> 0;
               offset = bit_index parser + 1;
               parser' = parser\<lparr>bit_index := bit_index parser + 1\<rparr>
           in if is_lost then Some (parser', Accept (current_pid parser + of_int offset))
              else nack_scan parser'
      else Some (parser, Reject))"
  by pat_completeness auto
termination
  by (relation "measure (\<lambda>p. nat (16 - bit_index p))") auto

declare nack_scan.simps [simp del]

lemma nack_scan_exhausted: "nack_scan p = Some (p', Reject) \<Longrightarrow> 16 \<le> bit_index p'"
proof (induction p rule: nack_scan.induct)
  case (1 p)
  then show ?case
    by (subst (asm) (2) nack_scan.simps) (auto simp: Let_def split: if_splits)
qed

definition nack_load :: "bytes \<Rightarrow> sfu_nack_parser \<Rightarrow> nat \<Rightarrow> sfu_nack_parser ret option" where
  "nack_load data parser ptr =
     (if bit_index parser > 15
      then if nack_end parser - ptr < 4 then Some Reject
      else do {
        pid \<leftarrow> sfu_read_be16 data ptr;
        blp \<leftarrow> sfu_read_be16 data (ptr + 2);
        Some (Accept (parser\<lparr>current_pid := pid, current_blp := blp, nack_ptr := Some (ptr + 4),
          bit_index := -1\<rparr>))
      }
      else Some (Accept parser))"

function sfu_nack_parser_next ::
    "bytes \<Rightarrow> sfu_nack_parser \<Rightarrow> (sfu_nack_parser \<times> u16 ret) option" where
  "sfu_nack_parser_next data parser =
     (case nack_ptr parser of
        None \<Rightarrow> Some (parser, Reject)
      | Some ptr \<Rightarrow> do {
          loaded \<leftarrow> nack_load data parser ptr;
          case loaded of
            Reject \<Rightarrow> Some (parser, Reject)
          | Accept parser \<Rightarrow>
              if bit_index parser = -1
              then Some (parser\<lparr>bit_index := bit_index parser + 1\<rparr>, Accept (current_pid parser))
              else do {
                (parser, r) \<leftarrow> nack_scan parser;
                case r of
                  Accept lost_seq \<Rightarrow> Some (parser, Accept lost_seq)
                | Reject \<Rightarrow> sfu_nack_parser_next data parser
              }
        })"
  by pat_completeness auto
termination
  by (relation "measure (\<lambda>(data, p). if bit_index p > 15 then 0 else 1)")
    (auto simp: nack_load_def split: if_splits bind_splits dest!: nack_scan_exhausted)

declare sfu_nack_parser_next.simps [simp del]

text \<open>The reference: the lost sequence numbers a feedback control information block
  names are, per four bytes, the packet identifier and the numbers its mask marks.\<close>

definition nack_marked :: "u16 \<Rightarrow> u16 \<Rightarrow> nat \<Rightarrow> u16 list" where
  "nack_marked pid blp i = map (\<lambda>k. pid + of_nat k + 1) (filter (bit blp) [i..<16])"

fun nack_fci :: "bytes \<Rightarrow> u16 list" where
  "nack_fci (a # b # c # d # rest) =
     be16 a b # nack_marked (be16 a b) (be16 c d) 0 @ nack_fci rest"
| "nack_fci _ = []"

definition nack_block_rest :: "sfu_nack_parser \<Rightarrow> u16 list" where
  "nack_block_rest p =
     (if bit_index p = -1 then current_pid p # nack_marked (current_pid p) (current_blp p) 0
      else nack_marked (current_pid p) (current_blp p) (nat (bit_index p)))"

definition nack_pending :: "bytes \<Rightarrow> sfu_nack_parser \<Rightarrow> u16 list" where
  "nack_pending data p =
     (case nack_ptr p of None \<Rightarrow> []
      | Some ptr \<Rightarrow> nack_block_rest p @ nack_fci (drop ptr (take (nack_end p) data)))"

definition nack_parser_inv :: "bytes \<Rightarrow> sfu_nack_parser \<Rightarrow> bool" where
  "nack_parser_inv data p \<longleftrightarrow> (case nack_ptr p of None \<Rightarrow> True
     | Some ptr \<Rightarrow> ptr \<le> nack_end p \<and> nack_end p \<le> length data \<and> -1 \<le> bit_index p)"

lemma nack_marked_step:
  assumes "0 \<le> i" "i < 16"
  shows "nack_marked pid blp (nat i) =
    (if blp AND push_bit (nat i) 1 \<noteq> 0 then (pid + of_int (i + 1)) # nack_marked pid blp (nat (i + 1))
     else nack_marked pid blp (nat (i + 1)))"
proof -
  have "[nat i..<16] = nat i # [nat (i + 1)..<16]"
    using assms by (simp add: upt_rec [of "nat i"] nat_add_distrib One_nat_def)
  moreover have "blp AND push_bit (nat i) 1 \<noteq> 0 \<longleftrightarrow> bit blp (nat i)"
    by (simp add: bit_iff_and_push_bit_not_eq_0)
  moreover have "pid + of_nat (nat i) + 1 = pid + (of_int (i + 1) :: u16)"
    using assms by simp
  ultimately show ?thesis
    by (simp add: nack_marked_def)
qed

lemma nack_scan_spec:
  assumes "0 \<le> bit_index p"
  shows "case nack_marked (current_pid p) (current_blp p) (nat (bit_index p)) of
      [] \<Rightarrow> \<exists>j \<ge> 16. nack_scan p = Some (p\<lparr>bit_index := j\<rparr>, Reject)
    | s # ss \<Rightarrow> \<exists>j \<ge> 0. nack_scan p = Some (p\<lparr>bit_index := j\<rparr>, Accept s) \<and>
        nack_marked (current_pid p) (current_blp p) (nat j) = ss"
  using assms
proof (induction p rule: nack_scan.induct)
  case (1 p)
  show ?case
  proof (cases "bit_index p < 16")
    case False
    then have "nack_marked (current_pid p) (current_blp p) (nat (bit_index p)) = []"
      by (simp add: nack_marked_def)
    then show ?thesis
      using False by (auto simp: nack_scan.simps [of p] intro!: exI [of _ "bit_index p"])
  next
    case True
    show ?thesis
    proof (cases "current_blp p AND push_bit (nat (bit_index p)) 1 \<noteq> 0")
      case lost: True
      then show ?thesis
        using True 1 by (auto simp: nack_scan.simps [of p] nack_marked_step Let_def
            intro!: exI [of _ "bit_index p + 1"])
    next
      case kept: False
      then have "nack_scan p = nack_scan (p\<lparr>bit_index := bit_index p + 1\<rparr>)"
        using True 1 by (simp add: nack_scan.simps [of p])
      then show ?thesis
        using True kept "1.prems" "1.IH" [OF True _ refl refl refl]
        by (simp add: nack_marked_step split: list.splits)
    qed
  qed
qed

lemma nack_fci_step:
  assumes "ptr + 4 \<le> e" "e \<le> length data"
  shows "nack_fci (drop ptr (take e data)) =
    (let pid = be16 (data ! ptr) (data ! (ptr + 1));
         blp = be16 (data ! (ptr + 2)) (data ! (ptr + 3))
     in pid # nack_marked pid blp 0 @ nack_fci (drop (ptr + 4) (take e data)))"
proof -
  have cons: "drop k (take e data) = data ! k # drop (k + 1) (take e data)" if "k < e" for k
    using that assms Cons_nth_drop_Suc [of k "take e data"] by (simp add: One_nat_def)
  have "drop ptr (take e data) = data ! ptr # data ! (ptr + 1) # data ! (ptr + 2) #
      data ! (ptr + 3) # drop (ptr + 4) (take e data)"
    using assms by (simp add: cons [of ptr] cons [of "ptr + 1"] cons [of "ptr + 2"] cons [of "ptr + 3"])
  then show ?thesis
    by (simp add: Let_def)
qed

lemma nack_fci_short: "length xs < 4 \<Longrightarrow> nack_fci xs = []"
  by (cases xs rule: nack_fci.cases) simp_all

text \<open>With the previous block exhausted, a call yields the identifier of the next one.\<close>

lemma nack_next_block:
  assumes "nack_parser_inv data p" "nack_ptr p = Some ptr" "15 < bit_index p"
  shows "sfu_nack_parser_next data p =
    (if nack_end p - ptr < 4 then Some (p, Reject)
     else let pid = be16 (data ! ptr) (data ! (ptr + 1));
              blp = be16 (data ! (ptr + 2)) (data ! (ptr + 3))
          in Some (p\<lparr>current_pid := pid, current_blp := blp, nack_ptr := Some (ptr + 4),
               bit_index := 0\<rparr>, Accept pid))"
proof (cases "nack_end p - ptr < 4")
  case False
  then have "ptr + 1 < length data" "ptr + 2 + 1 < length data"
    using assms by (auto simp: nack_parser_inv_def)
  then show ?thesis
    using assms False by (subst sfu_nack_parser_next.simps) (simp add: nack_load_def Let_def)
qed (use assms in \<open>subst sfu_nack_parser_next.simps, simp add: nack_load_def\<close>)

lemma nack_block_done [simp]: "15 < bit_index p \<Longrightarrow> nack_block_rest p = []"
  by (simp add: nack_block_rest_def nack_marked_def)

lemma nack_next_spec:
  assumes "nack_parser_inv data p"
  shows "case nack_pending data p of
      [] \<Rightarrow> \<exists>p'. sfu_nack_parser_next data p = Some (p', Reject)
    | s # ss \<Rightarrow> \<exists>p'. sfu_nack_parser_next data p = Some (p', Accept s) \<and>
        nack_parser_inv data p' \<and> nack_pending data p' = ss"
proof (cases "nack_ptr p")
  case None
  then show ?thesis
    by (simp add: nack_pending_def sfu_nack_parser_next.simps)
next
  case (Some ptr)
  have blocks: "case nack_pending data p of
      [] \<Rightarrow> \<exists>p'. sfu_nack_parser_next data p = Some (p', Reject)
    | s # ss \<Rightarrow> \<exists>p'. sfu_nack_parser_next data p = Some (p', Accept s) \<and>
        nack_parser_inv data p' \<and> nack_pending data p' = ss"
    if "nack_parser_inv data p" "nack_ptr p = Some ptr" "15 < bit_index p" for p
  proof (cases "nack_end p - ptr < 4")
    case True
    then show ?thesis
      using that by (simp add: nack_next_block nack_pending_def nack_fci_short)
  next
    case False
    have "ptr + 4 \<le> nack_end p" "nack_end p \<le> length data"
      using that False by (auto simp: nack_parser_inv_def)
    moreover have "nack_pending data p = nack_fci (drop ptr (take (nack_end p) data))"
      using that by (simp add: nack_pending_def)
    ultimately show ?thesis
      using that False by (simp add: nack_next_block nack_fci_step Let_def)
        (simp add: nack_parser_inv_def nack_pending_def nack_block_rest_def)
  qed
  consider "15 < bit_index p" | "bit_index p = -1" | "0 \<le> bit_index p" "bit_index p \<le> 15"
    using assms Some by (force simp: nack_parser_inv_def)
  then show ?thesis
  proof cases
    case 1
    then show ?thesis
      using blocks assms Some by blast
  next
    case 2
    then show ?thesis
      using assms Some by (subst sfu_nack_parser_next.simps)
        (simp add: nack_parser_inv_def nack_load_def nack_pending_def nack_block_rest_def)
  next
    case 3
    let ?m = "nack_marked (current_pid p) (current_blp p) (nat (bit_index p))"
    have step: "sfu_nack_parser_next data p = do { (q, r) \<leftarrow> nack_scan p;
        case r of Accept s \<Rightarrow> Some (q, Accept s) | Reject \<Rightarrow> sfu_nack_parser_next data q }"
      using 3 Some by (subst sfu_nack_parser_next.simps) (simp add: nack_load_def)
    show ?thesis
    proof (cases ?m)
      case Nil
      then obtain j where j: "16 \<le> j" "nack_scan p = Some (p\<lparr>bit_index := j\<rparr>, Reject)"
        using nack_scan_spec [of p] 3 by auto
      have "nack_pending data p = nack_pending data (p\<lparr>bit_index := j\<rparr>)"
        using Nil Some j 3 by (simp add: nack_pending_def nack_block_rest_def nack_marked_def)
      moreover have "nack_parser_inv data (p\<lparr>bit_index := j\<rparr>)"
        using assms Some j by (simp add: nack_parser_inv_def)
      ultimately show ?thesis
        using blocks [of "p\<lparr>bit_index := j\<rparr>"] Some j step by (simp split: list.splits)
    next
      case (Cons s ss)
      then obtain j where "0 \<le> j" "nack_scan p = Some (p\<lparr>bit_index := j\<rparr>, Accept s)"
        "nack_marked (current_pid p) (current_blp p) (nat j) = ss"
        using nack_scan_spec [of p] 3 by auto
      then show ?thesis
        using Cons assms Some 3
        by (simp add: step nack_pending_def nack_block_rest_def nack_parser_inv_def)
    qed
  qed
qed

interpretation nack: iterator "nack_parser_inv data" "nack_pending data" "sfu_nack_parser_next data"
  for data
proof
  fix s :: sfu_nack_parser and x xs
  assume "nack_parser_inv data s"
  note * = nack_next_spec [OF this]
  show "\<exists>s'. sfu_nack_parser_next data s = Some (s', Reject)" if "nack_pending data s = []"
    using * that by simp
  show "\<exists>s'. sfu_nack_parser_next data s = Some (s', Accept x) \<and> nack_parser_inv data s' \<and>
      nack_pending data s' = xs" if "nack_pending data s = x # xs"
    using * that by simp
qed

lemma nack_init_spec:
  assumes "len \<le> length data"
  shows "ok (sfu_nack_parser_init data len) (\<lambda>(p, accepted). nack_parser_inv data p \<and>
    (accepted \<longleftrightarrow> 16 \<le> len \<and> 4 dvd len \<and> drop_bit 6 (data ! 0) = 2 \<and> data ! 0 AND 0x1F = 1 \<and> data ! 1 = 205) \<and>
    nack_pending data p = (if accepted then nack_fci (drop 12 (take len data)) else []) \<and>
    (accepted \<longrightarrow> sfu_nack_parser_media_ssrc p = be32 (data ! 8) (data ! 9) (data ! 10) (data ! 11)))"
proof -
  have "(len - 12) mod 4 = 0 \<longleftrightarrow> 4 dvd len" if "16 \<le> len"
    using that by presburger
  then show ?thesis
    using assms by (auto simp: sfu_nack_parser_init_def ok_simps nack_parser_zero_def nack_parser_inv_def
        nack_pending_def nack_block_rest_def nack_marked_def sfu_nack_parser_media_ssrc_def)
qed

lemma length_nack_fci: "length (nack_fci xs) \<le> 17 * (length xs div 4)"
proof (induction xs rule: nack_fci.induct)
  case (1 a b c d rest)
  have "length (nack_marked pid blp 0) \<le> 16" for pid blp
    unfolding nack_marked_def length_map by (rule order_trans [OF length_filter_le]) simp
  from this [of "be16 a b" "be16 c d"] show ?case
    using 1 div_add_self1 [of 4 "length rest"] by simp
qed simp_all

text \<open>Property C21. A NACK member is accepted exactly when it is a generic NACK with a
  non-empty list of whole blocks, and then the loop over the parser ends and yields
  the sequence numbers its blocks name, in order and without reading past the member.\<close>

theorem nack_parser_enumerates:
  assumes "len \<le> length data" "17 * len < n"
  shows "\<exists>p accepted. sfu_nack_parser_init data len = Some (p, accepted) \<and>
    (accepted \<longleftrightarrow> 16 \<le> len \<and> 4 dvd len \<and> drop_bit 6 (data ! 0) = 2 \<and> data ! 0 AND 0x1F = 1 \<and> data ! 1 = 205) \<and>
    drain n (sfu_nack_parser_next data) p =
      Some (if accepted then nack_fci (drop 12 (take len data)) else [])"
proof -
  obtain p accepted where p: "sfu_nack_parser_init data len = Some (p, accepted)"
    "nack_parser_inv data p"
    "nack_pending data p = (if accepted then nack_fci (drop 12 (take len data)) else [])"
    "accepted \<longleftrightarrow> 16 \<le> len \<and> 4 dvd len \<and> drop_bit 6 (data ! 0) = 2 \<and> data ! 0 AND 0x1F = 1 \<and> data ! 1 = 205"
    using nack_init_spec [OF assms(1)] by (auto elim!: okE)
  have "length (nack_pending data p) < n"
    using length_nack_fci [of "drop 12 (take len data)"] assms p(3)
      order_trans [OF div_le_dividend diff_le_self, of len 12 4]
    by (simp add: min_absorb1 split: if_splits)
  from nack.drain_pending [OF p(2) this] p show ?thesis
    by auto
qed

definition sample_nack :: bytes where
  "sample_nack = [0x81, 205, 0, 3, 0, 0, 0, 1, 0, 0, 0, 2, 0xFF, 0xFE, 0x80, 0x05]"

theorem nack_parser_enumerates_witness:
  "\<exists>p. sfu_nack_parser_init sample_nack 16 = Some (p, True) \<and>
    drain 300 (sfu_nack_parser_next sample_nack) p = Some [0xFFFE, 0xFFFF, 1, 14]"
proof -
  have "[0..<16] = [0, 1, 2, 3, 4, 5, 6, 7, 8, 9, 10, 11, 12, 13, 14, 15 :: nat]"
    by code_simp
  then have "nack_fci (drop 12 (take 16 sample_nack)) = [0xFFFE, 0xFFFF, 1, 14]"
    by (simp add: sample_nack_def nack_marked_def be16_def One_nat_def)
  then show ?thesis
    using nack_parser_enumerates [of 16 sample_nack 300] by (auto simp: sample_nack_def)
qed


section \<open>Cache of sent packets\<close>

abbreviation SFU_RTX_CACHE_SIZE :: nat where
  "SFU_RTX_CACHE_SIZE \<equiv> 1024"

abbreviation SFU_RTX_CACHE_MASK :: u32 where
  "SFU_RTX_CACHE_MASK \<equiv> 1023"

abbreviation SFU_MAX_PAYLOAD_SIZE :: nat where
  "SFU_MAX_PAYLOAD_SIZE \<equiv> 2048"

record sfu_rtx_entry =
  re_data :: "nat option"
  re_len :: u32
  re_rtx_ssrc :: u32
  re_rtx_pt :: u8
  re_seq :: u16
  re_valid :: bool
  re_media_ssrc :: u32
  re_generation :: u32

record sfu_rtx_cache =
  rtx_entries :: "sfu_rtx_entry list"
  payload_slab :: "bytes option"
  next_rtx_seq :: u16

definition rtx_entry_zero :: sfu_rtx_entry where
  "rtx_entry_zero = \<lparr>re_data = None, re_len = 0, re_rtx_ssrc = 0, re_rtx_pt = 0, re_seq = 0,
     re_valid = False, re_media_ssrc = 0, re_generation = 0\<rparr>"

text \<open>The argument \<open>slab\<close> is the result of the allocation: a zeroed block, or \<open>None\<close>.\<close>

definition sfu_rtx_cache_init :: "bytes option \<Rightarrow> sfu_rtx_cache \<times> int" where
  "sfu_rtx_cache_init slab =
     (case slab of
        None \<Rightarrow> (\<lparr>rtx_entries = replicate SFU_RTX_CACHE_SIZE rtx_entry_zero, payload_slab = None,
                  next_rtx_seq = 0\<rparr>, -1)
      | Some s \<Rightarrow> (\<lparr>rtx_entries = map (\<lambda>i. rtx_entry_zero\<lparr>re_data := Some (i * SFU_MAX_PAYLOAD_SIZE)\<rparr>)
                                    [0..<SFU_RTX_CACHE_SIZE],
                   payload_slab = Some s, next_rtx_seq = 0\<rparr>, 0))"

definition rtx_slot :: "u16 \<Rightarrow> u32 \<Rightarrow> nat" where
  "rtx_slot seq media_ssrc =
     unat ((ucast seq XOR media_ssrc XOR drop_bit 16 media_ssrc) AND SFU_RTX_CACHE_MASK)"

definition sfu_rtx_cache_put_stream ::
    "sfu_rtx_cache \<Rightarrow> u16 \<Rightarrow> bytes \<Rightarrow> u32 \<Rightarrow> u32 \<Rightarrow> u8 \<Rightarrow> u32 \<Rightarrow> u32 \<Rightarrow> sfu_rtx_cache option" where
  "sfu_rtx_cache_put_stream cache seq data len rtx_ssrc rtx_pt media_ssrc generation =
     (if unat (len + 2) > SFU_MAX_PAYLOAD_SIZE then Some cache
      else do {
        let idx = rtx_slot seq media_ssrc;
        entry \<leftarrow> aget (rtx_entries cache) idx;
        let entry = entry\<lparr>re_seq := seq, re_len := len, re_rtx_ssrc := rtx_ssrc, re_rtx_pt := rtx_pt,
                      re_media_ssrc := media_ssrc, re_generation := generation\<rparr>;
        off \<leftarrow> re_data entry;
        slab \<leftarrow> payload_slab cache;
        bs \<leftarrow> rd_bytes data 0 (unat len);
        slab \<leftarrow> wr_bytes slab off bs;
        entries \<leftarrow> aset (rtx_entries cache) idx (entry\<lparr>re_valid := True\<rparr>);
        Some (cache\<lparr>rtx_entries := entries, payload_slab := Some slab\<rparr>)
      })"

definition sfu_rtx_cache_get_stream ::
    "sfu_rtx_cache \<Rightarrow> u16 \<Rightarrow> bytes \<Rightarrow> u32 \<Rightarrow> u32 \<Rightarrow> (bytes \<times> u32 \<times> u32 \<times> u8) ret option" where
  "sfu_rtx_cache_get_stream cache seq out_data media_ssrc generation = do {
     entry \<leftarrow> aget (rtx_entries cache) (rtx_slot seq media_ssrc);
     if re_valid entry \<and> re_seq entry = seq \<and> re_media_ssrc entry = media_ssrc \<and>
        re_generation entry = generation
     then do {
       off \<leftarrow> re_data entry;
       slab \<leftarrow> payload_slab cache;
       bs \<leftarrow> rd_bytes slab off (unat (re_len entry));
       out_data \<leftarrow> wr_bytes out_data 0 bs;
       Some (Accept (out_data, re_len entry, re_rtx_ssrc entry, re_rtx_pt entry))
     }
     else Some Reject
   }"

definition sfu_rtx_cache_put :: "sfu_rtx_cache \<Rightarrow> u16 \<Rightarrow> bytes \<Rightarrow> u32 \<Rightarrow> u32 \<Rightarrow> u8 \<Rightarrow> sfu_rtx_cache option" where
  "sfu_rtx_cache_put cache seq data len rtx_ssrc rtx_pt =
     sfu_rtx_cache_put_stream cache seq data len rtx_ssrc rtx_pt 0 0"

definition sfu_rtx_cache_get :: "sfu_rtx_cache \<Rightarrow> u16 \<Rightarrow> bytes \<Rightarrow> (bytes \<times> u32 \<times> u32 \<times> u8) ret option" where
  "sfu_rtx_cache_get cache seq out_data = sfu_rtx_cache_get_stream cache seq out_data 0 0"

definition sfu_rtx_cache_destroy :: "sfu_rtx_cache \<Rightarrow> sfu_rtx_cache" where
  "sfu_rtx_cache_destroy cache =
     cache\<lparr>payload_slab := None,
       rtx_entries := map (\<lambda>e. e\<lparr>re_data := None, re_valid := False\<rparr>) (rtx_entries cache)\<rparr>"

text \<open>Every entry owns its own 2048 bytes of the slab, and a valid entry leaves room
  for the two bytes a retransmission inserts.\<close>

definition rtx_cache_inv :: "sfu_rtx_cache \<Rightarrow> bool" where
  "rtx_cache_inv c \<longleftrightarrow> length (rtx_entries c) = SFU_RTX_CACHE_SIZE \<and>
     (\<exists>slab. payload_slab c = Some slab \<and> length slab = SFU_RTX_CACHE_SIZE * SFU_MAX_PAYLOAD_SIZE) \<and>
     (\<forall>i < SFU_RTX_CACHE_SIZE. re_data (rtx_entries c ! i) = Some (i * SFU_MAX_PAYLOAD_SIZE) \<and>
        (re_valid (rtx_entries c ! i) \<longrightarrow> unat (re_len (rtx_entries c ! i)) + 2 \<le> SFU_MAX_PAYLOAD_SIZE))"

text \<open>The abstraction: a partial map from stream and sequence number to the cached
  packet with its retransmission stream.\<close>

type_synonym rtx_key = "u16 \<times> u32 \<times> u32"
type_synonym rtx_value = "bytes \<times> u32 \<times> u8"

definition rtx_look :: "sfu_rtx_cache \<Rightarrow> rtx_key \<Rightarrow> rtx_value option" where
  "rtx_look c = (\<lambda>(seq, ssrc, gen).
     (let e = rtx_entries c ! rtx_slot seq ssrc
      in if re_valid e \<and> re_seq e = seq \<and> re_media_ssrc e = ssrc \<and> re_generation e = gen
         then Some (take (unat (re_len e)) (drop (rtx_slot seq ssrc * SFU_MAX_PAYLOAD_SIZE)
                (the (payload_slab c))), re_rtx_ssrc e, re_rtx_pt e)
         else None))"

definition rtx_key_slot :: "rtx_key \<Rightarrow> nat" where
  "rtx_key_slot = (\<lambda>(seq, ssrc, gen). rtx_slot seq ssrc)"

definition rtx_fits :: "rtx_value \<Rightarrow> bool" where
  "rtx_fits = (\<lambda>(pkt, _). length pkt + 2 \<le> SFU_MAX_PAYLOAD_SIZE)"

definition rtx_put :: "sfu_rtx_cache \<Rightarrow> rtx_key \<times> rtx_value \<Rightarrow> sfu_rtx_cache option" where
  "rtx_put c = (\<lambda>((seq, ssrc, gen), pkt, rtx_ssrc, rtx_pt).
     sfu_rtx_cache_put_stream c seq pkt (of_nat (length pkt)) rtx_ssrc rtx_pt ssrc gen)"

lemma rtx_slot_less [simp]: "rtx_slot seq ssrc < 1024"
  using unat_and_le [of "ucast seq XOR ssrc XOR drop_bit 16 ssrc" SFU_RTX_CACHE_MASK]
  by (simp add: rtx_slot_def)

lemma take_drop_overwrite_same:
  "i + length bs \<le> length m \<Longrightarrow> take (length bs) (drop i (overwrite m i bs)) = bs"
  by (simp add: overwrite_def)

lemma take_drop_overwrite_other:
  assumes "i + length bs \<le> length m" "j + n \<le> i \<or> i + length bs \<le> j"
  shows "take n (drop j (overwrite m i bs)) = take n (drop j m)"
  by (rule nth_equalityI) (use assms in \<open>auto simp: nth_overwrite\<close>)

lemma slot_region: "i < 1024 \<Longrightarrow> n \<le> 2048 \<Longrightarrow> i * 2048 + n \<le> (2097152 :: nat)"
  by linarith

lemma rtx_look_at:
  assumes "rtx_entries c ! rtx_slot seq ssrc = e" "payload_slab c = Some slab"
  shows "rtx_look c (seq, ssrc, gen) =
    (if re_valid e \<and> re_seq e = seq \<and> re_media_ssrc e = ssrc \<and> re_generation e = gen
     then Some (take (unat (re_len e)) (drop (rtx_slot seq ssrc * SFU_MAX_PAYLOAD_SIZE) slab),
       re_rtx_ssrc e, re_rtx_pt e)
     else None)"
  using assms by (simp add: rtx_look_def Let_def)

lemma rtx_entry_len:
  "rtx_cache_inv c \<Longrightarrow> re_valid (rtx_entries c ! rtx_slot seq ssrc) \<Longrightarrow>
   unat (re_len (rtx_entries c ! rtx_slot seq ssrc)) + 2 \<le> SFU_MAX_PAYLOAD_SIZE"
  by (simp add: rtx_cache_inv_def)

lemma rtx_put_law:
  assumes "rtx_cache_inv c" "rtx_fits v"
  shows "ok (rtx_put c (k, v)) (\<lambda>c'. rtx_cache_inv c' \<and> (\<forall>k'. rtx_look c' k' =
    (if k = k' then Some v else if rtx_key_slot k = rtx_key_slot k' then None else rtx_look c k')))"
proof -
  obtain seq ssrc gen where k: "k = (seq, ssrc, gen)"
    by (cases k)
  obtain pkt rtx_ssrc rtx_pt where v: "v = (pkt, rtx_ssrc, rtx_pt)"
    by (cases v)
  obtain slab where slab: "payload_slab c = Some slab" "length slab = 2097152"
    using assms(1) by (auto simp: rtx_cache_inv_def)
  let ?i = "rtx_slot seq ssrc"
  let ?e = "(rtx_entries c ! ?i)\<lparr>re_seq := seq, re_len := of_nat (length pkt), re_rtx_ssrc := rtx_ssrc,
    re_rtx_pt := rtx_pt, re_media_ssrc := ssrc, re_generation := gen, re_valid := True\<rparr>"
  let ?c = "c\<lparr>rtx_entries := (rtx_entries c)[?i := ?e], payload_slab := Some (overwrite slab (?i * 2048) pkt)\<rparr>"
  have len: "length pkt + 2 \<le> 2048"
    using assms(2) by (simp add: rtx_fits_def v)
  then have u: "unat (of_nat (length pkt) :: u32) = length pkt" "unat (of_nat (length pkt) + 2 :: u32) = length pkt + 2"
    using unat_of_nat_less [of "length pkt + 2", where ?'a = 32] by (simp_all add: unat_of_nat_less)
  have region: "?i * 2048 + length pkt \<le> 2097152"
    using len by (intro slot_region) simp_all
  have e: "re_data (rtx_entries c ! ?i) = Some (?i * 2048)" "length (rtx_entries c) = 1024"
    using assms(1) by (auto simp: rtx_cache_inv_def)
  have put: "rtx_put c (k, v) = Some ?c"
    using len u region slab e by (simp add: rtx_put_def k v sfu_rtx_cache_put_stream_def Let_def)
  have inv: "rtx_cache_inv ?c"
    using assms(1) len u region slab by (auto simp: rtx_cache_inv_def nth_list_update)
  have "rtx_look ?c k' = (if k = k' then Some v else if rtx_key_slot k = rtx_key_slot k' then None
      else rtx_look c k')" for k'
  proof -
    obtain seq' ssrc' gen' where k': "k' = (seq', ssrc', gen')"
      by (cases k')
    let ?j = "rtx_slot seq' ssrc'"
    show ?thesis
    proof (cases "?j = ?i")
      case True
      define e' where "e' = ?e"
      have "re_valid e'" "re_seq e' = seq" "re_media_ssrc e' = ssrc" "re_generation e' = gen"
        "re_rtx_ssrc e' = rtx_ssrc" "re_rtx_pt e' = rtx_pt" "unat (re_len e') = length pkt"
        using u by (simp_all add: e'_def)
      moreover have "rtx_look ?c (seq', ssrc', gen') =
          (if re_valid e' \<and> re_seq e' = seq' \<and> re_media_ssrc e' = ssrc' \<and> re_generation e' = gen'
           then Some (take (unat (re_len e')) (drop (?j * 2048) (overwrite slab (?i * 2048) pkt)),
             re_rtx_ssrc e', re_rtx_pt e') else None)"
        by (rule rtx_look_at) (use True e in \<open>simp_all add: e'_def\<close>)
      moreover have "take (length pkt) (drop (?j * 2048) (overwrite slab (?i * 2048) pkt)) = pkt"
        using region slab True by (simp add: take_drop_overwrite_same)
      ultimately show ?thesis
        using True by (simp only: rtx_key_slot_def k k' v prod.case prod.inject if_True refl simp_thms)
    next
      case False
      have "unat (re_len (rtx_entries c ! ?j)) \<le> 2048" if "re_valid (rtx_entries c ! ?j)"
        using rtx_entry_len [OF assms(1) that] by simp
      moreover have "?j * 2048 + 2048 \<le> ?i * 2048 \<or> ?i * 2048 + 2048 \<le> ?j * 2048"
        using False by linarith
      ultimately have "take (unat (re_len (rtx_entries c ! ?j))) (drop (?j * 2048) (overwrite slab (?i * 2048) pkt)) =
          take (unat (re_len (rtx_entries c ! ?j))) (drop (?j * 2048) slab)" if "re_valid (rtx_entries c ! ?j)"
        using that len region slab by (intro take_drop_overwrite_other) auto
      then show ?thesis
        using False e slab by (auto simp: rtx_look_def rtx_key_slot_def k k' Let_def)
    qed
  qed
  with put inv show ?thesis
    by (simp add: ok_Some)
qed

interpretation rtx: direct_mapped rtx_cache_inv rtx_fits rtx_key_slot rtx_put rtx_look
  by unfold_locales (rule rtx_put_law)

lemma rtx_get_look:
  assumes "rtx_cache_inv c" "SFU_MAX_PAYLOAD_SIZE \<le> length out"
  shows "sfu_rtx_cache_get_stream c seq out ssrc gen =
    (case rtx_look c (seq, ssrc, gen) of None \<Rightarrow> Some Reject
     | Some (pkt, rtx_ssrc, rtx_pt) \<Rightarrow> Some (Accept (overwrite out 0 pkt, of_nat (length pkt), rtx_ssrc, rtx_pt)))"
proof -
  let ?i = "rtx_slot seq ssrc"
  obtain slab where slab: "payload_slab c = Some slab" "length slab = 2097152"
    using assms(1) by (auto simp: rtx_cache_inv_def)
  have e: "re_data (rtx_entries c ! ?i) = Some (?i * 2048)" "length (rtx_entries c) = 1024"
    and len: "re_valid (rtx_entries c ! ?i) \<Longrightarrow> unat (re_len (rtx_entries c ! ?i)) + 2 \<le> 2048"
    using assms(1) by (auto simp: rtx_cache_inv_def)
  then have "re_valid (rtx_entries c ! ?i) \<Longrightarrow> ?i * 2048 + unat (re_len (rtx_entries c ! ?i)) \<le> 2097152"
    by (intro slot_region) force+
  with e len slab assms(2) show ?thesis
    by (auto simp: sfu_rtx_cache_get_stream_def rtx_look_def Let_def min_absorb2)
qed

lemma rtx_cache_init_ok:
  assumes "length slab = SFU_RTX_CACHE_SIZE * SFU_MAX_PAYLOAD_SIZE"
  shows "rtx_cache_inv (fst (sfu_rtx_cache_init (Some slab)))"
    and "rtx_look (fst (sfu_rtx_cache_init (Some slab))) k = None"
  using assms by (auto simp: rtx_cache_inv_def sfu_rtx_cache_init_def rtx_entry_zero_def rtx_look_def
      Let_def split: prod.splits)

text \<open>Property C11. The packet cache implements a direct-mapped map: after any series of
  insertions of packets that fit, a lookup returns the last packet inserted into the
  key's slot if it was inserted under this stream, generation and sequence number, and is
  refused otherwise; no entry's bytes are overwritten by another slot's packet.\<close>

theorem rtx_cache_refines:
  assumes "length slab = SFU_RTX_CACHE_SIZE * SFU_MAX_PAYLOAD_SIZE"
    and "\<forall>(k, v) \<in> set ps. rtx_fits v" "SFU_MAX_PAYLOAD_SIZE \<le> length out"
  shows "\<exists>c. foldM rtx_put (fst (sfu_rtx_cache_init (Some slab))) ps = Some c \<and>
    sfu_rtx_cache_get_stream c seq out ssrc gen =
      (case latest rtx_key_slot ps (seq, ssrc, gen) None of None \<Rightarrow> Some Reject
       | Some (pkt, rtx_ssrc, rtx_pt) \<Rightarrow>
           Some (Accept (overwrite out 0 pkt, of_nat (length pkt), rtx_ssrc, rtx_pt)))"
  using rtx.puts_latest [OF rtx_cache_init_ok(1) [OF assms(1)] assms(2)] rtx_get_look [OF _ assms(3)]
  by (auto elim!: okE simp: rtx_cache_init_ok(2) [OF assms(1)])

theorem rtx_cache_refines_witness:
  "\<exists>c. foldM rtx_put (fst (sfu_rtx_cache_init (Some (replicate 2097152 0))))
      [((7, 1, 3), [1, 2], 9, 97), ((8, 1, 3), [4], 9, 97)] = Some c \<and>
    sfu_rtx_cache_get_stream c 7 (replicate 2048 0) 1 3 =
      Some (Accept (overwrite (replicate 2048 0) 0 [1, 2], 2, 9, 97))"
  using rtx_cache_refines [of "replicate 2097152 0" "[((7, 1, 3), [1, 2], 9, 97), ((8, 1, 3), [4], 9, 97)]"
      "replicate 2048 0" 7 1 3]
  by (simp add: rtx_fits_def rtx_key_slot_def rtx_slot_def)

end
