(* ===== verification/Egress_Session.thy ===== *)
theory Egress_Session
  imports Ring_Buffer Pacer Twcc_History Rtx
begin

text \<open>
  The part of a peer session the paced queues read and write (\<^verbatim>\<open>src/src/peer/session.h\<close>,
  \<^verbatim>\<open>session.c\<close>), and what the packet pool and the network answer when a queue is drained.

  \<^verbatim>\<open>sfu_peer_session\<close> holds the fields of the session that the queues use, with the values the
  atomic loads return; a socket address is its bytes with its length.  The packet allocators and
  \<^verbatim>\<open>sfu_net_send\<close> are the rest of the system: a \<open>send_io\<close> is what they answer for one packet, and
  a drain is given the answers of its successive sends.
\<close>

abbreviation SFU_MAX_REMOTE_SLOTS :: nat where "SFU_MAX_REMOTE_SLOTS \<equiv> 299"

datatype sfu_video_runtime_state =
    SFU_VIDEO_RUNTIME_UNINITIALIZED
  | SFU_VIDEO_RUNTIME_INITIALIZING
  | SFU_VIDEO_RUNTIME_READY
  | SFU_VIDEO_RUNTIME_FAILED

record sfu_peer_session =
  accepts_work :: bool
  worker_owner :: u64
  transport_generation :: u32
  address_generation :: u32
  addr :: bytes
  addr_len :: nat
  applied_assignment_generations :: "u64 list"
  video_runtime_state :: sfu_video_runtime_state
  session_pacer :: sfu_pacer
  session_history :: "sfu_twcc_history option"
  session_rtx_cache :: "sfu_rtx_cache option"

definition sfu_session_accepts_work :: "sfu_peer_session \<Rightarrow> bool" where
  "sfu_session_accepts_work s = accepts_work s"

definition sfu_session_owner_value :: "sfu_peer_session \<Rightarrow> u64" where
  "sfu_session_owner_value s = worker_owner s"

definition sfu_session_video_runtime_ready :: "sfu_peer_session \<Rightarrow> bool" where
  "sfu_session_video_runtime_ready s \<longleftrightarrow> video_runtime_state s = SFU_VIDEO_RUNTIME_READY"

definition sfu_session_remote_slot_authorized :: "sfu_peer_session \<Rightarrow> u32 \<Rightarrow> u64 \<Rightarrow> bool" where
  "sfu_session_remote_slot_authorized s slot assignment_generation \<longleftrightarrow>
     unat slot < SFU_MAX_REMOTE_SLOTS \<and> assignment_generation \<noteq> 0 \<and>
     aget (applied_assignment_generations s) (unat slot) = Some assignment_generation"

text \<open>The owner word of a session: the low 16 bits are the worker, the others a generation that
  every change of the owner increments.\<close>

definition sfu_session_owner_worker :: "sfu_peer_session \<Rightarrow> u16" where
  "sfu_session_owner_worker s = ucast (sfu_session_owner_value s)"

definition sfu_session_owner_generation :: "sfu_peer_session \<Rightarrow> u64" where
  "sfu_session_owner_generation s = drop_bit 16 (sfu_session_owner_value s)"

definition sfu_session_set_owner_worker :: "sfu_peer_session \<Rightarrow> u16 \<Rightarrow> sfu_peer_session \<times> u64" where
  "sfu_session_set_owner_worker s worker_id =
     (let generation = drop_bit 16 (worker_owner s) + 1;
          next_owner = push_bit 16 generation OR ucast worker_id
      in (s\<lparr>worker_owner := next_owner\<rparr>, next_owner))"

text \<open>A packet given to \<^verbatim>\<open>sfu_net_send\<close>: its bytes and the destination.\<close>

record net_packet =
  np_data :: bytes
  np_dst :: bytes
  np_dst_len :: nat

record send_io =
  io_cap :: "nat option"
  io_accepted :: bool
  io_clock :: int

text \<open>The session's invariant the queues rely on.\<close>

definition session_inv :: "sfu_peer_session \<Rightarrow> bool" where
  "session_inv s \<longleftrightarrow> pacer_inv (session_pacer s) \<and>
     (\<forall>h. session_history s = Some h \<longrightarrow> length h = SFU_TWCC_HISTORY_CAPACITY) \<and>
     (\<forall>c. session_rtx_cache s = Some c \<longrightarrow> rtx_cache_inv c)"

lemma owner_set:
  "sfu_session_owner_worker (fst (sfu_session_set_owner_worker s w)) = w \<and>
   sfu_session_owner_generation (fst (sfu_session_set_owner_worker s w)) =
     take_bit 48 (sfu_session_owner_generation s + 1)"
proof -
  have "ucast (push_bit 16 g OR ucast w :: u64) = w" for g :: u64
    by (rule bit_word_eqI) (auto simp: bit_simps)
  moreover have "drop_bit 16 (push_bit 16 g OR ucast w :: u64) = take_bit 48 g" for g :: u64
    by (rule bit_word_eqI) (auto simp: bit_simps dest: bit_imp_le_length)
  ultimately show ?thesis
    by (simp add: sfu_session_owner_worker_def sfu_session_owner_generation_def sfu_session_owner_value_def
        sfu_session_set_owner_worker_def Let_def)
qed

end
