(* ===== verification/Paced_Priority.thy ===== *)
theory Paced_Priority
  imports Egress_Session
begin

text \<open>
  The priority queues of the egress path, one for retransmissions and one for bandwidth probes
  (\<^verbatim>\<open>sfu_paced_priority_queue_*\<close> of \<^verbatim>\<open>src/src/pipeline/paced_send.c\<close>): a bounded circular buffer of
  packets that a drain sends in order, dropping the stale and the expired ones and refunding
  their retransmission budget.

  An entry keeps the \<^verbatim>\<open>len\<close> bytes copied into its array; the zero rest of the array is never read.
  The counters of the ring are natural numbers: they are bounded by the capacity, and the byte
  count by 128 packets of 2048 bytes.
\<close>

section \<open>State\<close>

abbreviation SFU_PACED_SEND_MAX_PAYLOAD :: u16 where "SFU_PACED_SEND_MAX_PAYLOAD \<equiv> 2048"
abbreviation SFU_PACED_PRIORITY_QUEUE_CAPACITY :: nat where "SFU_PACED_PRIORITY_QUEUE_CAPACITY \<equiv> 128"

record sfu_paced_priority_entry =
  pe_data :: bytes
  pe_len :: u16
  pe_dst :: bytes
  pe_dst_len :: nat
  pe_enqueued_at_us :: int
  pe_owner_value :: u64
  pe_transport_generation :: u32
  pe_address_generation :: u32
  pe_twcc_seq :: u16
  pe_twcc_written :: bool
  pe_pacer_charged_bytes :: u32
  pe_is_probe :: bool
  pe_probe_cluster_id :: u32

record sfu_paced_priority_queue =
  pq_entries :: "sfu_paced_priority_entry list option"
  pq_capacity :: nat
  pq_head :: nat
  pq_tail :: nat
  pq_count :: nat
  pq_byte_count :: nat
  pq_max_bytes :: nat
  pq_max_residence_us :: int
  pq_is_probe_queue :: bool
  pq_enqueued :: u64
  pq_sent :: u64
  pq_dropped_full :: u64
  pq_dropped_expired :: u64
  pq_dropped_stale :: u64
  pq_bytes_sent :: u64

definition priority_entry_zero :: sfu_paced_priority_entry where
  "priority_entry_zero = \<lparr>pe_data = [], pe_len = 0, pe_dst = [], pe_dst_len = 0, pe_enqueued_at_us = 0,
     pe_owner_value = 0, pe_transport_generation = 0, pe_address_generation = 0, pe_twcc_seq = 0,
     pe_twcc_written = False, pe_pacer_charged_bytes = 0, pe_is_probe = False, pe_probe_cluster_id = 0\<rparr>"

definition priority_queue_zero :: sfu_paced_priority_queue where
  "priority_queue_zero = \<lparr>pq_entries = None, pq_capacity = 0, pq_head = 0, pq_tail = 0, pq_count = 0,
     pq_byte_count = 0, pq_max_bytes = 0, pq_max_residence_us = 0, pq_is_probe_queue = False,
     pq_enqueued = 0, pq_sent = 0, pq_dropped_full = 0, pq_dropped_expired = 0, pq_dropped_stale = 0,
     pq_bytes_sent = 0\<rparr>"

section \<open>Operations\<close>

definition sfu_paced_priority_queue_init :: "bool \<Rightarrow> int \<Rightarrow> nat \<Rightarrow> sfu_paced_priority_queue" where
  "sfu_paced_priority_queue_init is_probe_queue max_residence_us max_bytes =
     priority_queue_zero\<lparr>pq_is_probe_queue := is_probe_queue, pq_max_residence_us := max_residence_us,
       pq_max_bytes := max_bytes\<rparr>"

text \<open>The loop that gives the charges of the queued entries back to the pacer.\<close>

fun refund_queued ::
    "nat \<Rightarrow> nat \<Rightarrow> nat \<Rightarrow> sfu_paced_priority_entry list \<Rightarrow> sfu_pacer \<Rightarrow> sfu_pacer option" where
  "refund_queued 0 index cap es p = Some p"
| "refund_queued (Suc n) index cap es p = do {
     e \<leftarrow> aget es index;
     let p = (if pe_pacer_charged_bytes e > 0 then sfu_pacer_rtx_refund p (pe_pacer_charged_bytes e) else p);
     refund_queued n ((index + 1) mod cap) cap es p
   }"

definition refund_all :: "sfu_paced_priority_queue \<Rightarrow> sfu_pacer option \<Rightarrow> sfu_pacer option option" where
  "refund_all q pacer_to_refund =
     (case (pq_entries q, pacer_to_refund) of
        (Some es, Some p) \<Rightarrow> do {
          p \<leftarrow> refund_queued (pq_count q) (pq_head q) (pq_capacity q) es p;
          Some (Some p)
        }
      | _ \<Rightarrow> Some pacer_to_refund)"

definition sfu_paced_priority_queue_destroy ::
    "sfu_paced_priority_queue \<Rightarrow> sfu_pacer option \<Rightarrow> (sfu_paced_priority_queue \<times> sfu_pacer option) option" where
  "sfu_paced_priority_queue_destroy q pacer_to_refund = do {
     p \<leftarrow> refund_all q pacer_to_refund;
     Some (priority_queue_zero, p)
   }"

definition sfu_paced_priority_queue_clear ::
    "sfu_paced_priority_queue \<Rightarrow> sfu_pacer option \<Rightarrow> (sfu_paced_priority_queue \<times> sfu_pacer option) option" where
  "sfu_paced_priority_queue_clear q pacer_to_refund = do {
     p \<leftarrow> refund_all q pacer_to_refund;
     Some (q\<lparr>pq_head := 0, pq_tail := 0, pq_count := 0, pq_byte_count := 0\<rparr>, p)
   }"

text \<open>The two enqueue functions: the lazy allocation (\<open>alloc_ok\<close> says whether \<^verbatim>\<open>calloc\<close> succeeds),
  the test for room, and the store at the tail.\<close>

definition priority_alloc :: "bool \<Rightarrow> sfu_paced_priority_queue \<Rightarrow> sfu_paced_priority_queue option" where
  "priority_alloc alloc_ok q =
     (case pq_entries q of
        Some es \<Rightarrow> Some q
      | None \<Rightarrow> if alloc_ok
          then Some (q\<lparr>pq_entries := Some (replicate SFU_PACED_PRIORITY_QUEUE_CAPACITY priority_entry_zero),
            pq_capacity := SFU_PACED_PRIORITY_QUEUE_CAPACITY\<rparr>)
          else None)"

definition priority_full :: "sfu_paced_priority_queue \<Rightarrow> u16 \<Rightarrow> bool" where
  "priority_full q len \<longleftrightarrow> pq_count q \<ge> pq_capacity q \<or>
     (pq_max_bytes q > 0 \<and> pq_byte_count q + unat len > pq_max_bytes q)"

definition priority_store ::
    "sfu_paced_priority_queue \<Rightarrow> sfu_paced_priority_entry \<Rightarrow> sfu_paced_priority_queue option" where
  "priority_store q e = do {
     es \<leftarrow> pq_entries q;
     es \<leftarrow> aset es (pq_tail q) e;
     Some (q\<lparr>pq_entries := Some es, pq_tail := (pq_tail q + 1) mod pq_capacity q, pq_count := pq_count q + 1,
       pq_byte_count := pq_byte_count q + unat (pe_len e), pq_enqueued := pq_enqueued q + 1\<rparr>)
   }"

definition sfu_paced_priority_queue_enqueue ::
    "bool \<Rightarrow> sfu_paced_priority_queue \<Rightarrow> bytes \<Rightarrow> u16 \<Rightarrow> bytes \<Rightarrow> nat \<Rightarrow> u64 \<Rightarrow> u32 \<Rightarrow> u32 \<Rightarrow> bool \<Rightarrow> u16 \<Rightarrow>
     u32 \<Rightarrow> int \<Rightarrow> (sfu_paced_priority_queue \<times> bool) option" where
  "sfu_paced_priority_queue_enqueue alloc_ok q data len dst dst_len owner_value transport_gen address_gen
       twcc_written twcc_seq pacer_charged_bytes now_us =
     (if len = 0 \<or> len > SFU_PACED_SEND_MAX_PAYLOAD \<or> dst_len = 0 then Some (q, False)
      else case priority_alloc alloc_ok q of
        None \<Rightarrow> Some (q, False)
      | Some q \<Rightarrow>
          if priority_full q len then Some (q\<lparr>pq_dropped_full := pq_dropped_full q + 1\<rparr>, False)
          else do {
            bs \<leftarrow> rd_bytes data 0 (unat len);
            q \<leftarrow> priority_store q \<lparr>pe_data = bs, pe_len = len, pe_dst = dst, pe_dst_len = dst_len,
              pe_enqueued_at_us = now_us, pe_owner_value = owner_value,
              pe_transport_generation = transport_gen, pe_address_generation = address_gen,
              pe_twcc_seq = twcc_seq, pe_twcc_written = twcc_written,
              pe_pacer_charged_bytes = pacer_charged_bytes, pe_is_probe = pq_is_probe_queue q,
              pe_probe_cluster_id = 0\<rparr>;
            Some (q, True)
          })"

definition sfu_paced_priority_queue_enqueue_probe ::
    "bool \<Rightarrow> sfu_paced_priority_queue \<Rightarrow> bytes \<Rightarrow> u16 \<Rightarrow> bytes \<Rightarrow> nat \<Rightarrow> u64 \<Rightarrow> u32 \<Rightarrow> u32 \<Rightarrow> bool \<Rightarrow> u16 \<Rightarrow>
     u32 \<Rightarrow> int \<Rightarrow> (sfu_paced_priority_queue \<times> bool) option" where
  "sfu_paced_priority_queue_enqueue_probe alloc_ok q data len dst dst_len owner_value transport_gen
       address_gen twcc_written twcc_seq probe_cluster_id now_us =
     (if len = 0 \<or> len > SFU_PACED_SEND_MAX_PAYLOAD \<or> dst_len = 0 then Some (q, False)
      else case priority_alloc alloc_ok q of
        None \<Rightarrow> Some (q, False)
      | Some q \<Rightarrow>
          if priority_full q len then Some (q\<lparr>pq_dropped_full := pq_dropped_full q + 1\<rparr>, False)
          else do {
            bs \<leftarrow> rd_bytes data 0 (unat len);
            q \<leftarrow> priority_store q \<lparr>pe_data = bs, pe_len = len, pe_dst = dst, pe_dst_len = dst_len,
              pe_enqueued_at_us = now_us, pe_owner_value = owner_value,
              pe_transport_generation = transport_gen, pe_address_generation = address_gen,
              pe_twcc_seq = twcc_seq, pe_twcc_written = twcc_written,
              pe_pacer_charged_bytes = 0, pe_is_probe = True, pe_probe_cluster_id = probe_cluster_id\<rparr>;
            Some (q, True)
          })"

definition priority_entry_valid :: "sfu_paced_priority_entry \<Rightarrow> sfu_peer_session \<Rightarrow> bool" where
  "priority_entry_valid e s \<longleftrightarrow>
     sfu_session_accepts_work s \<and> sfu_session_owner_value s = pe_owner_value e \<and>
     transport_generation s = pe_transport_generation e \<and>
     address_generation s = pe_address_generation e \<and> addr_len s = pe_dst_len e \<and>
     take (pe_dst_len e) (addr s) = take (pe_dst_len e) (pe_dst e)"

definition priority_expired :: "sfu_paced_priority_queue \<Rightarrow> sfu_paced_priority_entry \<Rightarrow> int \<Rightarrow> bool" where
  "priority_expired q e now_us \<longleftrightarrow> pq_max_residence_us q > 0 \<and> now_us > pe_enqueued_at_us e \<and>
     now_us - pe_enqueued_at_us e > pq_max_residence_us q"

text \<open>Removing the head entry, and the refund of an entry that is dropped.\<close>

definition priority_pop ::
    "sfu_paced_priority_queue \<Rightarrow> sfu_paced_priority_entry \<Rightarrow> sfu_paced_priority_queue" where
  "priority_pop q e = q\<lparr>
     pq_byte_count := (if pq_byte_count q \<ge> unat (pe_len e) then pq_byte_count q - unat (pe_len e) else 0),
     pq_head := (pq_head q + 1) mod pq_capacity q, pq_count := pq_count q - 1\<rparr>"

definition priority_refund :: "sfu_paced_priority_entry \<Rightarrow> sfu_peer_session \<Rightarrow> sfu_peer_session" where
  "priority_refund e s =
     (if pe_pacer_charged_bytes e > 0
      then s\<lparr>session_pacer := sfu_pacer_rtx_refund (session_pacer s) (pe_pacer_charged_bytes e)\<rparr> else s)"

definition accepted_time :: "int \<Rightarrow> send_io \<Rightarrow> int" where
  "accepted_time now_us io = (if now_us > 0 \<and> now_us \<le> 3000000000000000 then now_us else io_clock io)"

definition priority_record ::
    "sfu_paced_priority_queue \<Rightarrow> sfu_paced_priority_entry \<Rightarrow> int \<Rightarrow> sfu_peer_session \<Rightarrow> sfu_peer_session option" where
  "priority_record q e accepted_us s =
     (if pe_twcc_written e \<and> sfu_session_video_runtime_ready s
      then case session_history s of
          None \<Rightarrow> Some s
        | Some h \<Rightarrow> do {
            h \<leftarrow> (if pq_is_probe_queue q \<or> pe_is_probe e
                 then sfu_twcc_history_record_probe h (pe_twcc_seq e) accepted_us (ucast (pe_len e))
                        (pe_probe_cluster_id e)
                 else sfu_twcc_history_record h (pe_twcc_seq e) accepted_us (ucast (pe_len e)));
            Some (s\<lparr>session_history := Some h\<rparr>)
          }
      else Some s)"

text \<open>The drain loop: \<open>n\<close> is \<^verbatim>\<open>limit - processed\<close>, and the result has the packets sent and the number
  of entries processed.  A send with no answer left counts as a failed allocation.\<close>

fun priority_drain_loop ::
    "nat \<Rightarrow> sfu_paced_priority_queue \<Rightarrow> sfu_peer_session \<Rightarrow> int \<Rightarrow> send_io list \<Rightarrow>
     (sfu_paced_priority_queue \<times> sfu_peer_session \<times> net_packet list \<times> nat) option" where
  "priority_drain_loop 0 q s now_us ios = Some (q, s, [], 0)"
| "priority_drain_loop (Suc n) q s now_us ios =
     (if pq_count q = 0 then Some (q, s, [], 0)
      else do {
        es \<leftarrow> pq_entries q;
        e \<leftarrow> aget es (pq_head q);
        if \<not> priority_entry_valid e s then do {
          (q, s, out, k) \<leftarrow> priority_drain_loop n
            (priority_pop (q\<lparr>pq_dropped_stale := pq_dropped_stale q + 1\<rparr>) e) (priority_refund e s) now_us ios;
          Some (q, s, out, k + 1)
        }
        else if priority_expired q e now_us then do {
          (q, s, out, k) \<leftarrow> priority_drain_loop n
            (priority_pop (q\<lparr>pq_dropped_expired := pq_dropped_expired q + 1\<rparr>) e) (priority_refund e s) now_us ios;
          Some (q, s, out, k + 1)
        }
        else case ios of
          [] \<Rightarrow> Some (q, s, [], 0)
        | io # ios \<Rightarrow>
            (case io_cap io of
               None \<Rightarrow> Some (q, s, [], 0)
             | Some cap \<Rightarrow>
                 if unat (pe_len e) > cap \<or> \<not> io_accepted io then Some (q, s, [], 0)
                 else do {
                   bs \<leftarrow> rd_bytes (pe_data e) 0 (unat (pe_len e));
                   s \<leftarrow> priority_record q e (accepted_time now_us io) s;
                   (q, s, out, k) \<leftarrow> priority_drain_loop n
                     (priority_pop (q\<lparr>pq_sent := pq_sent q + 1, pq_bytes_sent := pq_bytes_sent q + ucast (pe_len e)\<rparr>) e)
                     s now_us ios;
                   Some (q, s, \<lparr>np_data = bs, np_dst = pe_dst e, np_dst_len = pe_dst_len e\<rparr> # out, k + 1)
                 })
      })"

text \<open>The result: the queue, the session, the packets sent, \<^verbatim>\<open>*remaining\<close> and \<^verbatim>\<open>did_work\<close>.\<close>

definition sfu_paced_priority_queue_drain ::
    "sfu_paced_priority_queue \<Rightarrow> sfu_peer_session \<Rightarrow> int \<Rightarrow> nat \<Rightarrow> send_io list \<Rightarrow>
     (sfu_paced_priority_queue \<times> sfu_peer_session \<times> net_packet list \<times> nat \<times> bool) option" where
  "sfu_paced_priority_queue_drain q s now_us remaining ios =
     (if remaining = 0 \<or> pq_entries q = None \<or> pq_count q = 0 then Some (q, s, [], remaining, False)
      else do {
        (q, s, out, processed) \<leftarrow> priority_drain_loop remaining q s now_us ios;
        let q = (if pq_count q = 0 then q\<lparr>pq_head := 0, pq_tail := 0, pq_byte_count := 0\<rparr> else q);
        Some (q, s, out, remaining - processed, processed > 0)
      })"

section \<open>The queue as a list\<close>

definition priority_items :: "sfu_paced_priority_queue \<Rightarrow> sfu_paced_priority_entry list" where
  "priority_items q = (case pq_entries q of None \<Rightarrow> [] | Some es \<Rightarrow> ring es (pq_head q) (pq_count q))"

definition priority_entry_ok :: "sfu_paced_priority_entry \<Rightarrow> bool" where
  "priority_entry_ok e \<longleftrightarrow> length (pe_data e) = unat (pe_len e) \<and> 0 < pe_len e \<and>
     pe_len e \<le> SFU_PACED_SEND_MAX_PAYLOAD"

definition priority_bytes :: "sfu_paced_priority_entry list \<Rightarrow> nat" where
  "priority_bytes es = sum_list (map (\<lambda>e. unat (pe_len e)) es)"

definition priority_inv :: "sfu_paced_priority_queue \<Rightarrow> bool" where
  "priority_inv q \<longleftrightarrow>
     (case pq_entries q of
        None \<Rightarrow> pq_head q = 0 \<and> pq_tail q = 0 \<and> pq_count q = 0
      | Some es \<Rightarrow> length es = SFU_PACED_PRIORITY_QUEUE_CAPACITY \<and>
          pq_capacity q = SFU_PACED_PRIORITY_QUEUE_CAPACITY \<and>
          pq_head q < SFU_PACED_PRIORITY_QUEUE_CAPACITY \<and> pq_count q \<le> SFU_PACED_PRIORITY_QUEUE_CAPACITY \<and>
          pq_tail q = (pq_head q + pq_count q) mod SFU_PACED_PRIORITY_QUEUE_CAPACITY) \<and>
     pq_byte_count q = priority_bytes (priority_items q) \<and> list_all priority_entry_ok (priority_items q) \<and>
     (pq_max_bytes q > 0 \<longrightarrow> pq_byte_count q \<le> pq_max_bytes q)"

text \<open>The statistics of a queue are not part of its invariant, and the pacer and the history of a
  session do not decide whether an entry is valid.\<close>

lemma priority_stats [simp]:
  "priority_items (q\<lparr>pq_dropped_stale := n\<rparr>) = priority_items q"
  "priority_items (q\<lparr>pq_dropped_expired := n\<rparr>) = priority_items q"
  "priority_items (q\<lparr>pq_dropped_full := n\<rparr>) = priority_items q"
  "priority_items (q\<lparr>pq_sent := n, pq_bytes_sent := m\<rparr>) = priority_items q"
  "priority_inv (q\<lparr>pq_dropped_stale := n\<rparr>) = priority_inv q"
  "priority_inv (q\<lparr>pq_dropped_expired := n\<rparr>) = priority_inv q"
  "priority_inv (q\<lparr>pq_dropped_full := n\<rparr>) = priority_inv q"
  "priority_inv (q\<lparr>pq_sent := n, pq_bytes_sent := m\<rparr>) = priority_inv q"
  by (simp_all add: priority_items_def priority_inv_def split: option.splits)

definition same_peer :: "sfu_peer_session \<Rightarrow> sfu_peer_session \<Rightarrow> bool" where
  "same_peer s s' \<longleftrightarrow> accepts_work s' = accepts_work s \<and> worker_owner s' = worker_owner s \<and>
     transport_generation s' = transport_generation s \<and> address_generation s' = address_generation s \<and>
     addr s' = addr s \<and> addr_len s' = addr_len s \<and>
     applied_assignment_generations s' = applied_assignment_generations s"

lemma same_peer_refl [simp]: "same_peer s s"
  by (simp add: same_peer_def)

lemma same_peer_trans: "same_peer s s' \<Longrightarrow> same_peer s' s'' \<Longrightarrow> same_peer s s''"
  by (simp add: same_peer_def)

lemma same_peer_valid: "same_peer s s' \<Longrightarrow> priority_entry_valid e s' = priority_entry_valid e s"
  by (simp add: same_peer_def priority_entry_valid_def sfu_session_accepts_work_def
      sfu_session_owner_value_def)

lemma priority_items_Cons:
  assumes "priority_inv q" "pq_count q \<noteq> 0"
  obtains es where "pq_entries q = Some es" "pq_head q < length es"
    "priority_items q = es ! pq_head q # ring es ((pq_head q + 1) mod length es) (pq_count q - 1)"
  using assms by (auto simp: priority_inv_def priority_items_def ring_pop split: option.splits)

lemma priority_pop_law:
  assumes "priority_inv q" "pq_count q \<noteq> 0" "priority_items q = e # es"
  shows "priority_inv (priority_pop q e) \<and> priority_items (priority_pop q e) = es"
proof -
  obtain a where a: "pq_entries q = Some a" "pq_head q < length a"
    "priority_items q = a ! pq_head q # ring a ((pq_head q + 1) mod length a) (pq_count q - 1)"
    by (rule priority_items_Cons [OF assms(1,2)])
  then have len: "length a = 128" "pq_capacity q = 128" "pq_count q \<le> 128"
      "pq_tail q = (pq_head q + pq_count q) mod 128"
      "pq_byte_count q = unat (pe_len e) + priority_bytes es" "list_all priority_entry_ok es"
    using assms by (auto simp: priority_inv_def priority_bytes_def)
  have items: "priority_items (priority_pop q e) = es"
    using a len assms(3) by (simp add: priority_items_def priority_pop_def)
  have "((pq_head q + 1) mod 128 + (pq_count q - 1)) mod 128 = (pq_head q + pq_count q) mod 128"
    using assms(2) by (subst mod_add_left_eq) simp
  then have "priority_inv (priority_pop q e)"
    using items a(1) len assms(1) unfolding priority_inv_def items
    by (auto simp: priority_pop_def)
  then show ?thesis
    using items by simp
qed

lemma priority_store_law:
  assumes "priority_inv q" "pq_entries q \<noteq> None" "\<not> priority_full q (pe_len e)" "priority_entry_ok e"
  shows "ok (priority_store q e) (\<lambda>q'. priority_inv q' \<and> priority_items q' = priority_items q @ [e])"
proof -
  obtain es where es: "pq_entries q = Some es"
    using assms(2) by blast
  have len: "length es = 128" "pq_capacity q = 128" "pq_head q < 128" "pq_count q < 128"
      "pq_tail q = (pq_head q + pq_count q) mod 128"
    using assms(1,3) es by (auto simp: priority_inv_def priority_full_def)
  define q' where "q' = q\<lparr>pq_entries := Some (es[pq_tail q := e]), pq_tail := (pq_tail q + 1) mod pq_capacity q,
    pq_count := pq_count q + 1, pq_byte_count := pq_byte_count q + unat (pe_len e),
    pq_enqueued := pq_enqueued q + 1\<rparr>"
  have store: "priority_store q e = Some q'"
    using es len by (simp add: priority_store_def q'_def)
  have items: "priority_items q' = priority_items q @ [e]"
    using es len ring_push [of "pq_count q" es "pq_head q" e] by (simp add: priority_items_def q'_def)
  have "((pq_head q + pq_count q) mod 128 + 1) mod 128 = (pq_head q + (pq_count q + 1)) mod 128"
    by (subst mod_add_left_eq) (simp add: add.assoc)
  then have "priority_inv q'"
    using assms len es unfolding priority_inv_def items
    by (auto simp: q'_def priority_full_def priority_bytes_def)
  then show ?thesis
    using store items by (simp add: ok_simps)
qed

lemma priority_alloc_law:
  "priority_inv q \<Longrightarrow> priority_alloc alloc_ok q = Some q' \<Longrightarrow>
   priority_inv q' \<and> priority_items q' = priority_items q \<and> pq_entries q' \<noteq> None"
  by (auto simp: priority_alloc_def priority_inv_def priority_items_def split: option.splits if_splits)

section \<open>What a drain does\<close>

definition priority_deliverable :: "sfu_paced_priority_queue \<Rightarrow> sfu_peer_session \<Rightarrow> int \<Rightarrow> sfu_paced_priority_entry \<Rightarrow> bool" where
  "priority_deliverable q s now_us e \<longleftrightarrow> priority_entry_valid e s \<and> \<not> priority_expired q e now_us"

definition priority_packet :: "sfu_paced_priority_entry \<Rightarrow> net_packet" where
  "priority_packet e = \<lparr>np_data = pe_data e, np_dst = pe_dst e, np_dst_len = pe_dst_len e\<rparr>"

definition priority_refunds :: "sfu_pacer \<Rightarrow> sfu_paced_priority_entry list \<Rightarrow> sfu_pacer" where
  "priority_refunds p es = foldl (\<lambda>p e. if pe_pacer_charged_bytes e > 0
     then sfu_pacer_rtx_refund p (pe_pacer_charged_bytes e) else p) p es"

definition io_ready :: "send_io \<Rightarrow> bool" where
  "io_ready io \<longleftrightarrow> io_accepted io \<and> (case io_cap io of None \<Rightarrow> False | Some cap \<Rightarrow> 2048 \<le> cap)"

text \<open>The contract of a drain that processes the first \<open>k\<close> of the queued entries.\<close>

definition priority_drained ::
    "sfu_paced_priority_queue \<Rightarrow> sfu_peer_session \<Rightarrow> int \<Rightarrow> nat \<Rightarrow> send_io list \<Rightarrow>
     sfu_paced_priority_queue \<Rightarrow> sfu_peer_session \<Rightarrow> net_packet list \<Rightarrow> nat \<Rightarrow> bool" where
  "priority_drained q s now_us n ios q' s' out k \<longleftrightarrow>
     (let done = take k (priority_items q)
      in k \<le> n \<and> k \<le> length (priority_items q) \<and> priority_items q' = drop k (priority_items q) \<and>
         out = map priority_packet (filter (priority_deliverable q s now_us) done) \<and>
         session_pacer s' = priority_refunds (session_pacer s)
           (filter (\<lambda>e. \<not> priority_deliverable q s now_us e) done) \<and>
         same_peer s s' \<and>
         (list_all io_ready ios \<and> n \<le> length ios \<longrightarrow> k = min n (length (priority_items q))))"

lemma priority_drained_0:
  "n = 0 \<or> priority_items q = [] \<or> \<not> (list_all io_ready ios \<and> n \<le> length ios) \<Longrightarrow>
   priority_drained q s now_us n ios q s [] 0"
  by (auto simp: priority_drained_def priority_refunds_def)

lemma priority_drained_Suc:
  assumes "priority_items q = e # es" "priority_items q1 = es" "pq_max_residence_us q1 = pq_max_residence_us q"
    "priority_drained q1 s1 now_us n ios1 q' s' out k" "same_peer s s1"
    "out' = (if priority_deliverable q s now_us e then priority_packet e # out else out)"
    "session_pacer s1 = (if priority_deliverable q s now_us e then session_pacer s
       else priority_refunds (session_pacer s) [e])"
    "list_all io_ready ios \<and> Suc n \<le> length ios \<Longrightarrow> list_all io_ready ios1 \<and> n \<le> length ios1"
  shows "priority_drained q s now_us (Suc n) ios q' s' out' (k + 1)"
proof -
  have deliv: "priority_deliverable q1 s1 now_us = priority_deliverable q s now_us"
    using assms(3) same_peer_valid [OF assms(5)]
    by (auto simp: fun_eq_iff priority_deliverable_def priority_expired_def)
  show ?thesis
    using assms(4-) unfolding priority_drained_def Let_def deliv assms(1,2)
    by (auto simp: priority_refunds_def One_nat_def intro: same_peer_trans)
qed

lemma session_inv_refund: "session_inv s \<Longrightarrow> session_inv (priority_refund e s)"
  by (simp add: session_inv_def priority_refund_def pacer_inv_rtx)

lemma priority_refund_frame:
  "same_peer s (priority_refund e s) \<and> session_pacer (priority_refund e s) = priority_refunds (session_pacer s) [e]"
  by (simp add: priority_refund_def same_peer_def priority_refunds_def)

lemma priority_record_ok:
  assumes "session_inv s"
  shows "ok (priority_record q e t s) (\<lambda>s'. session_inv s' \<and> same_peer s s' \<and> session_pacer s' = session_pacer s)"
  using assms
  by (auto simp: priority_record_def sfu_twcc_history_record_def sfu_twcc_history_record_probe_def
      ok_simps session_inv_def same_peer_def history_idx_less split: option.splits)

lemma priority_pop_residence [simp]: "pq_max_residence_us (priority_pop q e) = pq_max_residence_us q"
  by (simp add: priority_pop_def)

definition priority_post ::
    "sfu_paced_priority_queue \<Rightarrow> sfu_peer_session \<Rightarrow> int \<Rightarrow> nat \<Rightarrow> send_io list \<Rightarrow>
     sfu_paced_priority_queue \<times> sfu_peer_session \<times> net_packet list \<times> nat \<Rightarrow> bool" where
  "priority_post q s now_us n ios = (\<lambda>(q', s', out, k).
     priority_inv q' \<and> session_inv s' \<and> priority_drained q s now_us n ios q' s' out k)"

lemma priority_post_stop:
  "priority_inv q \<Longrightarrow> session_inv s \<Longrightarrow>
   n = 0 \<or> priority_items q = [] \<or> \<not> (list_all io_ready ios \<and> n \<le> length ios) \<Longrightarrow>
   ok (Some (q, s, [], 0)) (priority_post q s now_us n ios)"
  by (auto simp: ok_simps priority_post_def intro: priority_drained_0)

lemma priority_post_drop:
  assumes "priority_items q = e # es" "ok m (priority_post q1 (priority_refund e s) now_us n ios)"
    "priority_items q1 = es" "pq_max_residence_us q1 = pq_max_residence_us q"
    "\<not> priority_deliverable q s now_us e"
  shows "ok (do { (q, s, out, k) \<leftarrow> m; Some (q, s, out, k + 1) }) (priority_post q s now_us (Suc n) ios)"
proof (rule ok_bindI [OF assms(2)], clarsimp simp: ok_simps priority_post_def)
  fix q' s' out k
  assume d: "priority_drained q1 (priority_refund e s) now_us n ios q' s' out k"
  show "priority_drained q s now_us (Suc n) ios q' s' out (k + 1)"
    by (rule priority_drained_Suc [OF assms(1,3,4) d]) (use assms priority_refund_frame [of s e] in simp_all)
qed

lemma priority_post_send:
  assumes "priority_items q = e # es" "ok m (priority_post q1 s1 now_us n ios)"
    "priority_items q1 = es" "pq_max_residence_us q1 = pq_max_residence_us q"
    "priority_deliverable q s now_us e" "same_peer s s1" "session_pacer s1 = session_pacer s"
  shows "ok (do { (q, s, out, k) \<leftarrow> m; Some (q, s, priority_packet e # out, k + 1) })
    (priority_post q s now_us (Suc n) (io # ios))"
proof (rule ok_bindI [OF assms(2)], clarsimp simp: ok_simps priority_post_def)
  fix q' s' out k
  assume d: "priority_drained q1 s1 now_us n ios q' s' out k"
  show "priority_drained q s now_us (Suc n) (io # ios) q' s' (priority_packet e # out) (k + 1)"
    by (rule priority_drained_Suc [OF assms(1,3,4) d]) (use assms in simp_all)
qed

lemma priority_drain_loop_ok:
  "priority_inv q \<Longrightarrow> session_inv s \<Longrightarrow> ok (priority_drain_loop n q s now_us ios) (priority_post q s now_us n ios)"
proof (induction n arbitrary: q s ios)
  case 0
  then show ?case
    by (simp add: priority_post_stop)
next
  case (Suc n)
  show ?case
  proof (cases "pq_count q = 0")
    case True
    then show ?thesis
      using Suc.prems priority_post_stop [of q s]
      by (simp add: priority_items_def split: option.splits)
  next
    case False
    obtain a where a: "pq_entries q = Some a" "pq_head q < length a"
      "priority_items q = a ! pq_head q # ring a ((pq_head q + 1) mod length a) (pq_count q - 1)"
      by (rule priority_items_Cons [OF Suc.prems(1) False])
    define e es where "e = a ! pq_head q" and "es = ring a ((pq_head q + 1) mod length a) (pq_count q - 1)"
    note items = a(3) [folded e_def es_def] and head = aget_in [OF a(2), folded e_def]
    have pop: "priority_inv (priority_pop q' e)" "priority_items (priority_pop q' e) = es"
      if "priority_inv q'" "pq_count q' \<noteq> 0" "priority_items q' = e # es" for q'
      using priority_pop_law [OF that] by simp_all
    have e_ok: "length (pe_data e) = unat (pe_len e)" "unat (pe_len e) \<le> 2048"
      using Suc.prems(1) items by (auto simp: priority_inv_def priority_entry_ok_def word_le_nat_alt)
    show ?thesis
    proof (cases "priority_deliverable q s now_us e")
      case False
      then show ?thesis
        unfolding priority_drain_loop.simps
        using \<open>pq_count q \<noteq> 0\<close> Suc.prems items
        by (simp add: a(1) head) (auto simp: priority_deliverable_def
          intro!: priority_post_drop [OF items] Suc.IH session_inv_refund pop)
    next
      case True
      then have live: "priority_entry_valid e s" "\<not> priority_expired q e now_us"
        by (simp_all add: priority_deliverable_def)
      show ?thesis
      proof (cases "\<exists>io ios' cap. ios = io # ios' \<and> io_cap io = Some cap \<and> unat (pe_len e) \<le> cap \<and> io_accepted io")
        case False
        then have "\<not> (list_all io_ready ios \<and> Suc n \<le> length ios)"
          using e_ok(2) by (cases ios) (fastforce simp: io_ready_def split: option.splits)+
        then have "ok (Some (q, s, [], 0)) (priority_post q s now_us (Suc n) ios)"
          using Suc.prems by (intro priority_post_stop) simp_all
        then show ?thesis
          unfolding priority_drain_loop.simps using False \<open>pq_count q \<noteq> 0\<close> live
          by (auto simp: a(1) head not_less split: list.splits option.splits)
      next
        case True
        then obtain io ios' cap where io: "ios = io # ios'" "io_cap io = Some cap" "unat (pe_len e) \<le> cap" "io_accepted io"
          by blast
        have "take (unat (pe_len e)) (pe_data e) = pe_data e"
          using e_ok by simp
        then show ?thesis
          unfolding priority_drain_loop.simps using \<open>pq_count q \<noteq> 0\<close> live io e_ok Suc.prems items
            \<open>priority_deliverable q s now_us e\<close>
          by (simp add: a(1) head) (rule ok_bindI [OF priority_record_ok], auto
            intro!: priority_post_send [OF items, unfolded priority_packet_def] Suc.IH pop)
      qed
    qed
  qed
qed

lemma priority_reset:
  "priority_inv q \<Longrightarrow> pq_count q = 0 \<Longrightarrow> priority_inv (q\<lparr>pq_head := 0, pq_tail := 0, pq_byte_count := 0\<rparr>) \<and>
   priority_items (q\<lparr>pq_head := 0, pq_tail := 0, pq_byte_count := 0\<rparr>) = priority_items q"
  by (auto simp: priority_inv_def priority_items_def priority_bytes_def split: option.splits)

lemma priority_items_length: "priority_inv q \<Longrightarrow> length (priority_items q) = pq_count q"
  by (auto simp: priority_inv_def priority_items_def split: option.splits)

lemma priority_alloc_frame:
  "priority_alloc alloc_ok q = Some q' \<Longrightarrow>
   pq_is_probe_queue q' = pq_is_probe_queue q \<and> pq_max_bytes q' = pq_max_bytes q \<and> pq_byte_count q' = pq_byte_count q"
  by (auto simp: priority_alloc_def split: option.splits if_splits)

lemma priority_alloc_None: "priority_alloc alloc_ok q = None \<longleftrightarrow> pq_entries q = None \<and> \<not> alloc_ok"
  by (auto simp: priority_alloc_def split: option.splits)

definition priority_room :: "bool \<Rightarrow> sfu_paced_priority_queue \<Rightarrow> u16 \<Rightarrow> nat \<Rightarrow> bool" where
  "priority_room alloc_ok q len dst_len \<longleftrightarrow> 0 < len \<and> len \<le> SFU_PACED_SEND_MAX_PAYLOAD \<and> 0 < dst_len \<and>
     (pq_entries q \<noteq> None \<or> alloc_ok) \<and> length (priority_items q) < SFU_PACED_PRIORITY_QUEUE_CAPACITY \<and>
     (pq_max_bytes q > 0 \<longrightarrow> priority_bytes (priority_items q) + unat len \<le> pq_max_bytes q)"

lemma priority_full_room:
  assumes "priority_inv q" "priority_alloc alloc_ok q = Some q'" "0 < len" "len \<le> SFU_PACED_SEND_MAX_PAYLOAD" "0 < dst_len"
  shows "\<not> priority_full q' len \<longleftrightarrow> priority_room alloc_ok q len dst_len"
proof -
  note law = priority_alloc_law [OF assms(1,2)] and frame = priority_alloc_frame [OF assms(2)]
  have "pq_capacity q' = 128"
    using law by (auto simp: priority_inv_def split: option.splits)
  moreover have "pq_byte_count q' = priority_bytes (priority_items q)" "pq_count q' = length (priority_items q)"
    using law frame assms(1) by (auto simp: priority_items_length [symmetric] priority_inv_def)
  moreover have "pq_entries q \<noteq> None \<or> alloc_ok"
    using assms(2) priority_alloc_None [of alloc_ok q] by auto
  ultimately show ?thesis
    using frame assms(3-) by (auto simp: priority_full_def priority_room_def)
qed

text \<open>Both enqueue functions build their entry from the same packet.\<close>

lemma priority_enqueue_step:
  assumes "priority_inv q" "unat len \<le> length data"
    "\<And>p bs. e p bs = (f p)\<lparr>pe_data := bs, pe_len := len\<rparr>"
  shows "ok (if len = 0 \<or> len > SFU_PACED_SEND_MAX_PAYLOAD \<or> dst_len = 0 then Some (q, False)
      else case priority_alloc alloc_ok q of
        None \<Rightarrow> Some (q, False)
      | Some q \<Rightarrow>
          if priority_full q len then Some (q\<lparr>pq_dropped_full := pq_dropped_full q + 1\<rparr>, False)
          else do {
            bs \<leftarrow> rd_bytes data 0 (unat len);
            q \<leftarrow> priority_store q (e (pq_is_probe_queue q) bs);
            Some (q, True)
          })
     (\<lambda>(q', accepted). priority_inv q' \<and> accepted = priority_room alloc_ok q len dst_len \<and>
       priority_items q' = (if accepted
         then priority_items q @ [e (pq_is_probe_queue q) (take (unat len) data)] else priority_items q))"
proof (cases "len = 0 \<or> len > SFU_PACED_SEND_MAX_PAYLOAD \<or> dst_len = 0")
  case True
  then show ?thesis
    using assms(1) by (auto simp: ok_simps priority_room_def)
next
  case False
  then have len: "0 < len" "len \<le> SFU_PACED_SEND_MAX_PAYLOAD" "0 < dst_len"
    by (auto simp: word_gt_0)
  show ?thesis
  proof (cases "priority_alloc alloc_ok q")
    case None
    then have "\<not> priority_room alloc_ok q len dst_len"
      by (simp add: priority_room_def priority_alloc_None)
    then show ?thesis
      using False assms(1) by (simp add: None ok_simps)
  next
    case (Some q1)
    note law = priority_alloc_law [OF assms(1) Some] and frame = priority_alloc_frame [OF Some]
      and room = priority_full_room [OF assms(1) Some len]
    have "priority_entry_ok (e p (take (unat len) data))" "pe_len (e p (take (unat len) data)) = len" for p
      using assms(2,3) len by (simp_all add: priority_entry_ok_def)
    then have "ok (priority_store q1 (e (pq_is_probe_queue q1) (take (unat len) data)))
        (\<lambda>q'. priority_inv q' \<and> priority_items q' = priority_items q1 @ [e (pq_is_probe_queue q1) (take (unat len) data)])"
      if "\<not> priority_full q1 len"
      using law that by (intro priority_store_law) auto
    then show ?thesis
      using False Some law frame room assms(2) by (auto simp: ok_simps elim!: ok_mono)
  qed
qed

lemma priority_refund_fold:
  "h < length es \<Longrightarrow> cap = length es \<Longrightarrow>
   refund_queued n h cap es p = Some (priority_refunds p (ring es h n))"
proof (induction n arbitrary: h p)
  case (Suc n)
  then have "(h + 1) mod length es < length es"
    by (intro mod_below [of h])
  then show ?case
    using Suc by (simp add: ring_pop [of "Suc n"] priority_refunds_def)
qed (simp add: priority_refunds_def)

lemma priority_refund_all:
  "priority_inv q \<Longrightarrow> refund_all q p = Some (map_option (\<lambda>p. priority_refunds p (priority_items q)) p)"
  by (cases p) (auto simp: refund_all_def priority_inv_def priority_items_def priority_refund_fold
      priority_refunds_def split: option.splits)

section \<open>Properties\<close>

text \<open>Property C8.  Draining a priority queue makes no invalid access and processes the first \<open>k\<close>
  queued entries, with \<open>k\<close> at most the budget: it sends, in order and with their exact bytes and
  destination, the ones that are valid for the session and not expired, gives the
  retransmission charge of every other one back to the pacer, and leaves the remaining entries queued
  in order.  When the network accepts every packet it processes the whole budget or empties the queue.\<close>

theorem priority_drain_correct:
  assumes "priority_inv q" "session_inv s"
  shows "\<exists>q' s' out k. sfu_paced_priority_queue_drain q s now_us remaining ios =
      Some (q', s', out, remaining - k, k > 0) \<and>
    priority_inv q' \<and> session_inv s' \<and> k \<le> remaining \<and>
    priority_items q' = drop k (priority_items q) \<and>
    out = map priority_packet (filter (priority_deliverable q s now_us) (take k (priority_items q))) \<and>
    session_pacer s' = priority_refunds (session_pacer s)
      (filter (\<lambda>e. \<not> priority_deliverable q s now_us e) (take k (priority_items q))) \<and>
    (list_all io_ready ios \<and> remaining \<le> length ios \<longrightarrow> k = min remaining (length (priority_items q)))"
proof (cases "remaining = 0 \<or> pq_entries q = None \<or> pq_count q = 0")
  case True
  then have "priority_items q = [] \<or> remaining = 0"
    by (auto simp: priority_items_def split: option.splits)
  then show ?thesis
    using True assms by (intro exI [of _ q] exI [of _ s] exI [of _ "[]"] exI [of _ 0])
      (auto simp: sfu_paced_priority_queue_drain_def priority_refunds_def)
next
  case False
  obtain q' s' out k where loop: "priority_drain_loop remaining q s now_us ios = Some (q', s', out, k)"
      "priority_inv q'" "session_inv s'" "priority_drained q s now_us remaining ios q' s' out k"
    using priority_drain_loop_ok [OF assms, of remaining now_us ios] by (auto simp: ok_def priority_post_def)
  define q'' where "q'' = (if pq_count q' = 0 then q'\<lparr>pq_head := 0, pq_tail := 0, pq_byte_count := 0\<rparr> else q')"
  have "priority_inv q''" "priority_items q'' = priority_items q'"
    using loop(2) priority_reset [OF loop(2)] by (simp_all add: q''_def)
  moreover have "sfu_paced_priority_queue_drain q s now_us remaining ios = Some (q'', s', out, remaining - k, k > 0)"
    using False loop(1) by (auto simp: sfu_paced_priority_queue_drain_def q''_def)
  ultimately show ?thesis
    using loop(3,4) by (intro exI [of _ q''] exI [of _ s'] exI [of _ out] exI [of _ k])
      (simp add: priority_drained_def Let_def)
qed



text \<open>Everything that can happen to the queue of a session.\<close>

inductive priority_reach :: "nat \<Rightarrow> sfu_paced_priority_queue \<Rightarrow> bool" for max_bytes where
  init: "priority_reach max_bytes (sfu_paced_priority_queue_init is_probe residence max_bytes)"
| enqueue: "priority_reach max_bytes q \<Longrightarrow> unat len \<le> length data \<Longrightarrow>
    sfu_paced_priority_queue_enqueue alloc_ok q data len dst dst_len owner tgen agen written seq charged now =
      Some (q', accepted) \<Longrightarrow> priority_reach max_bytes q'"
| enqueue_probe: "priority_reach max_bytes q \<Longrightarrow> unat len \<le> length data \<Longrightarrow>
    sfu_paced_priority_queue_enqueue_probe alloc_ok q data len dst dst_len owner tgen agen written seq cluster now =
      Some (q', accepted) \<Longrightarrow> priority_reach max_bytes q'"
| drain: "priority_reach max_bytes q \<Longrightarrow> session_inv s \<Longrightarrow>
    sfu_paced_priority_queue_drain q s now remaining ios = Some (q', s', out, left, worked) \<Longrightarrow>
    priority_reach max_bytes q'"
| clear: "priority_reach max_bytes q \<Longrightarrow>
    sfu_paced_priority_queue_clear q pacer = Some (q', pacer') \<Longrightarrow> priority_reach max_bytes q'"

text \<open>Property C33.  Clearing or destroying a queue gives back the retransmission charge of every entry
  still queued, once each, leaves the queue empty, and touches no pacer when none is given.\<close>

theorem priority_teardown_refunds:
  assumes "priority_inv q"
  shows "\<exists>q'. sfu_paced_priority_queue_clear q p =
      Some (q', map_option (\<lambda>p. priority_refunds p (priority_items q)) p) \<and>
    priority_inv q' \<and> priority_items q' = [] \<and>
    sfu_paced_priority_queue_destroy q p =
      Some (priority_queue_zero, map_option (\<lambda>p. priority_refunds p (priority_items q)) p) \<and>
    priority_items priority_queue_zero = []"
proof -
  define q' where "q' = q\<lparr>pq_head := 0, pq_tail := 0, pq_count := 0, pq_byte_count := 0\<rparr>"
  have "priority_inv q' \<and> priority_items q' = []"
    using assms by (auto simp: q'_def priority_inv_def priority_items_def priority_bytes_def split: option.splits)
  then show ?thesis
    unfolding sfu_paced_priority_queue_clear_def sfu_paced_priority_queue_destroy_def
      priority_refund_all [OF assms]
    by (auto simp: q'_def priority_items_def priority_queue_zero_def)
qed

section \<open>Witnesses\<close>

definition sample_peer :: sfu_peer_session where
  "sample_peer = \<lparr>accepts_work = True, worker_owner = 3, transport_generation = 1, address_generation = 1,
     addr = [10, 0, 0, 1], addr_len = 4, applied_assignment_generations = [5],
     video_runtime_state = SFU_VIDEO_RUNTIME_READY, session_pacer = sfu_pacer_set_rate sfu_pacer_init 1000000 1,
     session_history = None, session_rtx_cache = None\<rparr>"

definition sample_rtx :: "u32 \<Rightarrow> int \<Rightarrow> bytes \<Rightarrow> sfu_paced_priority_entry" where
  "sample_rtx tgen t data = \<lparr>pe_data = data, pe_len = of_nat (length data), pe_dst = [10, 0, 0, 1], pe_dst_len = 4,
     pe_enqueued_at_us = t, pe_owner_value = 3, pe_transport_generation = tgen, pe_address_generation = 1,
     pe_twcc_seq = 0, pe_twcc_written = True, pe_pacer_charged_bytes = 2, pe_is_probe = False,
     pe_probe_cluster_id = 0\<rparr>"

text \<open>A queue with a live, a stale and a second live entry, at the end of its array.\<close>

definition sample_priority :: sfu_paced_priority_queue where
  "sample_priority = (sfu_paced_priority_queue_init False 200000 192000)\<lparr>
     pq_entries := Some ((replicate 128 priority_entry_zero)
       [126 := sample_rtx 1 1000 [7, 8], 127 := sample_rtx 2 1000 [9], 0 := sample_rtx 1 1000 [5, 6]]),
     pq_capacity := 128, pq_head := 126, pq_tail := 1, pq_count := 3, pq_byte_count := 5\<rparr>"

lemma sample_priority_items:
  "priority_items sample_priority = [sample_rtx 1 1000 [7, 8], sample_rtx 2 1000 [9], sample_rtx 1 1000 [5, 6]]"
proof -
  have "[0..<3] = [0, 1, 2 :: nat]"
    by code_simp
  then show ?thesis
    by (simp add: priority_items_def sample_priority_def ring_def nth_list_update)
qed

lemma sample_priority_inv: "priority_inv sample_priority"
  unfolding priority_inv_def sample_priority_items
  by (simp add: sample_priority_def sfu_paced_priority_queue_init_def priority_queue_zero_def priority_bytes_def
      sample_rtx_def priority_entry_ok_def word_gt_0)

lemma sample_peer_inv: "session_inv sample_peer"
  by (simp add: session_inv_def sample_peer_def pacer_inv_def sfu_pacer_init_def)
    (simp add: sfu_pacer_set_rate_def)

theorem priority_drain_correct_witness:
  "\<exists>q' s' k. sfu_paced_priority_queue_drain sample_priority sample_peer 2000 2
      (replicate 2 \<lparr>io_cap = Some 2048, io_accepted = True, io_clock = 0\<rparr>) =
      Some (q', s', [\<lparr>np_data = [7, 8], np_dst = [10, 0, 0, 1], np_dst_len = 4\<rparr>], 2 - k, k > 0) \<and>
    k = 2 \<and> priority_items q' = [sample_rtx 1 1000 [5, 6]]"
proof -
  let ?ios = "replicate 2 \<lparr>io_cap = Some 2048, io_accepted = True, io_clock = 0\<rparr>"
  have deliv: "priority_deliverable sample_priority sample_peer 2000 (sample_rtx 1 1000 [7, 8])"
      "\<not> priority_deliverable sample_priority sample_peer 2000 (sample_rtx 2 1000 [9])"
    by (simp_all add: priority_deliverable_def priority_entry_valid_def priority_expired_def sample_peer_def
        sample_rtx_def sample_priority_def sfu_session_accepts_work_def sfu_session_owner_value_def
        sfu_paced_priority_queue_init_def priority_queue_zero_def)
  have "list_all io_ready ?ios"
    by (simp add: io_ready_def numeral_2_eq_2)
  then show ?thesis
    using priority_drain_correct [OF sample_priority_inv sample_peer_inv, of 2000 2 ?ios] deliv
    by (auto simp: sample_priority_items numeral_2_eq_2 priority_packet_def sample_rtx_def)
qed


theorem priority_teardown_refunds_witness:
  "\<exists>q' p'. sfu_paced_priority_queue_clear sample_priority (Some sfu_pacer_init) = Some (q', p') \<and> priority_items q' = []"
  using priority_teardown_refunds [OF sample_priority_inv, of "Some sfu_pacer_init"] by blast

end
