(* ===== verification/Paced_Send.thy ===== *)
theory Paced_Send
  imports Paced_Priority
begin

text \<open>
  The paced media queue of a subscriber (\<^verbatim>\<open>sfu_paced_send_*\<close> of \<^verbatim>\<open>src/src/pipeline/paced_send.c\<close>): packets
  are queued frame by frame with a release time each, become ready when their frame is complete,
  and are sent from their release time on.  An incomplete frame is rolled back; a backlog is trimmed
  by whole frames.

  Every packet of a queue was reserved with the pacer of its session, so the pacer an entry points
  to is the pacer passed along, when the pointer is not null.  Metrics are left out.  The ring
  counters are natural numbers bounded by the capacity; microseconds are integers.
\<close>

section \<open>State\<close>

abbreviation SFU_PACED_SEND_CAPACITY :: nat where "SFU_PACED_SEND_CAPACITY \<equiv> 512"
abbreviation SFU_PACED_SEND_MAX_DRAIN_PER_SCAN :: nat where "SFU_PACED_SEND_MAX_DRAIN_PER_SCAN \<equiv> 4"
abbreviation SFU_PACED_SEND_SCAN_INTERVAL_US :: int where "SFU_PACED_SEND_SCAN_INTERVAL_US \<equiv> 2000"
abbreviation SFU_PACED_SEND_MIN_BPS :: u32 where "SFU_PACED_SEND_MIN_BPS \<equiv> 2000000"
abbreviation SFU_PACED_SEND_KEYFRAME_MIN_BPS :: u32 where "SFU_PACED_SEND_KEYFRAME_MIN_BPS \<equiv> 5000000"
abbreviation SFU_PACED_SEND_SCREEN_MOTION_MAX_DELAY_US :: int where
  "SFU_PACED_SEND_SCREEN_MOTION_MAX_DELAY_US \<equiv> 250000"
abbreviation SFU_PACED_SEND_MAX_DROPPED_PUBLISHERS :: nat where "SFU_PACED_SEND_MAX_DROPPED_PUBLISHERS \<equiv> 8"

record sfu_paced_send_metadata =
  md_assignment_generation :: u64
  md_owner_value :: u64
  md_transport_generation :: u32
  md_address_generation :: u32
  md_remote_slot :: u32
  md_publisher_peer_id :: u32
  md_twcc_seq :: u16
  md_subscriber_seq :: u16
  md_media_ssrc :: u32
  md_rtx_ssrc :: u32
  md_egress_generation :: u32
  md_rtx_pt :: u8
  md_twcc_written :: bool
  md_cache_rtx :: bool
  md_frame_end :: bool
  md_is_keyframe :: bool

record sfu_paced_send_entry =
  se_release_at_us :: int
  se_enqueued_at_us :: int
  se_span_us :: int
  se_dst :: bytes
  se_dst_len :: nat
  se_len :: u16
  se_rtx_plaintext_len :: u16
  se_pacer_class :: u8
  se_pacer :: bool
  se_reservation :: sfu_pacer_reservation
  se_metadata :: sfu_paced_send_metadata
  se_data :: bytes
  se_rtx_plaintext :: bytes

record paced_send_ring =
  ps_entries :: "sfu_paced_send_entry list option"
  ps_capacity :: nat
  ps_head :: nat
  ps_tail :: nat
  ps_count :: nat
  ps_ready_count :: nat
  ps_next_release_us :: int

record paced_send_frame = paced_send_ring +
  ps_input_timestamp :: u32
  ps_input_frame_started_us :: int
  ps_input_frame_base_next_release_us :: int
  ps_input_frame_queued_packets :: nat
  ps_input_frame_active :: bool
  ps_drop_input_frame :: bool
  ps_input_frame_is_keyframe :: bool
  ps_ready_frame_count :: u32
  ps_motion_frame_count :: u32

record sfu_paced_send = paced_send_frame +
  ps_high_water :: nat
  ps_max_input_frame_span_us :: int
  ps_max_enqueue_to_send_us :: int
  ps_max_release_late_us :: int
  ps_enqueue_to_send_sum_us :: u64
  ps_enqueue_to_send_samples :: u64
  ps_input_frames_over_delay :: u64
  ps_drain_invocations :: u64
  ps_drain_cap_hits :: u64
  ps_max_drain_packets :: nat
  ps_rolled_back_publisher_peer_id :: u32
  ps_rolled_back_media_ssrc :: u32
  ps_rolled_back_packet_count :: u16
  ps_sent :: u64
  ps_dropped_full :: u64
  ps_dropped_delay_frames :: u64
  ps_dropped_frame_packets :: u64
  ps_dropped_stale :: u64

record sfu_paced_send_drop_report =
  dr_frames :: u32
  dr_publisher_count :: nat
  dr_truncated :: bool
  dr_publisher_peer_ids :: "u32 list"

definition metadata_zero :: sfu_paced_send_metadata where
  "metadata_zero = \<lparr>md_assignment_generation = 0, md_owner_value = 0, md_transport_generation = 0,
     md_address_generation = 0, md_remote_slot = 0, md_publisher_peer_id = 0, md_twcc_seq = 0,
     md_subscriber_seq = 0, md_media_ssrc = 0, md_rtx_ssrc = 0, md_egress_generation = 0, md_rtx_pt = 0,
     md_twcc_written = False, md_cache_rtx = False, md_frame_end = False, md_is_keyframe = False\<rparr>"

definition paced_entry_zero :: sfu_paced_send_entry where
  "paced_entry_zero = \<lparr>se_release_at_us = 0, se_enqueued_at_us = 0, se_span_us = 0, se_dst = [], se_dst_len = 0,
     se_len = 0, se_rtx_plaintext_len = 0, se_pacer_class = 0, se_pacer = False,
     se_reservation = reservation_zero, se_metadata = metadata_zero, se_data = [], se_rtx_plaintext = []\<rparr>"

definition sfu_paced_send_init :: sfu_paced_send where
  "sfu_paced_send_init = \<lparr>ps_entries = None, ps_capacity = 0, ps_head = 0, ps_tail = 0, ps_count = 0,
     ps_ready_count = 0, ps_next_release_us = 0, ps_input_timestamp = 0, ps_input_frame_started_us = 0,
     ps_input_frame_base_next_release_us = 0, ps_input_frame_queued_packets = 0,
     ps_input_frame_active = False, ps_drop_input_frame = False, ps_input_frame_is_keyframe = False,
     ps_ready_frame_count = 0, ps_motion_frame_count = 0, ps_high_water = 0,
     ps_max_input_frame_span_us = 0, ps_max_enqueue_to_send_us = 0, ps_max_release_late_us = 0,
     ps_enqueue_to_send_sum_us = 0, ps_enqueue_to_send_samples = 0, ps_input_frames_over_delay = 0,
     ps_drain_invocations = 0, ps_drain_cap_hits = 0, ps_max_drain_packets = 0,
     ps_rolled_back_publisher_peer_id = 0, ps_rolled_back_media_ssrc = 0, ps_rolled_back_packet_count = 0,
     ps_sent = 0, ps_dropped_full = 0, ps_dropped_delay_frames = 0, ps_dropped_frame_packets = 0,
     ps_dropped_stale = 0\<rparr>"

section \<open>Operations\<close>

text \<open>\<^verbatim>\<open>sfu_pacer_cancel(e->pacer, &e->reservation)\<close> as far as the pacer goes: the entry itself is
  discarded right after every call.\<close>

definition cancel_entry :: "sfu_pacer \<Rightarrow> sfu_paced_send_entry \<Rightarrow> sfu_pacer" where
  "cancel_entry p e = (if se_pacer e then fst (sfu_pacer_cancel p (se_reservation e)) else p)"

definition commit_entry :: "sfu_pacer \<Rightarrow> sfu_paced_send_entry \<Rightarrow> sfu_pacer" where
  "commit_entry p e = (if se_pacer e then fst (sfu_pacer_commit p (se_reservation e)) else p)"

fun cancel_queued :: "nat \<Rightarrow> nat \<Rightarrow> nat \<Rightarrow> sfu_paced_send_entry list \<Rightarrow> sfu_pacer \<Rightarrow> sfu_pacer option" where
  "cancel_queued 0 index cap es p = Some p"
| "cancel_queued (Suc n) index cap es p = do {
     e \<leftarrow> aget es index;
     cancel_queued n ((index + 1) mod cap) cap es (cancel_entry p e)
   }"

definition sfu_paced_send_destroy ::
    "sfu_paced_send \<Rightarrow> sfu_pacer \<Rightarrow> (sfu_paced_send \<times> sfu_pacer) option" where
  "sfu_paced_send_destroy q p = do {
     p \<leftarrow> (case ps_entries q of
             None \<Rightarrow> Some p
           | Some es \<Rightarrow> cancel_queued (ps_count q) (ps_head q) (ps_capacity q) es p);
     Some (sfu_paced_send_init, p)
   }"

definition sfu_paced_send_projected_delay_us :: "sfu_paced_send \<Rightarrow> int \<Rightarrow> int" where
  "sfu_paced_send_projected_delay_us q now_us =
     (if ps_count q = 0 then 0
      else
        let serialization = (if ps_next_release_us q > now_us then ps_next_release_us q - now_us else 0);
            scans = (ps_ready_count q + SFU_PACED_SEND_MAX_DRAIN_PER_SCAN - 1) div SFU_PACED_SEND_MAX_DRAIN_PER_SCAN;
            scan_delay = int scans * SFU_PACED_SEND_SCAN_INTERVAL_US
        in if serialization > scan_delay then serialization else scan_delay)"

fun rollback_loop :: "nat \<Rightarrow> sfu_paced_send \<Rightarrow> sfu_pacer \<Rightarrow> (sfu_paced_send \<times> sfu_pacer) option" where
  "rollback_loop 0 q p = Some (q, p)"
| "rollback_loop (Suc n) q p = do {
     let tail = (if ps_tail q = 0 then ps_capacity q - 1 else ps_tail q - 1);
     es \<leftarrow> ps_entries q;
     e \<leftarrow> aget es tail;
     let pub = md_publisher_peer_id (se_metadata e);
     let ssrc = md_media_ssrc (se_metadata e);
     es \<leftarrow> aset es tail paced_entry_zero;
     rollback_loop n
       (q\<lparr>ps_tail := tail, ps_entries := Some es, ps_count := ps_count q - 1,
         ps_rolled_back_publisher_peer_id := (if pub \<noteq> 0 then pub else ps_rolled_back_publisher_peer_id q),
         ps_rolled_back_media_ssrc := (if ssrc \<noteq> 0 then ssrc else ps_rolled_back_media_ssrc q)\<rparr>)
       (cancel_entry p e)
   }"

definition sfu_paced_send_rollback_input_frame ::
    "sfu_paced_send \<Rightarrow> sfu_pacer \<Rightarrow> (sfu_paced_send \<times> sfu_pacer) option" where
  "sfu_paced_send_rollback_input_frame q p =
     (if ps_entries q = None \<or> ps_input_frame_queued_packets q = 0 \<or>
         ps_input_frame_queued_packets q > ps_count q then Some (q, p)
      else do {
        (q, p) \<leftarrow> rollback_loop (ps_input_frame_queued_packets q)
          (q\<lparr>ps_rolled_back_packet_count := of_nat (ps_input_frame_queued_packets q)\<rparr>) p;
        let q = q\<lparr>ps_next_release_us := ps_input_frame_base_next_release_us q,
          ps_input_frame_queued_packets := 0, ps_input_frame_is_keyframe := False\<rparr>;
        let q = (if ps_count q = 0
                 then q\<lparr>ps_head := 0, ps_tail := 0, ps_next_release_us := 0, ps_ready_frame_count := 0\<rparr> else q);
        Some (q, p)
      })"

text \<open>The head of \<^verbatim>\<open>sfu_paced_send_admit_frame_packet\<close>, for the first packet of a frame: an unfinished
  frame is rolled back, and the new one is opened and perhaps marked to be dropped.\<close>

definition open_frame :: "sfu_paced_send \<Rightarrow> u32 \<Rightarrow> bool \<Rightarrow> bool \<Rightarrow> int \<Rightarrow> int \<Rightarrow> sfu_paced_send" where
  "open_frame q rtp_timestamp keyframe drop_on_delay max_delay_us now_us =
     (let q = (if ps_input_frame_active q \<and> now_us \<ge> ps_input_frame_started_us q
            then let span = now_us - ps_input_frame_started_us q;
                     q = (if span > ps_max_input_frame_span_us q then q\<lparr>ps_max_input_frame_span_us := span\<rparr> else q)
                 in if span > max_delay_us then q\<lparr>ps_input_frames_over_delay := ps_input_frames_over_delay q + 1\<rparr> else q
            else q);
          q = q\<lparr>ps_input_timestamp := rtp_timestamp, ps_input_frame_started_us := now_us,
            ps_input_frame_base_next_release_us := ps_next_release_us q, ps_input_frame_queued_packets := 0,
            ps_input_frame_active := True, ps_input_frame_is_keyframe := keyframe\<rparr>;
          motion_detected = (ps_ready_frame_count q > 3);
          q = q\<lparr>ps_motion_frame_count := (if motion_detected then ps_motion_frame_count q + 1
            else if ps_motion_frame_count q > 0 then ps_motion_frame_count q - 1 else ps_motion_frame_count q)\<rparr>;
          in_motion = (ps_motion_frame_count q > 0);
          effective_max_delay = (if in_motion then SFU_PACED_SEND_SCREEN_MOTION_MAX_DELAY_US else max_delay_us);
          drop_frame = (drop_on_delay \<and> \<not> keyframe \<and>
            sfu_paced_send_projected_delay_us q now_us \<ge> effective_max_delay)
      in q\<lparr>ps_drop_input_frame := drop_frame,
           ps_dropped_delay_frames := (if drop_frame then ps_dropped_delay_frames q + 1 else ps_dropped_delay_frames q)\<rparr>)"

definition admit_new_frame ::
    "sfu_paced_send \<Rightarrow> sfu_pacer \<Rightarrow> u32 \<Rightarrow> bool \<Rightarrow> bool \<Rightarrow> int \<Rightarrow> int \<Rightarrow> (sfu_paced_send \<times> sfu_pacer) option" where
  "admit_new_frame q p rtp_timestamp keyframe drop_on_delay max_delay_us now_us =
     (if ps_input_frame_active q \<and> ps_input_timestamp q \<noteq> rtp_timestamp
      then do {
        (q, p) \<leftarrow> sfu_paced_send_rollback_input_frame q p;
        let q = q\<lparr>ps_input_frame_active := False, ps_drop_input_frame := False,
          ps_input_frame_is_keyframe := False\<rparr>;
        Some (open_frame q rtp_timestamp keyframe drop_on_delay max_delay_us now_us, p)
      }
      else Some (open_frame q rtp_timestamp keyframe drop_on_delay max_delay_us now_us, p))"

text \<open>The rest of the function, for every packet.\<close>

definition admit_packet :: "sfu_paced_send \<Rightarrow> bool \<Rightarrow> bool \<Rightarrow> sfu_paced_send \<times> bool" where
  "admit_packet q marker keyframe =
     (let q = (if keyframe then q\<lparr>ps_input_frame_is_keyframe := True\<rparr> else q);
          admitted = (\<not> ps_drop_input_frame q);
          q = (if \<not> admitted then q\<lparr>ps_dropped_frame_packets := ps_dropped_frame_packets q + 1\<rparr> else q);
          q = (if marker \<and> \<not> admitted
            then q\<lparr>ps_input_frame_active := False, ps_drop_input_frame := False, ps_input_frame_is_keyframe := False\<rparr>
            else q)
      in (q, admitted))"

definition sfu_paced_send_admit_frame_packet ::
    "sfu_paced_send \<Rightarrow> sfu_pacer \<Rightarrow> u32 \<Rightarrow> bool \<Rightarrow> bool \<Rightarrow> bool \<Rightarrow> int \<Rightarrow> int \<Rightarrow>
     (sfu_paced_send \<times> sfu_pacer \<times> bool) option" where
  "sfu_paced_send_admit_frame_packet q p rtp_timestamp marker keyframe drop_on_delay max_delay_us now_us = do {
     let new_frame = (\<not> ps_input_frame_active q \<or> ps_input_timestamp q \<noteq> rtp_timestamp);
     (q, p) \<leftarrow> (if new_frame
       then admit_new_frame q p rtp_timestamp keyframe drop_on_delay max_delay_us now_us else Some (q, p));
     let (q, admitted) = admit_packet q marker keyframe;
     Some (q, p, admitted)
   }"

definition sfu_paced_send_finish_input_frame :: "sfu_paced_send \<Rightarrow> sfu_paced_send option" where
  "sfu_paced_send_finish_input_frame q =
     (if \<not> ps_input_frame_active q then Some q
      else do {
        q \<leftarrow> (if ps_input_frame_queued_packets q \<noteq> 0
          then do {
            let last = (if ps_tail q = 0 then ps_capacity q - 1 else ps_tail q - 1);
            es \<leftarrow> ps_entries q;
            e \<leftarrow> aget es last;
            es \<leftarrow> aset es last (e\<lparr>se_metadata := (se_metadata e)\<lparr>md_frame_end := True\<rparr>\<rparr>);
            Some (q\<lparr>ps_entries := Some es, ps_ready_frame_count := ps_ready_frame_count q + 1\<rparr>)
          }
          else Some q);
        Some (q\<lparr>ps_ready_count := ps_ready_count q + ps_input_frame_queued_packets q,
          ps_input_frame_queued_packets := 0, ps_input_frame_active := False, ps_drop_input_frame := False,
          ps_input_frame_is_keyframe := False\<rparr>)
      })"

definition sfu_paced_send_reject_input_frame :: "sfu_paced_send \<Rightarrow> sfu_paced_send" where
  "sfu_paced_send_reject_input_frame q =
     (if ps_input_frame_active q then q\<lparr>ps_drop_input_frame := True\<rparr> else q)"

text \<open>\<^verbatim>\<open>rebase_backlog\<close>: the loop over the queued packets, and the one over the ready packets.\<close>

fun rebase_loop ::
    "nat \<Rightarrow> nat \<Rightarrow> nat \<Rightarrow> sfu_paced_send_entry list \<Rightarrow> int \<Rightarrow> (sfu_paced_send_entry list \<times> int) option" where
  "rebase_loop 0 index cap es base = Some (es, base)"
| "rebase_loop (Suc n) index cap es base = do {
     e \<leftarrow> aget es index;
     es \<leftarrow> aset es index (e\<lparr>se_release_at_us := base\<rparr>);
     rebase_loop n ((index + 1) mod cap) cap es (base + se_span_us e)
   }"

fun span_loop :: "nat \<Rightarrow> nat \<Rightarrow> nat \<Rightarrow> sfu_paced_send_entry list \<Rightarrow> int \<Rightarrow> int option" where
  "span_loop 0 index cap es acc = Some acc"
| "span_loop (Suc n) index cap es acc = do {
     e \<leftarrow> aget es index;
     span_loop n ((index + 1) mod cap) cap es (acc + se_span_us e)
   }"

definition rebase_backlog :: "sfu_paced_send \<Rightarrow> int \<Rightarrow> sfu_paced_send option" where
  "rebase_backlog q now_us = do {
     es \<leftarrow> ps_entries q;
     (es, base) \<leftarrow> rebase_loop (ps_count q) (ps_head q) (ps_capacity q) es now_us;
     let q = q\<lparr>ps_entries := Some es, ps_next_release_us := (if ps_count q \<noteq> 0 then base else 0)\<rparr>;
     if ps_input_frame_active q then do {
       unpublished_span \<leftarrow> span_loop (ps_ready_count q) (ps_head q) (ps_capacity q) es 0;
       Some (q\<lparr>ps_input_frame_base_next_release_us := now_us + unpublished_span\<rparr>)
     }
     else Some q
   }"

definition sfu_paced_send_drop_report_init :: sfu_paced_send_drop_report where
  "sfu_paced_send_drop_report_init = \<lparr>dr_frames = 0, dr_publisher_count = 0, dr_truncated = False,
     dr_publisher_peer_ids = replicate SFU_PACED_SEND_MAX_DROPPED_PUBLISHERS 0\<rparr>"

definition sfu_paced_send_drop_report_add ::
    "sfu_paced_send_drop_report \<Rightarrow> u32 \<Rightarrow> sfu_paced_send_drop_report option" where
  "sfu_paced_send_drop_report_add report publisher_peer_id =
     (if publisher_peer_id = 0 then Some report
      else if publisher_peer_id \<in> set (take (dr_publisher_count report) (dr_publisher_peer_ids report))
      then Some report
      else if dr_publisher_count report \<ge> SFU_PACED_SEND_MAX_DROPPED_PUBLISHERS
      then Some (report\<lparr>dr_truncated := True\<rparr>)
      else do {
        ids \<leftarrow> aset (dr_publisher_peer_ids report) (dr_publisher_count report) publisher_peer_id;
        Some (report\<lparr>dr_publisher_peer_ids := ids, dr_publisher_count := dr_publisher_count report + 1\<rparr>)
      })"

text \<open>The inner loop of \<^verbatim>\<open>sfu_paced_send_bound_backlog\<close>, called with the number of ready packets:
  drops packets from the head up to the end of their frame.\<close>

fun drop_head_frame ::
    "nat \<Rightarrow> sfu_paced_send \<Rightarrow> sfu_pacer \<Rightarrow> u32 \<Rightarrow> (sfu_paced_send \<times> sfu_pacer \<times> bool \<times> u32) option" where
  "drop_head_frame 0 q p frame_publisher = Some (q, p, False, frame_publisher)"
| "drop_head_frame (Suc n) q p frame_publisher = do {
     es \<leftarrow> ps_entries q;
     e \<leftarrow> aget es (ps_head q);
     let frame_end = md_frame_end (se_metadata e);
     let frame_publisher = md_publisher_peer_id (se_metadata e);
     es \<leftarrow> aset es (ps_head q) paced_entry_zero;
     let p = cancel_entry p e;
     let q = q\<lparr>ps_entries := Some es, ps_head := (ps_head q + 1) mod ps_capacity q, ps_count := ps_count q - 1,
       ps_ready_count := ps_ready_count q - 1\<rparr>;
     if frame_end then Some (q, p, True, frame_publisher) else drop_head_frame n q p frame_publisher
   }"

text \<open>The outer loop.  Every round drops at least one ready packet, so the number of ready packets is
  enough fuel; running out of it would be \<open>None\<close>.\<close>

fun backlog_loop ::
    "nat \<Rightarrow> sfu_paced_send \<Rightarrow> sfu_pacer \<Rightarrow> int \<Rightarrow> int \<Rightarrow> sfu_paced_send_drop_report option \<Rightarrow>
     (sfu_paced_send \<times> sfu_pacer \<times> sfu_paced_send_drop_report option) option" where
  "backlog_loop n q p max_delay_us now_us report =
     (if ps_ready_count q = 0 \<or> sfu_paced_send_projected_delay_us q now_us < max_delay_us
      then Some (q, p, report)
      else do {
        es \<leftarrow> ps_entries q;
        e \<leftarrow> aget es (ps_head q);
        if md_is_keyframe (se_metadata e) then Some (q, p, report)
        else (case n of
          0 \<Rightarrow> None
        | Suc n \<Rightarrow> do {
            (q, p, frame_end, frame_publisher) \<leftarrow> drop_head_frame (ps_ready_count q) q p 0;
            let q = (if frame_end \<and> ps_ready_frame_count q > 0
              then q\<lparr>ps_ready_frame_count := ps_ready_frame_count q - 1\<rparr> else q);
            let q = q\<lparr>ps_dropped_delay_frames := ps_dropped_delay_frames q + 1\<rparr>;
            report \<leftarrow> (case report of
                None \<Rightarrow> Some None
              | Some r \<Rightarrow> do {
                  r \<leftarrow> sfu_paced_send_drop_report_add (r\<lparr>dr_frames := dr_frames r + 1\<rparr>) frame_publisher;
                  Some (Some r)
                });
            q \<leftarrow> rebase_backlog q now_us;
            backlog_loop n q p max_delay_us now_us report
          })
      })"

declare backlog_loop.simps [simp del]

definition sfu_paced_send_bound_backlog ::
    "sfu_paced_send \<Rightarrow> sfu_pacer \<Rightarrow> int \<Rightarrow> int \<Rightarrow> sfu_paced_send_drop_report option \<Rightarrow>
     (sfu_paced_send \<times> sfu_pacer \<times> sfu_paced_send_drop_report option \<times> bool) option" where
  "sfu_paced_send_bound_backlog q p max_delay_us now_us report =
     (if max_delay_us \<le> 0 \<or> ps_input_frame_active q then Some (q, p, report, False)
      else do {
        (q, p, report) \<leftarrow> backlog_loop (ps_ready_count q) q p max_delay_us now_us report;
        let q = (if ps_count q = 0 then q\<lparr>ps_head := 0, ps_tail := 0, ps_ready_frame_count := 0\<rparr> else q);
        Some (q, p, report, sfu_paced_send_projected_delay_us q now_us < max_delay_us)
      })"

definition paced_span_us :: "u16 \<Rightarrow> u32 \<Rightarrow> bool \<Rightarrow> int" where
  "paced_span_us len bps is_keyframe =
     (let min_rate = (if is_keyframe then SFU_PACED_SEND_KEYFRAME_MIN_BPS else SFU_PACED_SEND_MIN_BPS);
          rate = (if bps < min_rate then min_rate else bps)
      in (uint len * 8 * 1000000 + uint rate - 1) div uint rate)"

text \<open>The result: the queue, the caller's reservation, the release time and whether the packet was
  accepted.\<close>

definition sfu_paced_send_enqueue ::
    "bool \<Rightarrow> sfu_paced_send \<Rightarrow> bytes \<Rightarrow> u16 \<Rightarrow> bytes \<Rightarrow> u16 \<Rightarrow> bytes \<Rightarrow> nat \<Rightarrow> u8 \<Rightarrow> u32 \<Rightarrow> bool \<Rightarrow>
     sfu_pacer_reservation \<Rightarrow> sfu_paced_send_metadata \<Rightarrow> int \<Rightarrow>
     (sfu_paced_send \<times> sfu_pacer_reservation \<times> int ret) option" where
  "sfu_paced_send_enqueue alloc_ok q data len rtx_plaintext rtx_plaintext_len dst dst_len cls bps has_pacer
       reservation metadata now_us =
     (if \<not> res_active reservation \<or> len = 0 \<or> len > SFU_PACED_SEND_MAX_PAYLOAD \<or>
         rtx_plaintext_len > SFU_PACED_SEND_MAX_PAYLOAD then Some (q, reservation, Reject)
      else if ps_entries q = None \<and> \<not> alloc_ok then Some (q, reservation, Reject)
      else
        let q = (if ps_entries q = None
                 then q\<lparr>ps_entries := Some (replicate SFU_PACED_SEND_CAPACITY paced_entry_zero),
                   ps_capacity := SFU_PACED_SEND_CAPACITY\<rparr> else q)
        in if ps_count q \<ge> ps_capacity q
           then Some (q\<lparr>ps_dropped_full := ps_dropped_full q + 1\<rparr>, reservation, Reject)
           else do {
             let span = paced_span_us len bps (md_is_keyframe metadata);
             let base = (if ps_next_release_us q > now_us then ps_next_release_us q else now_us);
             bs \<leftarrow> rd_bytes data 0 (unat len);
             rtx \<leftarrow> rd_bytes rtx_plaintext 0 (unat rtx_plaintext_len);
             es \<leftarrow> ps_entries q;
             es \<leftarrow> aset es (ps_tail q) \<lparr>se_release_at_us = base, se_enqueued_at_us = now_us, se_span_us = span,
               se_dst = dst, se_dst_len = dst_len, se_len = len, se_rtx_plaintext_len = rtx_plaintext_len,
               se_pacer_class = cls, se_pacer = has_pacer, se_reservation = reservation,
               se_metadata = metadata, se_data = bs, se_rtx_plaintext = rtx\<rparr>;
             let q = q\<lparr>ps_entries := Some es, ps_tail := (ps_tail q + 1) mod ps_capacity q,
               ps_count := ps_count q + 1, ps_next_release_us := base + span,
               ps_input_frame_queued_packets := (if ps_input_frame_active q
                 then ps_input_frame_queued_packets q + 1 else ps_input_frame_queued_packets q),
               ps_high_water := (if ps_count q + 1 > ps_high_water q then ps_count q + 1 else ps_high_water q)\<rparr>;
             Some (q, reservation\<lparr>res_active := False\<rparr>, Accept base)
           })"

definition pop_entry :: "sfu_paced_send \<Rightarrow> sfu_paced_send option" where
  "pop_entry q = do {
     es \<leftarrow> ps_entries q;
     e \<leftarrow> aget es (ps_head q);
     Some (q\<lparr>ps_ready_frame_count := (if md_frame_end (se_metadata e) \<and> ps_ready_frame_count q > 0
         then ps_ready_frame_count q - 1 else ps_ready_frame_count q),
       ps_head := (ps_head q + 1) mod ps_capacity q, ps_count := ps_count q - 1,
       ps_ready_count := ps_ready_count q - 1\<rparr>)
   }"

definition cancel_and_pop_entry :: "sfu_paced_send \<Rightarrow> sfu_pacer \<Rightarrow> (sfu_paced_send \<times> sfu_pacer) option" where
  "cancel_and_pop_entry q p = do {
     es \<leftarrow> ps_entries q;
     e \<leftarrow> aget es (ps_head q);
     q \<leftarrow> pop_entry q;
     Some (q, cancel_entry p e)
   }"

definition entry_valid :: "sfu_paced_send_entry \<Rightarrow> sfu_peer_session \<Rightarrow> bool" where
  "entry_valid e s \<longleftrightarrow>
     (let m = se_metadata e
      in sfu_session_accepts_work s \<and> sfu_session_owner_value s = md_owner_value m \<and>
         sfu_session_remote_slot_authorized s (md_remote_slot m) (md_assignment_generation m) \<and>
         transport_generation s = md_transport_generation m \<and> address_generation s = md_address_generation m \<and>
         addr_len s = se_dst_len e \<and> take (se_dst_len e) (addr s) = take (se_dst_len e) (se_dst e))"

text \<open>What the drain does with a packet the network has accepted: the send history, the
  retransmission cache, the statistics, and the pacer.\<close>

definition paced_record :: "sfu_paced_send_entry \<Rightarrow> int \<Rightarrow> sfu_peer_session \<Rightarrow> sfu_peer_session option" where
  "paced_record e accepted_us s = do {
     let m = se_metadata e;
     s \<leftarrow> (if md_twcc_written m \<and> sfu_session_video_runtime_ready s
       then case session_history s of
           None \<Rightarrow> Some s
         | Some h \<Rightarrow> do {
             h \<leftarrow> sfu_twcc_history_record h (md_twcc_seq m) accepted_us (ucast (se_len e));
             Some (s\<lparr>session_history := Some h\<rparr>)
           }
       else Some s);
     if md_cache_rtx m \<and> sfu_session_video_runtime_ready s
     then case session_rtx_cache s of
         None \<Rightarrow> Some s
       | Some c \<Rightarrow> do {
           c \<leftarrow> sfu_rtx_cache_put_stream c (md_subscriber_seq m) (se_rtx_plaintext e)
             (ucast (se_rtx_plaintext_len e)) (md_rtx_ssrc m) (md_rtx_pt m) (md_media_ssrc m)
             (md_egress_generation m);
           Some (s\<lparr>session_rtx_cache := Some c\<rparr>)
         }
     else Some s
   }"

definition paced_statistics :: "sfu_paced_send \<Rightarrow> sfu_paced_send_entry \<Rightarrow> int \<Rightarrow> sfu_paced_send" where
  "paced_statistics q e accepted_us =
     (let residence = (if accepted_us \<ge> se_enqueued_at_us e then accepted_us - se_enqueued_at_us e else 0);
          late = (if accepted_us \<ge> se_release_at_us e then accepted_us - se_release_at_us e else 0)
      in q\<lparr>ps_max_enqueue_to_send_us :=
             (if residence > ps_max_enqueue_to_send_us q then residence else ps_max_enqueue_to_send_us q),
           ps_max_release_late_us := (if late > ps_max_release_late_us q then late else ps_max_release_late_us q),
           ps_enqueue_to_send_sum_us := ps_enqueue_to_send_sum_us q + of_int residence,
           ps_enqueue_to_send_samples := ps_enqueue_to_send_samples q + 1\<rparr>)"

text \<open>The drain loop; \<open>n\<close> is \<^verbatim>\<open>limit - processed\<close>, and the result ends with the packets sent and the
  number of entries processed.\<close>

fun paced_drain_loop ::
    "nat \<Rightarrow> sfu_paced_send \<Rightarrow> sfu_peer_session \<Rightarrow> int \<Rightarrow> send_io list \<Rightarrow>
     (sfu_paced_send \<times> sfu_peer_session \<times> net_packet list \<times> nat) option" where
  "paced_drain_loop 0 q s now_us ios = Some (q, s, [], 0)"
| "paced_drain_loop (Suc n) q s now_us ios =
     (if ps_ready_count q = 0 then Some (q, s, [], 0)
      else do {
        es \<leftarrow> ps_entries q;
        e \<leftarrow> aget es (ps_head q);
        if \<not> entry_valid e s then do {
          (q, p) \<leftarrow> cancel_and_pop_entry q (session_pacer s);
          (q, s, out, k) \<leftarrow> paced_drain_loop n (q\<lparr>ps_dropped_stale := ps_dropped_stale q + 1\<rparr>)
            (s\<lparr>session_pacer := p\<rparr>) now_us ios;
          Some (q, s, out, k + 1)
        }
        else if se_release_at_us e > now_us then Some (q, s, [], 0)
        else case ios of
          [] \<Rightarrow> Some (q, s, [], 0)
        | io # ios \<Rightarrow>
            (case io_cap io of
               None \<Rightarrow> Some (q, s, [], 0)
             | Some cap \<Rightarrow>
                 if unat (se_len e) > cap \<or> \<not> io_accepted io then Some (q, s, [], 0)
                 else do {
                   bs \<leftarrow> rd_bytes (se_data e) 0 (unat (se_len e));
                   let accepted_us = accepted_time now_us io;
                   s \<leftarrow> paced_record e accepted_us s;
                   let q = paced_statistics q e accepted_us;
                   q \<leftarrow> pop_entry q;
                   (q, s, out, k) \<leftarrow> paced_drain_loop n (q\<lparr>ps_sent := ps_sent q + 1\<rparr>)
                     (s\<lparr>session_pacer := commit_entry (session_pacer s) e\<rparr>) now_us ios;
                   Some (q, s, \<lparr>np_data = bs, np_dst = se_dst e, np_dst_len = se_dst_len e\<rparr> # out, k + 1)
                 })
      })"

definition sfu_paced_send_drain ::
    "sfu_paced_send \<Rightarrow> sfu_peer_session \<Rightarrow> int \<Rightarrow> nat \<Rightarrow> send_io list \<Rightarrow>
     (sfu_paced_send \<times> sfu_peer_session \<times> net_packet list \<times> nat \<times> bool) option" where
  "sfu_paced_send_drain q s now_us remaining ios =
     (if remaining = 0 \<or> ps_entries q = None \<or> ps_count q = 0 then Some (q, s, [], remaining, False)
      else do {
        let q = q\<lparr>ps_drain_invocations := ps_drain_invocations q + 1\<rparr>;
        (q, s, out, processed) \<leftarrow> paced_drain_loop remaining q s now_us ios;
        let q = (if length out > ps_max_drain_packets q then q\<lparr>ps_max_drain_packets := length out\<rparr> else q);
        q \<leftarrow> (if processed = remaining \<and> ps_ready_count q \<noteq> 0
          then do {
            es \<leftarrow> ps_entries q;
            e \<leftarrow> aget es (ps_head q);
            Some (if se_release_at_us e \<le> now_us then q\<lparr>ps_drain_cap_hits := ps_drain_cap_hits q + 1\<rparr> else q)
          }
          else Some q);
        let q = (if ps_count q = 0
          then q\<lparr>ps_head := 0, ps_tail := 0, ps_next_release_us := 0, ps_ready_frame_count := 0\<rparr> else q);
        Some (q, s, out, remaining - processed, processed > 0)
      })"

end
