(* ===== verification/Paced_Send_Invariant.thy ===== *)
theory Paced_Send_Invariant
  imports Paced_Send
begin

text \<open>
  The correctness of the paced media queue: its type invariant, the spacing of the release times,
  the conservation of the pacer's reservations, and what every operation does to the list of
  queued packets.
\<close>

section \<open>Circular buffers allocated on first use\<close>

definition ring_items :: "'a list option \<Rightarrow> nat \<Rightarrow> nat \<Rightarrow> 'a list" where
  "ring_items eo h n = (case eo of None \<Rightarrow> [] | Some es \<Rightarrow> ring es h n)"

definition ring_ok :: "nat \<Rightarrow> 'a list option \<Rightarrow> nat \<Rightarrow> nat \<Rightarrow> nat \<Rightarrow> nat \<Rightarrow> bool" where
  "ring_ok N eo cap h t n \<longleftrightarrow> (case eo of
     None \<Rightarrow> h = 0 \<and> t = 0 \<and> n = 0
   | Some es \<Rightarrow> length es = N \<and> cap = N \<and> h < N \<and> n \<le> N \<and> t = (h + n) mod N)"

lemma ring_items_Some [simp]: "ring_items (Some es) h n = ring es h n"
  by (simp add: ring_items_def)

lemma ring_items_length [simp]: "ring_ok N eo cap h t n \<Longrightarrow> length (ring_items eo h n) = n"
  by (auto simp: ring_ok_def ring_items_def split: option.splits)

lemma ring_ok_SomeE:
  assumes "ring_ok N eo cap h t n" "0 < n"
  obtains es where "eo = Some es" "length es = N" "cap = N" "h < N" "n \<le> N" "t = (h + n) mod N"
  using assms by (auto simp: ring_ok_def split: option.splits)

lemma ring_ok_push:
  assumes "ring_ok N (Some es) cap h t n" "n < N"
  shows "t < length es" "ring_ok N (Some (es[t := x])) cap h ((t + 1) mod cap) (n + 1)"
    "ring (es[t := x]) h (n + 1) = ring es h n @ [x]"
proof -
  have *: "length es = N" "cap = N" "h < N" "t = (h + n) mod N"
    using assms by (auto simp: ring_ok_def)
  show "t < length es"
    using * assms(2) by (simp add: mod_below)
  have "((h + n) mod N + 1) mod N = (h + (n + 1)) mod N"
    by (subst mod_add_left_eq) (simp add: add.assoc)
  then show "ring_ok N (Some (es[t := x])) cap h ((t + 1) mod cap) (n + 1)"
    using * assms(2) by (simp add: ring_ok_def)
  show "ring (es[t := x]) h (n + 1) = ring es h n @ [x]"
    using ring_push [of n es h x] * assms(2) by simp
qed

lemma ring_ok_pop:
  assumes "ring_ok N (Some es) cap h t n" "0 < n"
  shows "h < length es" "ring es h n = es ! h # ring es ((h + 1) mod cap) (n - 1)"
    "ring_ok N (Some es) cap ((h + 1) mod cap) t (n - 1)"
    "ring_ok N (Some (es[h := z])) cap ((h + 1) mod cap) t (n - 1)"
    "ring (es[h := z]) ((h + 1) mod cap) (n - 1) = ring es ((h + 1) mod cap) (n - 1)"
proof -
  have *: "length es = N" "cap = N" "h < N" "n \<le> N" "t = (h + n) mod N"
    using assms by (auto simp: ring_ok_def)
  show "h < length es"
    using * by simp
  show "ring es h n = es ! h # ring es ((h + 1) mod cap) (n - 1)"
    using ring_pop [of n h es] * assms(2) by simp
  have next_tail: "((h + 1) mod N + (n - 1)) mod N = (h + n) mod N"
    using assms(2) by (subst mod_add_left_eq) simp
  show "ring_ok N (Some es) cap ((h + 1) mod cap) t (n - 1)"
    "ring_ok N (Some (es[h := z])) cap ((h + 1) mod cap) t (n - 1)"
    using * assms(2) next_tail by (auto simp: ring_ok_def mod_below)
  have "((h + 1) mod N + (N - 1)) mod N = h"
    using *(3) by (subst mod_add_left_eq) simp
  then show "ring (es[h := z]) ((h + 1) mod cap) (n - 1) = ring es ((h + 1) mod cap) (n - 1)"
    using ring_upd_other [of "n - 1" "N - 1" es "(h + 1) mod N" z] * assms(2) by simp
qed

lemma ring_ok_unpush:
  fixes t cap :: nat
  defines "t' \<equiv> (if t = 0 then cap - 1 else t - 1)"
  assumes "ring_ok N (Some es) cap h t n" "0 < n"
  shows "t' < length es" "ring es h n = ring es h (n - 1) @ [es ! t']"
    "ring_ok N (Some (es[t' := z])) cap h t' (n - 1)"
    "ring (es[t' := z]) h (n - 1) = ring es h (n - 1)"
    "ring (es[t' := z]) h n = ring es h (n - 1) @ [z]"
    "ring_ok N (Some (es[t' := z])) cap h t n"
proof -
  have *: "length es = N" "cap = N" "h < N" "n \<le> N" "t = (h + n) mod N"
    using assms by (auto simp: ring_ok_def)
  have t': "t' = (h + (n - 1)) mod N"
  proof (cases "h + n = N")
    case True
    then show ?thesis
      using * assms(3) by (simp add: t'_def)
  next
    case False
    have "(h + n) mod N = (if h + n < N then h + n else h + n - N)"
      using * by (simp add: mod_if)
    moreover have "(h + (n - 1)) mod N = (if h + n < N then h + n - 1 else h + n - 1 - N)"
      using * False assms(3) by (auto simp: mod_if)
    ultimately show ?thesis
      using False * assms(3) by (auto simp: t'_def)
  qed
  show "t' < length es"
    using t' * assms(3) by (simp add: mod_below)
  show "ring es h n = ring es h (n - 1) @ [es ! t']"
    using ring_unpush [of es h "n - 1"] * t' assms(3) by simp
  show "ring_ok N (Some (es[t' := z])) cap h t' (n - 1)" "ring_ok N (Some (es[t' := z])) cap h t n"
    using * t' by (auto simp: ring_ok_def)
  show "ring (es[t' := z]) h (n - 1) = ring es h (n - 1)"
    using ring_upd_other [of "n - 1" "n - 1" es h z] * t' assms(3) by simp
  show "ring (es[t' := z]) h n = ring es h (n - 1) @ [z]"
    using ring_push [of "n - 1" es h z] * t' assms(3) by simp
qed

section \<open>The invariant\<close>

definition paced_items :: "sfu_paced_send \<Rightarrow> sfu_paced_send_entry list" where
  "paced_items q = ring_items (ps_entries q) (ps_head q) (ps_count q)"

text \<open>The time, rounded up to microseconds, that \<open>len\<close> bytes take at \<open>rate\<close> bits per second; a packet is
  never sent slower than the lowest rate for its kind of frame.\<close>

definition serialised :: "u16 \<Rightarrow> int \<Rightarrow> int \<Rightarrow> bool" where
  "serialised len rate span \<longleftrightarrow> (span - 1) * rate < uint len * 8000000 \<and> uint len * 8000000 \<le> span * rate"

definition floor_rate :: "bool \<Rightarrow> int" where
  "floor_rate is_keyframe = (if is_keyframe then 5000000 else 2000000)"

definition entry_serialised :: "sfu_paced_send_entry \<Rightarrow> bool" where
  "entry_serialised e \<longleftrightarrow>
     (\<exists>rate. floor_rate (md_is_keyframe (se_metadata e)) \<le> rate \<and> serialised (se_len e) rate (se_span_us e))"

lemma entry_serialised_update [simp]:
  "entry_serialised (e\<lparr>se_release_at_us := t\<rparr>) = entry_serialised e"
  "entry_serialised (e\<lparr>se_metadata := (se_metadata e)\<lparr>md_frame_end := b\<rparr>\<rparr>) = entry_serialised e"
  by (simp_all add: entry_serialised_def)

definition paced_entry_ok :: "sfu_paced_send_entry \<Rightarrow> bool" where
  "paced_entry_ok e \<longleftrightarrow> length (se_data e) = unat (se_len e) \<and> 0 < se_len e \<and> unat (se_len e) \<le> 2048 \<and>
     length (se_rtx_plaintext e) = unat (se_rtx_plaintext_len e) \<and> unat (se_rtx_plaintext_len e) \<le> 2048 \<and>
     se_pacer e \<and> res_active (se_reservation e) \<and> entry_serialised e"

text \<open>Release times leave each packet the time it takes at the pacing rate, and \<open>t\<close> is after the last.\<close>

definition spaced :: "sfu_paced_send_entry list \<Rightarrow> int \<Rightarrow> bool" where
  "spaced es t \<longleftrightarrow> sorted_wrt (\<lambda>a b. se_release_at_us a + se_span_us a \<le> se_release_at_us b) es \<and>
     (\<forall>e \<in> set es. 0 < se_span_us e \<and> se_release_at_us e + se_span_us e \<le> t)"

definition paced_ring_ok :: "sfu_paced_send \<Rightarrow> bool" where
  "paced_ring_ok q \<longleftrightarrow> ring_ok SFU_PACED_SEND_CAPACITY (ps_entries q) (ps_capacity q) (ps_head q) (ps_tail q) (ps_count q)"

definition paced_inv :: "sfu_paced_send \<Rightarrow> bool" where
  "paced_inv q \<longleftrightarrow> paced_ring_ok q \<and>
     ps_count q = ps_ready_count q + ps_input_frame_queued_packets q \<and>
     (\<not> ps_input_frame_active q \<longrightarrow> ps_input_frame_queued_packets q = 0) \<and>
     (ps_drop_input_frame q \<longrightarrow> ps_input_frame_queued_packets q = 0) \<and>
     list_all paced_entry_ok (paced_items q) \<and> spaced (paced_items q) (ps_next_release_us q) \<and>
     (ps_input_frame_active q \<longrightarrow>
        spaced (take (ps_ready_count q) (paced_items q)) (ps_input_frame_base_next_release_us q))"

definition charges :: "sfu_paced_send_entry list \<Rightarrow> int" where
  "charges es = sum_list (map (\<lambda>e. charge (se_reservation e)) es)"

text \<open>The pacer of the session: what it has reserved is what the packets of this queue hold, and
  \<open>others\<close> for the other users of the pacer.\<close>

definition paced_state :: "int \<Rightarrow> sfu_paced_send \<Rightarrow> sfu_pacer \<Rightarrow> bool" where
  "paced_state others q p \<longleftrightarrow> paced_inv q \<and> pacer_inv p \<and> reserved_bytes p = others + charges (paced_items q)"

lemma paced_stateD:
  assumes "paced_state others q p"
  shows "paced_ring_ok q" "list_all paced_entry_ok (paced_items q)" "spaced (paced_items q) (ps_next_release_us q)"
    "pacer_inv p" "reserved_bytes p = others + charges (paced_items q)"
    "ps_count q = ps_ready_count q + ps_input_frame_queued_packets q"
    "\<not> ps_input_frame_active q \<Longrightarrow> ps_input_frame_queued_packets q = 0"
    "ps_drop_input_frame q \<Longrightarrow> ps_input_frame_queued_packets q = 0"
    "ps_input_frame_active q \<Longrightarrow>
       spaced (take (ps_ready_count q) (paced_items q)) (ps_input_frame_base_next_release_us q)"
  using assms unfolding paced_state_def paced_inv_def by blast+

lemma charges_simps [simp]:
  "charges [] = 0" "charges (e # es) = charge (se_reservation e) + charges es"
  "charges (es @ es') = charges es + charges es'"
  by (simp_all add: charges_def)

lemma spaced_simps [simp]: "spaced [] t"
  by (simp add: spaced_def)

lemma spaced_append:
  "spaced es t \<Longrightarrow> t \<le> se_release_at_us e \<Longrightarrow> 0 < se_span_us e \<Longrightarrow> se_release_at_us e + se_span_us e \<le> t' \<Longrightarrow>
   spaced (es @ [e]) t'"
  by (fastforce simp: spaced_def sorted_wrt_append)

lemma spaced_sub: "spaced (xs @ ys) t \<Longrightarrow> spaced xs t" "spaced (xs @ ys) t \<Longrightarrow> spaced ys t"
  by (auto simp: spaced_def sorted_wrt_append)

lemma spaced_drop: "spaced es t \<Longrightarrow> spaced (drop n es) t" "spaced es t \<Longrightarrow> spaced (take n es) t"
  using spaced_sub [of "take n es" "drop n es" t] by simp_all

lemma spaced_Cons: "spaced (e # es) t \<Longrightarrow> spaced es t"
  by (simp add: spaced_def)

lemma settle_entry_ok:
  assumes "pacer_inv p" "se_pacer e"
  shows "pacer_inv (cancel_entry p e) \<and> reserved_bytes (cancel_entry p e) = reserved_bytes p - charge (se_reservation e)"
    and "pacer_inv (commit_entry p e) \<and> reserved_bytes (commit_entry p e) = reserved_bytes p - charge (se_reservation e)"
  using assms by (auto simp: cancel_entry_def commit_entry_def sfu_pacer_cancel_def sfu_pacer_commit_def Let_def
      charge_def pacer_inv_def intro: order_trans)

text \<open>The head and the last packet of a queue.\<close>

lemma paced_head:
  assumes "paced_ring_ok q" "0 < ps_count q"
  obtains es where "ps_entries q = Some es" "ps_head q < length es" "paced_items q = es ! ps_head q #
    ring es ((ps_head q + 1) mod ps_capacity q) (ps_count q - 1)"
    "ring_ok SFU_PACED_SEND_CAPACITY (Some es) (ps_capacity q) (ps_head q) (ps_tail q) (ps_count q)"
proof -
  obtain es where "ps_entries q = Some es"
    using assms by (auto simp: paced_ring_ok_def elim: ring_ok_SomeE)
  then show ?thesis
    using that assms ring_ok_pop [of SFU_PACED_SEND_CAPACITY es "ps_capacity q" "ps_head q" "ps_tail q" "ps_count q"]
    by (simp add: paced_ring_ok_def paced_items_def)
qed

abbreviation paced_last :: "sfu_paced_send \<Rightarrow> nat" where
  "paced_last q \<equiv> (if ps_tail q = 0 then ps_capacity q - 1 else ps_tail q - 1)"

lemma paced_tail:
  assumes "paced_ring_ok q" "0 < ps_count q"
  obtains es where "ps_entries q = Some es" "paced_last q < length es"
    "paced_items q = ring es (ps_head q) (ps_count q - 1) @ [es ! paced_last q]"
    "ring_ok SFU_PACED_SEND_CAPACITY (Some es) (ps_capacity q) (ps_head q) (ps_tail q) (ps_count q)"
proof -
  obtain es where "ps_entries q = Some es"
    using assms by (auto simp: paced_ring_ok_def elim: ring_ok_SomeE)
  then show ?thesis
    using that assms ring_ok_unpush [of SFU_PACED_SEND_CAPACITY es "ps_capacity q" "ps_head q" "ps_tail q" "ps_count q"]
    unfolding paced_ring_ok_def paced_items_def by simp
qed

lemma paced_items_length [simp]: "paced_ring_ok q \<Longrightarrow> length (paced_items q) = ps_count q"
  by (simp add: paced_ring_ok_def paced_items_def)

section \<open>Rolling back a frame\<close>

definition rolled_back :: "sfu_paced_send \<Rightarrow> sfu_pacer \<Rightarrow> nat \<Rightarrow> sfu_paced_send \<times> sfu_pacer \<Rightarrow> bool" where
  "rolled_back q p n = (\<lambda>(q', p').
     (\<exists>es t a b. q' = q\<lparr>ps_tail := t, ps_entries := es, ps_count := ps_count q - n,
        ps_rolled_back_publisher_peer_id := a, ps_rolled_back_media_ssrc := b\<rparr>) \<and>
     paced_ring_ok q' \<and> paced_items q' = take (ps_count q - n) (paced_items q) \<and> pacer_inv p' \<and>
     reserved_bytes p' = reserved_bytes p - charges (drop (ps_count q - n) (paced_items q)))"

lemma rolled_back_0:
  "paced_ring_ok q \<Longrightarrow> pacer_inv p \<Longrightarrow> rolled_back q p 0 (q, p)"
  unfolding rolled_back_def prod.case
  by (intro conjI exI [of _ "ps_entries q"] exI [of _ "ps_tail q"] exI [of _ "ps_rolled_back_publisher_peer_id q"]
      exI [of _ "ps_rolled_back_media_ssrc q"]) simp_all

lemma rolled_back_Suc:
  assumes "paced_items q = es @ [e]" "ps_count q = length es + 1" "Suc n \<le> ps_count q"
    "q1 = q\<lparr>ps_tail := t, ps_entries := eo, ps_count := ps_count q - 1,
      ps_rolled_back_publisher_peer_id := a, ps_rolled_back_media_ssrc := b\<rparr>" "paced_items q1 = es"
    "reserved_bytes p1 = reserved_bytes p - charge (se_reservation e)" "rolled_back q1 p1 n r"
  shows "rolled_back q p (Suc n) r"
proof -
  obtain q' p' where r: "r = (q', p')"
    by (cases r)
  have frame: "\<exists>es t a b. q' = q\<lparr>ps_tail := t, ps_entries := es, ps_count := ps_count q - Suc n,
      ps_rolled_back_publisher_peer_id := a, ps_rolled_back_media_ssrc := b\<rparr>"
    using assms(2,7) unfolding rolled_back_def r prod.case assms(4) by fastforce
  have "ps_count q1 - n = ps_count q - Suc n" "ps_count q - Suc n \<le> length es"
    using assms(2,4) by simp_all
  then show ?thesis
    using assms(1,5,6,7) frame unfolding rolled_back_def r prod.case by simp
qed

lemma rollback_loop_ok:
  assumes "paced_ring_ok q" "n \<le> ps_count q" "list_all paced_entry_ok (paced_items q)" "pacer_inv p"
  shows "ok (rollback_loop n q p) (rolled_back q p n)"
  using assms
proof (induction n arbitrary: q p)
  case 0
  then show ?case
    by (simp add: ok_simps rolled_back_0)
next
  case (Suc n)
  have "0 < ps_count q"
    using Suc.prems(2) by simp
  then obtain es where es: "ps_entries q = Some es" "paced_last q < length es"
    "paced_items q = ring es (ps_head q) (ps_count q - 1) @ [es ! paced_last q]"
    "ring_ok SFU_PACED_SEND_CAPACITY (Some es) (ps_capacity q) (ps_head q) (ps_tail q) (ps_count q)"
    by (rule paced_tail [OF Suc.prems(1)])
  define e where "e = es ! paced_last q"
  define a where "a = (if md_publisher_peer_id (se_metadata e) \<noteq> 0 then md_publisher_peer_id (se_metadata e)
    else ps_rolled_back_publisher_peer_id q)"
  define b where "b = (if md_media_ssrc (se_metadata e) \<noteq> 0 then md_media_ssrc (se_metadata e)
    else ps_rolled_back_media_ssrc q)"
  define q1 where "q1 = q\<lparr>ps_tail := paced_last q, ps_entries := Some (es[paced_last q := paced_entry_zero]),
    ps_count := ps_count q - 1, ps_rolled_back_publisher_peer_id := a, ps_rolled_back_media_ssrc := b\<rparr>"
  note unpush = ring_ok_unpush(3,4) [OF es(4) \<open>0 < ps_count q\<close>, of paced_entry_zero]
  have q1: "paced_ring_ok q1" "paced_items q1 = ring es (ps_head q) (ps_count q - 1)" "ps_count q1 = ps_count q - 1"
    using unpush by (simp_all add: q1_def paced_ring_ok_def paced_items_def)
  have p1: "pacer_inv (cancel_entry p e)"
      "reserved_bytes (cancel_entry p e) = reserved_bytes p - charge (se_reservation e)"
    using settle_entry_ok(1) [OF Suc.prems(4), of e] Suc.prems(3) es(3) by (simp_all add: e_def paced_entry_ok_def)
  have "ok (rollback_loop n q1 (cancel_entry p e)) (rolled_back q1 (cancel_entry p e) n)"
    using Suc.IH [OF q1(1) _ _ p1(1)] q1 Suc.prems(2,3) es(3) by simp
  then have "ok (rollback_loop n q1 (cancel_entry p e)) (rolled_back q p (Suc n))"
    by (rule ok_mono) (rule rolled_back_Suc [OF es(3) [folded e_def] _ Suc.prems(2) q1_def q1(2) p1(2)],
        use \<open>0 < ps_count q\<close> in simp)
  moreover have "rollback_loop (Suc n) q p = rollback_loop n q1 (cancel_entry p e)"
    using es(1,2) unfolding rollback_loop.simps Let_def q1_def a_def b_def e_def by simp
  ultimately show ?case
    by simp
qed

text \<open>After a rollback the queue holds the complete frames only.\<close>

definition frame_cut :: "int \<Rightarrow> sfu_paced_send \<Rightarrow> sfu_paced_send \<times> sfu_pacer \<Rightarrow> bool" where
  "frame_cut others q = (\<lambda>(q', p').
     paced_state others q' p' \<and> paced_items q' = take (ps_ready_count q) (paced_items q) \<and>
     ps_input_frame_queued_packets q' = 0 \<and> ps_ready_count q' = ps_ready_count q \<and>
     ps_input_frame_active q' = ps_input_frame_active q)"

lemma rollback_ok:
  assumes "paced_state others q p"
  shows "ok (sfu_paced_send_rollback_input_frame q p) (frame_cut others q)"
proof (cases "ps_input_frame_queued_packets q = 0")
  case True
  then have "take (ps_ready_count q) (paced_items q) = paced_items q"
    using assms by (simp add: paced_state_def paced_inv_def)
  then show ?thesis
    using True assms by (simp add: sfu_paced_send_rollback_input_frame_def ok_simps frame_cut_def)
next
  case False
  define n where "n = ps_input_frame_queued_packets q"
  define q0 where "q0 = q\<lparr>ps_rolled_back_packet_count := of_nat (ps_input_frame_queued_packets q)\<rparr>"
  have inv: "paced_ring_ok q" "ps_count q = ps_ready_count q + n" "ps_input_frame_active q"
      "list_all paced_entry_ok (paced_items q)" "spaced (take (ps_ready_count q) (paced_items q))
        (ps_input_frame_base_next_release_us q)" "pacer_inv p" "reserved_bytes p = others + charges (paced_items q)"
    using assms False by (auto simp: paced_state_def paced_inv_def n_def)
  have q0: "paced_ring_ok q0" "paced_items q0 = paced_items q" "ps_count q0 = ps_count q"
    using inv(1) by (simp_all add: q0_def paced_ring_ok_def paced_items_def)
  have "ps_entries q \<noteq> None"
    using inv(1,2) False by (auto simp: paced_ring_ok_def ring_ok_def n_def split: option.splits)
  have "charges (paced_items q) = charges (take (ps_ready_count q) (paced_items q)) +
      charges (drop (ps_ready_count q) (paced_items q))"
    by (metis append_take_drop_id charges_simps(3))
  moreover have "list_all paced_entry_ok (take (ps_ready_count q) (paced_items q))"
    using inv(4) by (metis append_take_drop_id list_all_append)
  ultimately have rest: "frame_cut others q (if ps_count q'' = 0
        then q''\<lparr>ps_head := 0, ps_tail := 0, ps_next_release_us := 0, ps_ready_frame_count := 0\<rparr> else q'', p')"
    if "rolled_back q0 p n (q', p')" "q'' = q'\<lparr>ps_next_release_us := ps_input_frame_base_next_release_us q',
        ps_input_frame_queued_packets := 0, ps_input_frame_is_keyframe := False\<rparr>" for q' p' q''
    using that inv q0
    by (auto simp: rolled_back_def frame_cut_def paced_state_def paced_inv_def q0_def paced_items_def
        paced_ring_ok_def ring_ok_def ring_items_def split: option.splits)
  have "ok (rollback_loop n q0 p) (rolled_back q0 p n)"
    using rollback_loop_ok [OF q0(1) _ _ inv(6), of n] inv(2,4) q0 by simp
  then have "ok (do {
      (q, p) \<leftarrow> rollback_loop n q0 p;
      let q = q\<lparr>ps_next_release_us := ps_input_frame_base_next_release_us q,
        ps_input_frame_queued_packets := 0, ps_input_frame_is_keyframe := False\<rparr>;
      let q = (if ps_count q = 0
        then q\<lparr>ps_head := 0, ps_tail := 0, ps_next_release_us := 0, ps_ready_frame_count := 0\<rparr> else q);
      Some (q, p) }) (frame_cut others q)"
  proof (rule ok_bindI, goal_cases)
    case (1 r)
    then show ?case
      using rest [OF _ refl, of "fst r" "snd r"] by (simp add: case_prod_beta Let_def ok_Some)
  qed
  moreover have "\<not> (ps_entries q = None \<or> ps_input_frame_queued_packets q = 0 \<or>
      ps_input_frame_queued_packets q > ps_count q)"
    using False inv(2) \<open>ps_entries q \<noteq> None\<close> by (simp add: n_def)
  ultimately show ?thesis
    unfolding sfu_paced_send_rollback_input_frame_def n_def q0_def by (simp only: if_False)
qed

section \<open>Admitting and finishing a frame\<close>

lemma paced_state_frame:
  assumes "paced_state others q p" "ps_entries q' = ps_entries q" "ps_capacity q' = ps_capacity q"
    "ps_head q' = ps_head q" "ps_tail q' = ps_tail q" "ps_count q' = ps_count q"
    "ps_ready_count q' = ps_ready_count q" "ps_next_release_us q' = ps_next_release_us q"
    "ps_input_frame_queued_packets q' = ps_input_frame_queued_packets q"
    "\<not> ps_input_frame_active q' \<or> ps_drop_input_frame q' \<Longrightarrow> ps_input_frame_queued_packets q = 0"
    "ps_input_frame_active q' \<Longrightarrow>
      ps_input_frame_active q \<and> ps_input_frame_base_next_release_us q' = ps_input_frame_base_next_release_us q \<or>
      ps_input_frame_base_next_release_us q' = ps_next_release_us q"
  shows "paced_state others q' p \<and> paced_items q' = paced_items q"
proof -
  have items: "paced_items q' = paced_items q"
    by (simp add: paced_items_def assms(2-6))
  have "spaced (take (ps_ready_count q) (paced_items q)) (ps_input_frame_base_next_release_us q')"
    if "ps_input_frame_active q'"
    using assms(11) [OF that] assms(1) spaced_drop(2) [of "paced_items q" "ps_next_release_us q" "ps_ready_count q"]
    by (auto simp: paced_state_def paced_inv_def)
  then show ?thesis
    using assms unfolding paced_state_def paced_inv_def paced_ring_ok_def items by auto
qed

text \<open>Admission discards at most the packets of an unfinished frame.\<close>

definition admitted_state :: "int \<Rightarrow> sfu_paced_send \<Rightarrow> sfu_paced_send \<times> sfu_pacer \<Rightarrow> bool" where
  "admitted_state others q = (\<lambda>(q', p'). paced_state others q' p' \<and>
     (paced_items q' = paced_items q \<or> paced_items q' = take (ps_ready_count q) (paced_items q)) \<and>
     ps_ready_count q' = ps_ready_count q)"

lemma open_frame_fields:
  "ps_entries (open_frame q ts k d m now) = ps_entries q" "ps_capacity (open_frame q ts k d m now) = ps_capacity q"
  "ps_head (open_frame q ts k d m now) = ps_head q" "ps_tail (open_frame q ts k d m now) = ps_tail q"
  "ps_count (open_frame q ts k d m now) = ps_count q" "ps_ready_count (open_frame q ts k d m now) = ps_ready_count q"
  "ps_next_release_us (open_frame q ts k d m now) = ps_next_release_us q"
  "ps_input_frame_queued_packets (open_frame q ts k d m now) = 0" "ps_input_frame_active (open_frame q ts k d m now)"
  "ps_input_frame_base_next_release_us (open_frame q ts k d m now) = ps_next_release_us q"
  "ps_input_timestamp (open_frame q ts k d m now) = ts"
  by (simp_all add: open_frame_def Let_def)

lemma open_frame_state:
  assumes "paced_state others q p" "ps_input_frame_queued_packets q = 0"
  shows "paced_state others (open_frame q ts k d m now) p \<and> paced_items (open_frame q ts k d m now) = paced_items q"
  by (rule paced_state_frame [OF assms(1)]) (simp_all add: open_frame_fields assms(2))

lemma admit_new_frame_ok:
  assumes "paced_state others q p" "\<not> ps_input_frame_active q \<or> ps_input_timestamp q \<noteq> rtp_timestamp"
  shows "ok (admit_new_frame q p rtp_timestamp keyframe drop_on_delay max_delay_us now_us) (admitted_state others q)"
proof (cases "ps_input_frame_active q")
  case True
  have "admitted_state others q (open_frame (q'\<lparr>ps_input_frame_active := False, ps_drop_input_frame := False,
      ps_input_frame_is_keyframe := False\<rparr>) rtp_timestamp keyframe drop_on_delay max_delay_us now_us, p')"
    if "frame_cut others q (q', p')" for q' p'
  proof -
    define q1 where "q1 = q'\<lparr>ps_input_frame_active := False, ps_drop_input_frame := False,
      ps_input_frame_is_keyframe := False\<rparr>"
    have "paced_state others q1 p' \<and> paced_items q1 = paced_items q'"
      using that by (intro paced_state_frame [of others q']) (simp_all add: frame_cut_def q1_def)
    then show ?thesis
      using that open_frame_state [of others q1 p']
      by (simp add: frame_cut_def q1_def [symmetric] admitted_state_def open_frame_fields) (simp add: q1_def)
  qed
  then show ?thesis
    using True assms(2) rollback_ok [OF assms(1)]
    by (auto simp: admit_new_frame_def ok_simps elim!: ok_mono)
next
  case False
  then have "ps_input_frame_queued_packets q = 0"
    using assms(1) by (simp add: paced_state_def paced_inv_def)
  then show ?thesis
    using False open_frame_state [OF assms(1)]
    by (simp add: admit_new_frame_def ok_simps admitted_state_def open_frame_fields)
qed

lemma admit_packet_state:
  assumes "paced_state others q p" "admit_packet q marker keyframe = (q', admitted)"
  shows "paced_state others q' p \<and> paced_items q' = paced_items q \<and> ps_ready_count q' = ps_ready_count q"
proof -
  have inv: "ps_drop_input_frame q \<Longrightarrow> ps_input_frame_queued_packets q = 0"
      "\<not> ps_input_frame_active q \<Longrightarrow> ps_input_frame_queued_packets q = 0"
    using assms(1) by (simp_all add: paced_state_def paced_inv_def)
  have "paced_state others q' p \<and> paced_items q' = paced_items q"
    by (rule paced_state_frame [OF assms(1)])
      (use assms(2) inv in \<open>auto simp: admit_packet_def Let_def split: if_splits\<close>)
  then show ?thesis
    using assms(2) by (auto simp: admit_packet_def Let_def split: if_splits)
qed

lemma admit_ok:
  assumes "paced_state others q p"
  shows "ok (sfu_paced_send_admit_frame_packet q p rtp_timestamp marker keyframe drop_on_delay max_delay_us now_us)
    (\<lambda>(q', p', admitted). admitted_state others q (q', p'))"
proof -
  have *: "admitted_state others q (fst (admit_packet q' marker keyframe), p')" if "admitted_state others q (q', p')" for q' p'
    using that admit_packet_state [of others q' p' marker keyframe] by (cases "admit_packet q' marker keyframe")
      (auto simp: admitted_state_def)
  have refl: "admitted_state others q (q, p)"
    using assms by (simp add: admitted_state_def)
  show ?thesis
    unfolding sfu_paced_send_admit_frame_packet_def
    using admit_new_frame_ok [OF assms, of rtp_timestamp keyframe drop_on_delay max_delay_us now_us] * refl
    by (auto simp: ok_simps case_prod_beta elim!: ok_mono)
qed

definition mark_end :: "sfu_paced_send_entry \<Rightarrow> sfu_paced_send_entry" where
  "mark_end e = e\<lparr>se_metadata := (se_metadata e)\<lparr>md_frame_end := True\<rparr>\<rparr>"

definition mark_last :: "sfu_paced_send_entry list \<Rightarrow> sfu_paced_send_entry list" where
  "mark_last es = (if es = [] then [] else butlast es @ [mark_end (last es)])"

lemma mark_last_props [simp]:
  "charges (mark_last es) = charges es" "spaced (mark_last es) t = spaced es t"
  "list_all paced_entry_ok (mark_last es) = list_all paced_entry_ok es" "length (mark_last es) = length es"
  by (cases es rule: rev_cases; simp add: mark_last_def mark_end_def spaced_def sorted_wrt_append paced_entry_ok_def)+

lemma finish_ok:
  assumes "paced_state others q p"
  shows "ok (sfu_paced_send_finish_input_frame q) (\<lambda>q'. paced_state others q' p \<and> \<not> ps_input_frame_active q' \<and>
    ps_ready_count q' = length (paced_items q') \<and>
    paced_items q' = (if ps_input_frame_queued_packets q = 0 then paced_items q else mark_last (paced_items q)))"
proof (cases "ps_input_frame_active q \<and> ps_input_frame_queued_packets q \<noteq> 0")
  case False
  then show ?thesis
    using assms by (auto simp: sfu_paced_send_finish_input_frame_def ok_simps paced_state_def paced_inv_def
        paced_items_def paced_ring_ok_def Let_def)
next
  case True
  have inv: "paced_ring_ok q" "ps_count q = ps_ready_count q + ps_input_frame_queued_packets q"
      "list_all paced_entry_ok (paced_items q)" "spaced (paced_items q) (ps_next_release_us q)"
    using assms by (simp_all add: paced_state_def paced_inv_def)
  then have pos: "0 < ps_count q"
    using True by simp
  obtain es where es: "ps_entries q = Some es" "paced_last q < length es"
    "paced_items q = ring es (ps_head q) (ps_count q - 1) @ [es ! paced_last q]"
    "ring_ok SFU_PACED_SEND_CAPACITY (Some es) (ps_capacity q) (ps_head q) (ps_tail q) (ps_count q)"
    by (rule paced_tail [OF inv(1) pos])
  define q' where "q' = q\<lparr>ps_entries := Some (es[paced_last q := mark_end (es ! paced_last q)]),
    ps_ready_frame_count := ps_ready_frame_count q + 1,
    ps_ready_count := ps_ready_count q + ps_input_frame_queued_packets q,
    ps_input_frame_queued_packets := 0, ps_input_frame_active := False, ps_drop_input_frame := False,
    ps_input_frame_is_keyframe := False\<rparr>"
  note upd = ring_ok_unpush(5,6) [OF es(4) pos, of "mark_end (es ! paced_last q)"]
  have items: "paced_items q' = mark_last (paced_items q)"
    unfolding paced_items_def q'_def using upd(1) es(1,3) by (simp add: mark_last_def paced_items_def)
  have "paced_ring_ok q'"
    using upd(2) by (simp add: paced_ring_ok_def q'_def)
  then have "paced_state others q' p"
    using assms inv items by (simp add: paced_state_def paced_inv_def q'_def)
  moreover have "sfu_paced_send_finish_input_frame q = Some q'"
  proof -
    define l where "l = paced_last q"
    show ?thesis
      using True es(1,2) unfolding sfu_paced_send_finish_input_frame_def q'_def mark_end_def Let_def
        l_def [symmetric] by simp
  qed
  ultimately show ?thesis
    using True items \<open>paced_ring_ok q'\<close> inv by (simp add: ok_simps q'_def)
qed

lemma reject_state:
  "paced_state others q p \<Longrightarrow> ps_input_frame_queued_packets q = 0 \<Longrightarrow>
   paced_state others (sfu_paced_send_reject_input_frame q) p \<and>
   paced_items (sfu_paced_send_reject_input_frame q) = paced_items q"
  by (rule paced_state_frame) (auto simp: sfu_paced_send_reject_input_frame_def)

section \<open>Enqueueing\<close>

lemma paced_span_pos: "0 < len \<Longrightarrow> 0 < paced_span_us len bps k"
proof -
  assume "0 < len"
  then have "1 \<le> uint len"
    by (simp add: word_less_alt)
  moreover have "0 < uint rate \<Longrightarrow> 0 < (uint len * 8 * 1000000 + uint rate - 1) div uint rate" for rate :: u32
    using calculation by (subst pos_imp_zdiv_pos_iff) auto
  ultimately show ?thesis
    by (auto simp: paced_span_us_def Let_def word_less_alt)
qed

lemma ceiling_div:
  fixes a r :: int
  assumes "0 < r"
  shows "((a + r - 1) div r - 1) * r < a \<and> a \<le> (a + r - 1) div r * r"
proof -
  have "(a + r - 1) div r * r = a + r - 1 - (a + r - 1) mod r"
    by (simp add: minus_mod_eq_div_mult)
  then show ?thesis
    using pos_mod_bound [OF assms, of "a + r - 1"] pos_mod_sign [OF assms, of "a + r - 1"]
    by (simp add: left_diff_distrib)
qed

lemma paced_span_serialised:
  "serialised len (max (uint bps) (floor_rate k)) (paced_span_us len bps k)"
proof -
  have "uint (if bps < r then r else bps) = max (uint bps) (uint r)" for r :: u32
    by (auto simp: word_less_alt)
  from this [of 5000000] this [of 2000000]
  have "paced_span_us len bps k = (uint len * 8000000 + max (uint bps) (floor_rate k) - 1) div max (uint bps) (floor_rate k)"
    by (cases k) (simp_all add: paced_span_us_def floor_rate_def Let_def mult.commute del: if_split)
  moreover have "0 < max (uint bps) (floor_rate k)"
    by (simp add: floor_rate_def less_max_iff_disj)
  ultimately show ?thesis
    using ceiling_div [of "max (uint bps) (floor_rate k)" "uint len * 8000000"] by (simp add: serialised_def)
qed

lemma paced_span_rate: "\<exists>rate \<ge> floor_rate k. serialised len rate (paced_span_us len bps k)"
  using paced_span_serialised [of len bps k] max.cobounded2 by blast

text \<open>The entry a packet becomes, and when it is accepted.\<close>

definition paced_entry ::
    "sfu_paced_send \<Rightarrow> bytes \<Rightarrow> u16 \<Rightarrow> bytes \<Rightarrow> u16 \<Rightarrow> bytes \<Rightarrow> nat \<Rightarrow> u8 \<Rightarrow> u32 \<Rightarrow> sfu_pacer_reservation \<Rightarrow>
     sfu_paced_send_metadata \<Rightarrow> int \<Rightarrow> sfu_paced_send_entry" where
  "paced_entry q data len rtx rtx_len dst dst_len cls bps r m now_us =
     \<lparr>se_release_at_us = max (ps_next_release_us q) now_us, se_enqueued_at_us = now_us,
      se_span_us = paced_span_us len bps (md_is_keyframe m), se_dst = dst, se_dst_len = dst_len, se_len = len,
      se_rtx_plaintext_len = rtx_len, se_pacer_class = cls, se_pacer = True, se_reservation = r,
      se_metadata = m, se_data = take (unat len) data, se_rtx_plaintext = take (unat rtx_len) rtx\<rparr>"

definition paced_room :: "bool \<Rightarrow> sfu_paced_send \<Rightarrow> u16 \<Rightarrow> u16 \<Rightarrow> sfu_pacer_reservation \<Rightarrow> bool" where
  "paced_room alloc_ok q len rtx_len r \<longleftrightarrow> res_active r \<and> len \<noteq> 0 \<and> len \<le> SFU_PACED_SEND_MAX_PAYLOAD \<and>
     rtx_len \<le> SFU_PACED_SEND_MAX_PAYLOAD \<and> (ps_entries q \<noteq> None \<or> alloc_ok) \<and>
     ps_count q < SFU_PACED_SEND_CAPACITY"

definition paced_alloc :: "sfu_paced_send \<Rightarrow> sfu_paced_send" where
  "paced_alloc q = (if ps_entries q = None
     then q\<lparr>ps_entries := Some (replicate SFU_PACED_SEND_CAPACITY paced_entry_zero),
       ps_capacity := SFU_PACED_SEND_CAPACITY\<rparr> else q)"

lemma paced_alloc_state:
  "paced_state others q p \<Longrightarrow> paced_state others (paced_alloc q) p \<and> paced_items (paced_alloc q) = paced_items q \<and>
   ps_capacity (paced_alloc q) = SFU_PACED_SEND_CAPACITY \<and>
   (\<exists>es. ps_entries (paced_alloc q) = Some es \<and> paced_alloc q = q\<lparr>ps_entries := Some es, ps_capacity := SFU_PACED_SEND_CAPACITY\<rparr>)"
  by (cases "ps_entries q") (auto simp: paced_alloc_def paced_state_def paced_inv_def paced_ring_ok_def ring_ok_def
      paced_items_def ring_items_def)

lemma enqueue_ok:
  assumes "paced_state (others + charge r) q p" "ps_input_frame_active q" "\<not> ps_drop_input_frame q"
    "unat len \<le> length data" "unat rtx_len \<le> length rtx"
  shows "ok (sfu_paced_send_enqueue alloc_ok q data len rtx rtx_len dst dst_len cls bps True r m now_us)
    (\<lambda>(q', r', res).
       if paced_room alloc_ok q len rtx_len r
       then res = Accept (max (ps_next_release_us q) now_us) \<and> \<not> res_active r' \<and> paced_state others q' p \<and>
         paced_items q' = paced_items q @ [paced_entry q data len rtx rtx_len dst dst_len cls bps r m now_us] \<and>
         ps_next_release_us q' = max (ps_next_release_us q) now_us + paced_span_us len bps (md_is_keyframe m) \<and>
         ps_input_frame_active q' \<and> \<not> ps_drop_input_frame q'
       else res = Reject \<and> r' = r \<and> paced_state (others + charge r) q' p \<and> paced_items q' = paced_items q \<and>
         ps_ready_count q' = ps_ready_count q)"
proof (cases "paced_room alloc_ok q len rtx_len r")
  case False
  note alloc = paced_alloc_state [OF assms(1)]
  have "paced_state (others + charge r) (q'\<lparr>ps_dropped_full := n\<rparr>) p \<and>
      paced_items (q'\<lparr>ps_dropped_full := n\<rparr>) = paced_items q'" if "paced_state (others + charge r) q' p" for q' n
    by (rule paced_state_frame [OF that]) (use that in \<open>auto simp: paced_state_def paced_inv_def\<close>)
  then show ?thesis
    using False alloc assms(1) unfolding sfu_paced_send_enqueue_def paced_alloc_def [symmetric]
    by (auto simp: ok_simps paced_room_def Let_def not_le)
next
  case True
  obtain es where es: "ps_entries (paced_alloc q) = Some es"
      "paced_alloc q = q\<lparr>ps_entries := Some es, ps_capacity := SFU_PACED_SEND_CAPACITY\<rparr>"
    using paced_alloc_state [OF assms(1)] by blast
  define e where "e = paced_entry q data len rtx rtx_len dst dst_len cls bps r m now_us"
  define q' where "q' = q\<lparr>ps_entries := Some (es[ps_tail q := e]), ps_capacity := SFU_PACED_SEND_CAPACITY,
    ps_tail := (ps_tail q + 1) mod SFU_PACED_SEND_CAPACITY, ps_count := ps_count q + 1,
    ps_next_release_us := se_release_at_us e + se_span_us e,
    ps_input_frame_queued_packets := ps_input_frame_queued_packets q + 1,
    ps_high_water := (if ps_count q + 1 > ps_high_water q then ps_count q + 1 else ps_high_water q)\<rparr>"
  have room: "ps_count q < SFU_PACED_SEND_CAPACITY"
      "ring_ok SFU_PACED_SEND_CAPACITY (Some es) SFU_PACED_SEND_CAPACITY (ps_head q) (ps_tail q) (ps_count q)"
      "paced_items q = ring es (ps_head q) (ps_count q)"
    using True paced_alloc_state [OF assms(1)] es
    by (auto simp: paced_room_def paced_state_def paced_inv_def paced_ring_ok_def paced_items_def)
  note tail = ring_ok_push(1) [OF room(2,1)] and push = ring_ok_push(2,3) [OF room(2,1), of e]
  have "sfu_paced_send_enqueue alloc_ok q data len rtx rtx_len dst dst_len cls bps True r m now_us =
      Some (q', r\<lparr>res_active := False\<rparr>, Accept (se_release_at_us e))"
    using True assms(2,4,5) tail room(1)
    unfolding sfu_paced_send_enqueue_def paced_alloc_def [symmetric] es(2) Let_def
    by (auto simp: paced_room_def q'_def e_def paced_entry_def max_def)
  moreover have items: "paced_items q' = paced_items q @ [e]"
    using push(2) room(3) by (simp add: q'_def paced_items_def)
  moreover have "paced_state others q' p"
  proof -
    have inv: "paced_ring_ok q" "ps_count q = ps_ready_count q + ps_input_frame_queued_packets q"
        "list_all paced_entry_ok (paced_items q)" "spaced (paced_items q) (ps_next_release_us q)" "pacer_inv p"
        "spaced (take (ps_ready_count q) (paced_items q)) (ps_input_frame_base_next_release_us q)"
        "reserved_bytes p = others + charge r + charges (paced_items q)"
      using assms(1,2) by (simp_all add: paced_state_def paced_inv_def)
    have e: "paced_entry_ok e" "0 < se_span_us e" "ps_next_release_us q \<le> se_release_at_us e" "se_reservation e = r"
      using True assms(4,5) paced_span_pos [of len] paced_span_rate [of "md_is_keyframe m" len bps]
      by (auto simp: e_def paced_entry_def paced_entry_ok_def paced_room_def word_gt_0 word_le_nat_alt
          entry_serialised_def)
    have "paced_ring_ok q'"
      using push(1) by (simp add: q'_def paced_ring_ok_def)
    moreover have "spaced (paced_items q @ [e]) (ps_next_release_us q')"
      by (rule spaced_append [OF inv(4) e(3,2)]) (simp add: q'_def)
    ultimately show ?thesis
      using inv e items assms(2,3) unfolding paced_state_def paced_inv_def items by (simp add: q'_def)
  qed
  ultimately show ?thesis
    using True assms(2,3) by (simp add: ok_simps e_def paced_entry_def q'_def)
qed

section \<open>Trimming the backlog\<close>

definition head_dropped ::
    "sfu_paced_send \<Rightarrow> sfu_pacer \<Rightarrow> nat \<Rightarrow> sfu_paced_send \<times> sfu_pacer \<times> bool \<times> u32 \<Rightarrow> bool" where
  "head_dropped q p n = (\<lambda>(q', p', frame_end, publisher). \<exists>k es h.
     k \<le> n \<and> q' = q\<lparr>ps_entries := es, ps_head := h, ps_count := ps_count q - k, ps_ready_count := ps_ready_count q - k\<rparr> \<and>
     (ps_entries q \<noteq> None \<longrightarrow> es \<noteq> None) \<and>
     paced_ring_ok q' \<and> paced_items q' = drop k (paced_items q) \<and> pacer_inv p' \<and>
     reserved_bytes p' = reserved_bytes p - charges (take k (paced_items q)) \<and>
     (\<forall>i. i + 1 < k \<longrightarrow> \<not> md_frame_end (se_metadata (paced_items q ! i))) \<and>
     (if frame_end then 0 < k \<and> md_frame_end (se_metadata (paced_items q ! (k - 1))) \<and>
        publisher = md_publisher_peer_id (se_metadata (paced_items q ! (k - 1)))
      else k = n \<and> (0 < k \<longrightarrow> \<not> md_frame_end (se_metadata (paced_items q ! (k - 1))))))"

lemma head_dropped_Suc:
  assumes "paced_items q = e # paced_items q1" "\<not> md_frame_end (se_metadata e)"
    "q1 = q\<lparr>ps_entries := Some eo, ps_head := h1, ps_count := ps_count q - 1, ps_ready_count := ps_ready_count q - 1\<rparr>"
    "reserved_bytes p1 = reserved_bytes p - charge (se_reservation e)" "head_dropped q1 p1 n r"
  shows "head_dropped q p (Suc n) r"
proof -
  obtain q' p' fe pub where r: "r = (q', p', fe, pub)"
    by (rule prod_cases4)
  obtain k es h where *: "k \<le> n" "q' = q1\<lparr>ps_entries := es, ps_head := h, ps_count := ps_count q1 - k,
        ps_ready_count := ps_ready_count q1 - k\<rparr>" "paced_ring_ok q'" "paced_items q' = drop k (paced_items q1)" "pacer_inv p'"
      "reserved_bytes p' = reserved_bytes p1 - charges (take k (paced_items q1))"
      "\<And>i. i + 1 < k \<Longrightarrow> \<not> md_frame_end (se_metadata (paced_items q1 ! i))"
      "if fe then 0 < k \<and> md_frame_end (se_metadata (paced_items q1 ! (k - 1))) \<and>
          pub = md_publisher_peer_id (se_metadata (paced_items q1 ! (k - 1)))
        else k = n \<and> (0 < k \<longrightarrow> \<not> md_frame_end (se_metadata (paced_items q1 ! (k - 1))))"
      "ps_entries q1 \<noteq> None \<longrightarrow> es \<noteq> None"
    using assms(5) unfolding r head_dropped_def prod.case by blast
  have nth: "paced_items q ! (i + 1) = paced_items q1 ! i" "paced_items q ! 0 = e" for i
    using assms(1) by simp_all
  have ends: "\<not> md_frame_end (se_metadata (paced_items q ! i))" if "i + 1 < k + 1" for i
    using that assms(2) *(7) [of "i - 1"] nth(1) [of "i - 1"] nth(2) by (cases "i = 0") auto
  have "paced_items q ! k = (if k = 0 then e else paced_items q1 ! (k - 1))"
    using nth(1) [of "k - 1"] nth(2) by auto
  then have last: "if fe then 0 < k + 1 \<and> md_frame_end (se_metadata (paced_items q ! (k + 1 - 1))) \<and>
        pub = md_publisher_peer_id (se_metadata (paced_items q ! (k + 1 - 1)))
      else k + 1 = Suc n \<and> (0 < k + 1 \<longrightarrow> \<not> md_frame_end (se_metadata (paced_items q ! (k + 1 - 1))))"
    using *(8) assms(2) by (cases fe) auto
  have frame: "q' = q\<lparr>ps_entries := es, ps_head := h, ps_count := ps_count q - (k + 1),
      ps_ready_count := ps_ready_count q - (k + 1)\<rparr>"
    using *(2) by (simp add: assms(3))
  have some: "es \<noteq> None"
    using *(9) by (simp add: assms(3))
  have lists: "k + 1 \<le> Suc n" "paced_items q' = drop (k + 1) (paced_items q)"
      "reserved_bytes p' = reserved_bytes p - charges (take (k + 1) (paced_items q))"
    using *(1,4,6) assms(4) by (simp_all add: assms(1) One_nat_def)
  show ?thesis
    unfolding r head_dropped_def prod.case
    by (intro exI conjI allI impI) (rule lists frame some *(3,5) last ends; assumption?)+
qed

lemma drop_head_frame_ok:
  assumes "paced_ring_ok q" "n \<le> ps_count q" "n \<le> ps_ready_count q" "list_all paced_entry_ok (paced_items q)" "pacer_inv p"
  shows "ok (drop_head_frame n q p pub) (head_dropped q p n)"
  using assms
proof (induction n arbitrary: q p pub)
  case 0
  then show ?case
    by (auto simp: ok_simps head_dropped_def intro!: exI [of _ "0 :: nat"] exI [of _ "ps_entries q"] exI [of _ "ps_head q"])
next
  case (Suc n)
  then have pos: "0 < ps_count q"
    by simp
  obtain es where es: "ps_entries q = Some es" "ps_head q < length es" "paced_items q = es ! ps_head q #
      ring es ((ps_head q + 1) mod ps_capacity q) (ps_count q - 1)"
      "ring_ok SFU_PACED_SEND_CAPACITY (Some es) (ps_capacity q) (ps_head q) (ps_tail q) (ps_count q)"
    by (rule paced_head [OF Suc.prems(1) pos])
  define e where "e = es ! ps_head q"
  define q1 where "q1 = q\<lparr>ps_entries := Some (es[ps_head q := paced_entry_zero]),
    ps_head := (ps_head q + 1) mod ps_capacity q, ps_count := ps_count q - 1, ps_ready_count := ps_ready_count q - 1\<rparr>"
  note pop = ring_ok_pop(4,5) [OF es(4) pos, of paced_entry_zero]
  have q1: "paced_ring_ok q1" "paced_items q = e # paced_items q1"
    using pop es(3) by (simp_all add: q1_def paced_ring_ok_def paced_items_def e_def)
  have p1: "pacer_inv (cancel_entry p e)"
      "reserved_bytes (cancel_entry p e) = reserved_bytes p - charge (se_reservation e)"
    using settle_entry_ok(1) [OF Suc.prems(5), of e] Suc.prems(4) q1(2) by (simp_all add: paced_entry_ok_def)
  have step: "drop_head_frame (Suc n) q p pub =
      (if md_frame_end (se_metadata e) then Some (q1, cancel_entry p e, True, md_publisher_peer_id (se_metadata e))
       else drop_head_frame n q1 (cancel_entry p e) (md_publisher_peer_id (se_metadata e)))"
    using es(1,2) by (simp add: q1_def e_def)
  show ?case
  proof (cases "md_frame_end (se_metadata e)")
    case True
    have "head_dropped q p (Suc n) (q1, cancel_entry p e, True, md_publisher_peer_id (se_metadata e))"
      unfolding head_dropped_def prod.case
      by (rule exI [of _ "1 :: nat"], rule exI [of _ "ps_entries q1"], rule exI [of _ "ps_head q1"])
        (use True q1 p1 in \<open>simp add: q1_def\<close>)
    then show ?thesis
      using True step by (simp add: ok_simps)
  next
    case False
    have "ok (drop_head_frame n q1 (cancel_entry p e) (md_publisher_peer_id (se_metadata e)))
        (head_dropped q1 (cancel_entry p e) n)"
      using Suc.IH [OF q1(1) _ _ _ p1(1)] Suc.prems q1(2) by (simp add: q1_def)
    moreover have "head_dropped q p (Suc n) r" if "head_dropped q1 (cancel_entry p e) n r" for r
      by (rule head_dropped_Suc [OF q1(2) False q1_def p1(2) that])
    ultimately show ?thesis
      using False step by (auto elim: ok_mono)
  qed
qed

fun rebased :: "sfu_paced_send_entry list \<Rightarrow> int \<Rightarrow> sfu_paced_send_entry list" where
  "rebased [] t = []"
| "rebased (e # es) t = e\<lparr>se_release_at_us := t\<rparr> # rebased es (t + se_span_us e)"

definition spans :: "sfu_paced_send_entry list \<Rightarrow> int" where
  "spans es = sum_list (map se_span_us es)"

lemma rebase_loop_ok:
  assumes "h < length es" "n \<le> length es" "cap = length es"
  shows "ok (rebase_loop n h cap es t) (\<lambda>(es', t'). length es' = length es \<and> ring es' h n = rebased (ring es h n) t \<and>
    t' = t + spans (ring es h n) \<and>
    (\<forall>i. n \<le> i \<longrightarrow> i < length es \<longrightarrow> es' ! ((h + i) mod length es) = es ! ((h + i) mod length es)))"
  using assms
proof (induction n arbitrary: h es t)
  case 0
  then show ?case
    by (simp add: ok_simps spans_def)
next
  case (Suc n)
  define h1 es1 where "h1 = (h + 1) mod length es" and "es1 = es[h := (es ! h)\<lparr>se_release_at_us := t\<rparr>]"
  have h1: "h1 < length es1" "length es1 = length es"
    using Suc.prems by (simp_all add: h1_def es1_def mod_below)
  have idx: "(h1 + i) mod length es = (h + (i + 1)) mod length es" for i
    unfolding h1_def by (subst mod_add_left_eq) (simp add: ac_simps)
  have other: "es1 ! ((h + i) mod length es) = es ! ((h + i) mod length es)" if "0 < i" "i < length es" for i
  proof -
    have "(h + i) mod length es \<noteq> h"
      using mod_add_inj [of i "length es" 0 h] that Suc.prems(1) by (cases "es = []") auto
    then show ?thesis
      by (simp add: es1_def)
  qed
  have tail: "ring es1 h1 n = ring es h1 n"
    by (rule nth_equalityI) (use other Suc.prems in \<open>auto simp: idx h1(2)\<close>)
  have "ok (rebase_loop n h1 cap es1 (t + se_span_us (es ! h)))
    (\<lambda>(es', t'). length es' = length es1 \<and> ring es' h1 n = rebased (ring es1 h1 n) (t + se_span_us (es ! h)) \<and>
      t' = t + se_span_us (es ! h) + spans (ring es1 h1 n) \<and>
      (\<forall>i. n \<le> i \<longrightarrow> i < length es1 \<longrightarrow> es' ! ((h1 + i) mod length es1) = es1 ! ((h1 + i) mod length es1)))"
    by (rule Suc.IH) (use Suc.prems h1 in simp_all)
  moreover have "rebase_loop (Suc n) h cap es t = rebase_loop n h1 cap es1 (t + se_span_us (es ! h))"
    using Suc.prems by (simp add: h1_def es1_def)
  moreover have "ring es h (Suc n) = es ! h # ring es h1 n"
    using ring_pop [of "Suc n" h es] Suc.prems by (simp add: h1_def)
  moreover have "es' ! ((h + i) mod length es) = es ! ((h + i) mod length es)"
    if "\<forall>i. n \<le> i \<longrightarrow> i < length es1 \<longrightarrow> es' ! ((h1 + i) mod length es1) = es1 ! ((h1 + i) mod length es1)"
      "Suc n \<le> i" "i < length es" for es' i
    using that(1) [rule_format, of "i - 1"] that(2,3) other [of i] idx [of "i - 1"] h1(2) by simp
  moreover have "ring es' h (Suc n) = (es ! h)\<lparr>se_release_at_us := t\<rparr> # ring es' h1 n"
    if "\<forall>i. n \<le> i \<longrightarrow> i < length es1 \<longrightarrow> es' ! ((h1 + i) mod length es1) = es1 ! ((h1 + i) mod length es1)"
      "length es' = length es1" for es'
  proof -
    have "(h1 + (length es - 1)) mod length es = h"
      using idx [of "length es - 1"] Suc.prems by simp
    then have "es' ! h = es1 ! h"
      using that(1) [rule_format, of "length es - 1"] Suc.prems h1(2) by simp
    then show ?thesis
      using ring_pop [of "Suc n" h es'] that(2) h1(2) Suc.prems by (simp add: h1_def es1_def)
  qed
  ultimately show ?case
    by (auto simp: tail h1(2) spans_def elim!: ok_mono)
qed

lemma rebased_props [simp]:
  "length (rebased es t) = length es" "charges (rebased es t) = charges es"
  "list_all paced_entry_ok (rebased es t) = list_all paced_entry_ok es" "map se_metadata (rebased es t) = map se_metadata es"
  by (induction es t rule: rebased.induct) (simp_all add: paced_entry_ok_def)

lemma rebased_spaced:
  assumes "\<forall>e \<in> set es. 0 < se_span_us e"
  shows "spaced (rebased es t) (t + spans es) \<and> (\<forall>e \<in> set (rebased es t). t \<le> se_release_at_us e)"
  using assms
proof (induction es arbitrary: t)
  case (Cons e es)
  have nonneg: "0 \<le> spans es"
    unfolding spans_def by (rule sum_list_nonneg) (use Cons.prems in \<open>fastforce intro: less_imp_le\<close>)
  show ?case
    using Cons.IH [of "t + se_span_us e"] Cons.prems nonneg
    by (fastforce simp: spaced_def spans_def)
qed simp

lemma rebase_ok:
  assumes "paced_state others q p" "\<not> ps_input_frame_active q" "ps_entries q \<noteq> None"
  shows "ok (rebase_backlog q now_us) (\<lambda>q'. (\<exists>es. q' = q\<lparr>ps_entries := es,
      ps_next_release_us := (if ps_count q \<noteq> 0 then now_us + spans (paced_items q) else 0)\<rparr>) \<and>
    paced_state others q' p \<and> paced_items q' = rebased (paced_items q) now_us)"
proof -
  obtain es where e: "ps_entries q = Some es"
    using assms(3) by blast
  have "ring_ok SFU_PACED_SEND_CAPACITY (Some es) (ps_capacity q) (ps_head q) (ps_tail q) (ps_count q)"
    using paced_stateD(1) [OF assms(1)] by (simp add: paced_ring_ok_def e)
  then have es: "ps_entries q = Some es" "length es = SFU_PACED_SEND_CAPACITY" "ps_capacity q = SFU_PACED_SEND_CAPACITY"
      "ps_head q < SFU_PACED_SEND_CAPACITY" "ps_count q \<le> SFU_PACED_SEND_CAPACITY"
      "ps_tail q = (ps_head q + ps_count q) mod SFU_PACED_SEND_CAPACITY" "paced_items q = ring es (ps_head q) (ps_count q)"
    by (simp_all add: ring_ok_def paced_items_def e)
  have loop: "ok (rebase_loop (ps_count q) (ps_head q) (ps_capacity q) es now_us) (\<lambda>(es', t').
      length es' = length es \<and> ring es' (ps_head q) (ps_count q) = rebased (paced_items q) now_us \<and>
      t' = now_us + spans (paced_items q))"
    unfolding es(7) by (rule ok_mono [OF rebase_loop_ok]) (use es(2-5) in \<open>simp_all add: case_prod_beta\<close>)
  have "spaced (rebased (paced_items q) now_us) (now_us + spans (paced_items q))"
    using rebased_spaced [of "paced_items q" now_us] paced_stateD(3) [OF assms(1)] by (simp add: spaced_def)
  then have state: "paced_state others q' p \<and> paced_items q' = rebased (paced_items q) now_us"
    if "q' = q\<lparr>ps_entries := Some es', ps_next_release_us := (if ps_count q \<noteq> 0 then now_us + spans (paced_items q) else 0)\<rparr>"
      "length es' = length es" "ring es' (ps_head q) (ps_count q) = rebased (paced_items q) now_us" for q' es'
  proof -
    have items: "paced_items q' = rebased (paced_items q) now_us"
      using that by (simp add: paced_items_def)
    have "paced_ring_ok q'"
      using that(1,2) es by (simp add: paced_ring_ok_def ring_ok_def)
    moreover have "rebased (paced_items q) now_us = []" if "ps_count q = 0"
      using that es(7) by simp
    ultimately show ?thesis
      using paced_stateD [OF assms(1)] assms(2)
        \<open>spaced (rebased (paced_items q) now_us) (now_us + spans (paced_items q))\<close>
      unfolding paced_state_def paced_inv_def items by (simp add: that(1))
  qed
  show ?thesis
    unfolding rebase_backlog_def es(1) bind.bind_lunit
  proof (rule ok_bindI [OF loop], goal_cases)
    case (1 r)
    then show ?case
      using state [OF refl, of "fst r"] assms(2)
      by (cases r) (auto simp: Let_def ok_Some)
  qed
qed

definition reported :: "sfu_paced_send_drop_report \<Rightarrow> u32 \<Rightarrow> bool" where
  "reported r pub \<longleftrightarrow> pub = 0 \<or> dr_truncated r \<or> pub \<in> set (take (dr_publisher_count r) (dr_publisher_peer_ids r))"

definition report_ok :: "sfu_paced_send_drop_report \<Rightarrow> bool" where
  "report_ok r \<longleftrightarrow> dr_publisher_count r \<le> 8 \<and> length (dr_publisher_peer_ids r) = 8"

lemma report_add_ok:
  assumes "report_ok r"
  shows "ok (sfu_paced_send_drop_report_add (r\<lparr>dr_frames := n\<rparr>) pub)
    (\<lambda>r'. report_ok r' \<and> reported r' pub \<and> (\<forall>x. reported r x \<longrightarrow> reported r' x))"
  using assms unfolding sfu_paced_send_drop_report_add_def
  by (auto simp: ok_simps report_ok_def reported_def take_Suc_conv_app_nth One_nat_def)

abbreviation frame_end :: "sfu_paced_send_entry \<Rightarrow> bool" where
  "frame_end e \<equiv> md_frame_end (se_metadata e)"

abbreviation publisher :: "sfu_paced_send_entry \<Rightarrow> u32" where
  "publisher e \<equiv> md_publisher_peer_id (se_metadata e)"

text \<open>The contract of the trimming loop: \<open>k\<close> packets are dropped, up to the end of a frame, and every
  publisher whose frame was dropped is in the report.\<close>

definition trimmed ::
    "int \<Rightarrow> sfu_paced_send \<Rightarrow> sfu_paced_send_drop_report option \<Rightarrow> int \<Rightarrow> int \<Rightarrow>
     sfu_paced_send \<times> sfu_pacer \<times> sfu_paced_send_drop_report option \<Rightarrow> bool" where
  "trimmed others q report max_delay_us now_us = (\<lambda>(q', p', report'). \<exists>k \<le> length (paced_items q).
     paced_state others q' p' \<and> \<not> ps_input_frame_active q' \<and>
     map se_metadata (paced_items q') = drop k (map se_metadata (paced_items q)) \<and>
     (k = 0 \<or> k = length (paced_items q) \<or> frame_end (paced_items q ! (k - 1))) \<and>
     (ps_ready_count q' = 0 \<or> sfu_paced_send_projected_delay_us q' now_us < max_delay_us \<or>
      md_is_keyframe (se_metadata (hd (paced_items q')))) \<and>
     (case (report, report') of
        (Some r, Some r') \<Rightarrow> report_ok r' \<and> (\<forall>x. reported r x \<longrightarrow> reported r' x) \<and>
          (\<forall>i < k. frame_end (paced_items q ! i) \<longrightarrow> reported r' (publisher (paced_items q ! i)))
      | (None, None) \<Rightarrow> True | _ \<Rightarrow> False))"

lemma trimmed_stop:
  assumes "paced_state others q p" "\<not> ps_input_frame_active q" "\<And>r. report = Some r \<Longrightarrow> report_ok r"
    "ps_ready_count q = 0 \<or> sfu_paced_send_projected_delay_us q now_us < max_delay_us \<or>
      md_is_keyframe (se_metadata (hd (paced_items q)))"
  shows "trimmed others q report max_delay_us now_us (q, p, report)"
  unfolding trimmed_def prod.case
  by (rule exI [of _ 0]) (use assms in \<open>auto split: option.splits\<close>)

lemma trim_round:
  assumes "paced_state others q p" "\<not> ps_input_frame_active q" "0 < ps_ready_count q"
    "head_dropped q p (ps_ready_count q) (q1, p1, fe, pub)"
  obtains k where "0 < k" "k \<le> length (paced_items q)" "paced_state others q1 p1" "\<not> ps_input_frame_active q1"
    "ps_ready_count q1 = ps_ready_count q - k" "paced_items q1 = drop k (paced_items q)"
    "k = length (paced_items q) \<or> frame_end (paced_items q ! (k - 1))"
    "\<And>i. i < k \<Longrightarrow> frame_end (paced_items q ! i) \<Longrightarrow> publisher (paced_items q ! i) = pub" "ps_entries q1 \<noteq> None"
proof -
  note inv = paced_stateD [OF assms(1)]
  have queued: "ps_input_frame_queued_packets q = 0"
    using inv(7) assms(2) by simp
  then have len: "length (paced_items q) = ps_ready_count q"
    using inv(1,6) by simp
  obtain k es h where *: "k \<le> ps_ready_count q" "q1 = q\<lparr>ps_entries := es, ps_head := h, ps_count := ps_count q - k,
        ps_ready_count := ps_ready_count q - k\<rparr>" "paced_ring_ok q1" "paced_items q1 = drop k (paced_items q)"
      "pacer_inv p1" "reserved_bytes p1 = reserved_bytes p - charges (take k (paced_items q))"
      "\<And>i. i + 1 < k \<Longrightarrow> \<not> frame_end (paced_items q ! i)"
      "if fe then 0 < k \<and> frame_end (paced_items q ! (k - 1)) \<and> pub = publisher (paced_items q ! (k - 1))
       else k = ps_ready_count q \<and> (0 < k \<longrightarrow> \<not> frame_end (paced_items q ! (k - 1)))"
      "ps_entries q \<noteq> None \<longrightarrow> es \<noteq> None"
    using assms(4) unfolding head_dropped_def prod.case by blast
  have pos: "0 < k"
    using *(8) assms(3) by (cases fe) auto
  have ends: "publisher (paced_items q ! i) = pub" if "i < k" "frame_end (paced_items q ! i)" for i
  proof -
    have "i = k - 1"
      using *(7) [of i] that by fastforce
    then show ?thesis
      using *(8) that(2) pos by (cases fe) auto
  qed
  have "charges (paced_items q) = charges (take k (paced_items q)) + charges (drop k (paced_items q))"
    by (metis append_take_drop_id charges_simps(3))
  moreover have "list_all paced_entry_ok (drop k (paced_items q))"
    using inv(2) by (metis append_take_drop_id list_all_append)
  ultimately have "paced_state others q1 p1"
    using inv queued *(1,3,5,6) assms(2) spaced_drop(1) [OF inv(3), of k]
    unfolding paced_state_def paced_inv_def *(4) by (simp add: *(2))
  moreover have "ps_entries q1 \<noteq> None"
  proof -
    have "ps_entries q \<noteq> None"
      using inv(1,6) assms(3) by (auto simp: paced_ring_ok_def ring_ok_def split: option.splits)
    then show ?thesis
      using *(9) by (simp add: *(2))
  qed
  ultimately show ?thesis
    using that [OF pos _ _ _ _ *(4) _ ends] *(1,2,8) len assms(2) by (cases fe) auto
qed

lemma trimmed_step:
  assumes "0 < k" "k \<le> length (paced_items q)" "k = length (paced_items q) \<or> frame_end (paced_items q ! (k - 1))"
    "\<And>i. i < k \<Longrightarrow> frame_end (paced_items q ! i) \<Longrightarrow> publisher (paced_items q ! i) = pub"
    "paced_items q1 = rebased (drop k (paced_items q)) now_us"
    "case (report, report1) of (Some r, Some r1) \<Rightarrow> report_ok r1 \<and> reported r1 pub \<and> (\<forall>x. reported r x \<longrightarrow> reported r1 x)
      | (None, None) \<Rightarrow> True | _ \<Rightarrow> False"
    "trimmed others q1 report1 max_delay_us now_us res"
  shows "trimmed others q report max_delay_us now_us res"
proof -
  obtain q' p' report' where res: "res = (q', p', report')"
    by (rule prod_cases3)
  obtain j where *: "j \<le> length (paced_items q1)" "paced_state others q' p'" "\<not> ps_input_frame_active q'"
     "map se_metadata (paced_items q') = drop j (map se_metadata (paced_items q1))"
     "j = 0 \<or> j = length (paced_items q1) \<or> frame_end (paced_items q1 ! (j - 1))"
     "ps_ready_count q' = 0 \<or> sfu_paced_send_projected_delay_us q' now_us < max_delay_us \<or>
      md_is_keyframe (se_metadata (hd (paced_items q')))"
     "case (report1, report') of
        (Some r, Some r') \<Rightarrow> report_ok r' \<and> (\<forall>x. reported r x \<longrightarrow> reported r' x) \<and>
          (\<forall>i < j. frame_end (paced_items q1 ! i) \<longrightarrow> reported r' (publisher (paced_items q1 ! i)))
      | (None, None) \<Rightarrow> True | _ \<Rightarrow> False"
    using assms(7) unfolding res trimmed_def prod.case by blast
  have len: "length (paced_items q1) = length (paced_items q) - k"
    by (simp add: assms(5))
  have meta: "se_metadata (paced_items q1 ! i) = se_metadata (paced_items q ! (k + i))" if "i < length (paced_items q1)" for i
  proof -
    have "se_metadata (paced_items q1 ! i) = map se_metadata (paced_items q1) ! i"
      using that by simp
    also have "\<dots> = se_metadata (paced_items q ! (k + i))"
      using that assms(2) len unfolding assms(5) by simp
    finally show ?thesis .
  qed
  have last: "k + j = 0 \<or> k + j = length (paced_items q) \<or> frame_end (paced_items q ! (k + j - 1))"
  proof (cases "j = 0")
    case True
    then show ?thesis
      using assms(3) by auto
  next
    case False
    then show ?thesis
      using *(1,5) meta [of "j - 1"] len assms(2) by auto
  qed
  have old: "reported r' (publisher (paced_items q ! i))"
    if "report = Some r" "report' = Some r'" "i < k + j" "frame_end (paced_items q ! i)" for r r' i
  proof (cases "i < k")
    case True
    then show ?thesis
      using assms(4) [OF True that(4)] assms(6) *(7) that(1,2) by (auto split: option.splits)
  next
    case False
    then have "i - k < j" "se_metadata (paced_items q1 ! (i - k)) = se_metadata (paced_items q ! i)"
      using meta [of "i - k"] *(1) that(3) by auto
    then show ?thesis
      using *(7) assms(6) that(1,2,4) by (fastforce split: option.splits)
  qed
  show ?thesis
    unfolding res trimmed_def prod.case
  proof (rule exI [of _ "k + j"], intro conjI *(2,3,6) last)
    show "k + j \<le> length (paced_items q)"
      using *(1) len assms(2) by simp
    show "map se_metadata (paced_items q') = drop (k + j) (map se_metadata (paced_items q))"
      unfolding *(4) assms(5) by (simp add: drop_map [symmetric] add.commute)
  qed (use assms(6) *(7) old in \<open>auto split: option.splits\<close>)
qed

lemma trim_report:
  assumes "\<And>r. report = Some r \<Longrightarrow> report_ok r"
  shows "ok (case report of
        None \<Rightarrow> Some None
      | Some r \<Rightarrow> do {
          r \<leftarrow> sfu_paced_send_drop_report_add (r\<lparr>dr_frames := dr_frames r + 1\<rparr>) pub;
          Some (Some r)
        })
    (\<lambda>report1. case (report, report1) of
        (Some r, Some r1) \<Rightarrow> report_ok r1 \<and> reported r1 pub \<and> (\<forall>x. reported r x \<longrightarrow> reported r1 x)
      | (None, None) \<Rightarrow> True | _ \<Rightarrow> False)"
proof (cases report)
  case (Some r)
  then show ?thesis
    using report_add_ok [OF assms [OF Some], of "dr_frames r + 1" pub] by (auto simp: ok_simps elim!: ok_mono)
qed (simp add: ok_simps)

text \<open>One round of the loop, followed by the rest of it.\<close>

lemma backlog_round:
  assumes "paced_state others q p" "\<not> ps_input_frame_active q" "0 < ps_ready_count q"
    "head_dropped q p (ps_ready_count q) (q1, p1, fe, pub)" "\<And>r. report = Some r \<Longrightarrow> report_ok r"
    "\<And>q2 report1. paced_state others q2 p1 \<Longrightarrow> \<not> ps_input_frame_active q2 \<Longrightarrow>
      ps_ready_count q2 < ps_ready_count q \<Longrightarrow> (\<And>r. report1 = Some r \<Longrightarrow> report_ok r) \<Longrightarrow>
      ok (f q2 report1) (trimmed others q2 report1 max_delay_us now_us)"
    "q1' = q1\<lparr>ps_ready_frame_count := a, ps_dropped_delay_frames := b\<rparr>"
  shows "ok (do {
      report \<leftarrow> (case report of
          None \<Rightarrow> Some None
        | Some r \<Rightarrow> do {
            r \<leftarrow> sfu_paced_send_drop_report_add (r\<lparr>dr_frames := dr_frames r + 1\<rparr>) pub;
            Some (Some r)
          });
      q \<leftarrow> rebase_backlog q1' now_us;
      f q report
    }) (trimmed others q report max_delay_us now_us)"
proof -
  obtain k where k: "0 < k" "k \<le> length (paced_items q)" "paced_state others q1 p1" "\<not> ps_input_frame_active q1"
    "ps_ready_count q1 = ps_ready_count q - k" "paced_items q1 = drop k (paced_items q)"
    "k = length (paced_items q) \<or> frame_end (paced_items q ! (k - 1))"
    "\<And>i. i < k \<Longrightarrow> frame_end (paced_items q ! i) \<Longrightarrow> publisher (paced_items q ! i) = pub" "ps_entries q1 \<noteq> None"
    using trim_round [OF assms(1-4)] by blast
  have q1': "paced_state others q1' p1 \<and> paced_items q1' = paced_items q1"
    by (rule paced_state_frame [OF k(3)]) (use k(4) paced_stateD(7) [OF k(3)] in \<open>simp_all add: assms(7)\<close>)
  have rebase: "ok (rebase_backlog q1' now_us) (\<lambda>q2. paced_state others q2 p1 \<and> \<not> ps_input_frame_active q2 \<and>
      ps_ready_count q2 < ps_ready_count q \<and> paced_items q2 = rebased (drop k (paced_items q)) now_us)"
    by (rule ok_mono [OF rebase_ok [of others q1' p1]])
      (use q1' k assms(3) in \<open>auto simp: assms(7)\<close>)
  show ?thesis
  proof (rule ok_bindI [OF trim_report [OF assms(5)]])
    fix report1
    assume rep: "case (report, report1) of
        (Some r, Some r1) \<Rightarrow> report_ok r1 \<and> reported r1 pub \<and> (\<forall>x. reported r x \<longrightarrow> reported r1 x)
      | (None, None) \<Rightarrow> True | _ \<Rightarrow> False"
    show "ok (rebase_backlog q1' now_us \<bind> (\<lambda>q. f q report1)) (trimmed others q report max_delay_us now_us)"
    proof (rule ok_bindI [OF rebase])
      fix q2
      assume q2: "paced_state others q2 p1 \<and> \<not> ps_input_frame_active q2 \<and>
        ps_ready_count q2 < ps_ready_count q \<and> paced_items q2 = rebased (drop k (paced_items q)) now_us"
      have rest: "ok (f q2 report1) (trimmed others q2 report1 max_delay_us now_us)"
        using assms(6) [of q2 report1] q2 rep by (auto split: option.splits)
      have items: "paced_items q2 = rebased (drop k (paced_items q)) now_us"
        using q2 by blast
      show "ok (f q2 report1) (trimmed others q report max_delay_us now_us)"
        by (rule ok_mono [OF rest trimmed_step [OF k(1,2,7,8) items rep]])
    qed
  qed
qed

lemma backlog_loop_ok:
  assumes "paced_state others q p" "\<not> ps_input_frame_active q" "ps_ready_count q \<le> n" "\<And>r. report = Some r \<Longrightarrow> report_ok r"
  shows "ok (backlog_loop n q p max_delay_us now_us report) (trimmed others q report max_delay_us now_us)"
  using assms
proof (induction n arbitrary: q p report)
  case 0
  then show ?case
    using trimmed_stop [OF 0(1,2,4)] by (simp add: backlog_loop.simps ok_simps)
next
  case (Suc n)
  note inv = paced_stateD [OF Suc.prems(1)]
  show ?case
  proof (cases "ps_ready_count q = 0 \<or> sfu_paced_send_projected_delay_us q now_us < max_delay_us")
    case True
    then show ?thesis
      using trimmed_stop [OF Suc.prems(1,2,4)] by (auto simp: backlog_loop.simps ok_simps)
  next
    case False
    then have ready: "0 < ps_ready_count q" "0 < ps_count q"
      using inv(6) by simp_all
    obtain es where es: "ps_entries q = Some es" "ps_head q < length es" "paced_items q = es ! ps_head q #
        ring es ((ps_head q + 1) mod ps_capacity q) (ps_count q - 1)"
      by (rule paced_head [OF inv(1) ready(2)])
    show ?thesis
    proof (cases "md_is_keyframe (se_metadata (es ! ps_head q))")
      case True
      then show ?thesis
        using trimmed_stop [OF Suc.prems(1,2,4)] es \<open>\<not> (ps_ready_count q = 0 \<or> _)\<close>
        by (simp add: backlog_loop.simps [of "Suc n"] ok_simps)
    next
      case nokey: False
      have head: "ok (drop_head_frame (ps_ready_count q) q p 0) (head_dropped q p (ps_ready_count q))"
        by (rule drop_head_frame_ok [OF inv(1) _ _ inv(2,4)]) (use inv(6) in simp_all)
      have "ok (do {
            (q, p, frame_end, frame_publisher) \<leftarrow> drop_head_frame (ps_ready_count q) q p 0;
            let q = (if frame_end \<and> ps_ready_frame_count q > 0
              then q\<lparr>ps_ready_frame_count := ps_ready_frame_count q - 1\<rparr> else q);
            let q = q\<lparr>ps_dropped_delay_frames := ps_dropped_delay_frames q + 1\<rparr>;
            report \<leftarrow> (case report of
                None \<Rightarrow> Some None
              | Some r \<Rightarrow> do {
                  r \<leftarrow> sfu_paced_send_drop_report_add (r\<lparr>dr_frames := dr_frames r + 1\<rparr>) frame_publisher;
                  Some (Some r)
                });
            q \<leftarrow> rebase_backlog q now_us;
            backlog_loop n q p max_delay_us now_us report
          }) (trimmed others q report max_delay_us now_us)"
      proof (rule ok_bindI [OF head], goal_cases)
        case (1 r)
        obtain q1 p1 fe pub where r: "r = (q1, p1, fe, pub)"
          by (rule prod_cases4)
        define a where "a = (if fe \<and> ps_ready_frame_count q1 > 0 then ps_ready_frame_count q1 - 1 else ps_ready_frame_count q1)"
        have "q1\<lparr>ps_ready_frame_count := a, ps_dropped_delay_frames := ps_dropped_delay_frames q1 + 1\<rparr> =
            (let q = (if fe \<and> ps_ready_frame_count q1 > 0
              then q1\<lparr>ps_ready_frame_count := ps_ready_frame_count q1 - 1\<rparr> else q1)
             in q\<lparr>ps_dropped_delay_frames := ps_dropped_delay_frames q + 1\<rparr>)"
          by (simp add: a_def)
        then show ?case
          using backlog_round [OF Suc.prems(1,2) ready(1) 1 [unfolded r] Suc.prems(4) _ refl,
              where f = "\<lambda>q report. backlog_loop n q p1 max_delay_us now_us report" and a = a and
                b = "ps_dropped_delay_frames q1 + 1" and max_delay_us = max_delay_us and now_us = now_us and
                report = report] Suc.IH Suc.prems(3)
          by (simp add: r Let_def)
      qed
      then show ?thesis
        using False nokey es(1,2) by (simp add: backlog_loop.simps [of "Suc n"])
    qed
  qed
qed

section \<open>Draining\<close>

definition paced_packet :: "sfu_paced_send_entry \<Rightarrow> net_packet" where
  "paced_packet e = \<lparr>np_data = se_data e, np_dst = se_dst e, np_dst_len = se_dst_len e\<rparr>"

lemma same_peer_entry: "same_peer s s' \<Longrightarrow> entry_valid e s' = entry_valid e s"
  by (simp add: same_peer_def entry_valid_def sfu_session_accepts_work_def sfu_session_owner_value_def
      sfu_session_remote_slot_authorized_def)

lemma paced_record_ok:
  assumes "session_inv s" "paced_entry_ok e"
  shows "ok (paced_record e t s) (\<lambda>s'. session_inv s' \<and> same_peer s s' \<and> session_pacer s' = session_pacer s)"
proof -
  have hist: "ok (if md_twcc_written (se_metadata e) \<and> sfu_session_video_runtime_ready s
       then case session_history s of
           None \<Rightarrow> Some s
         | Some h \<Rightarrow> do {
             h \<leftarrow> sfu_twcc_history_record h (md_twcc_seq (se_metadata e)) t (ucast (se_len e));
             Some (s\<lparr>session_history := Some h\<rparr>)
           }
       else Some s) (\<lambda>s'. session_inv s' \<and> same_peer s s' \<and> session_pacer s' = session_pacer s)"
    using assms(1) by (auto simp: sfu_twcc_history_record_def ok_simps session_inv_def same_peer_def
        history_idx_less split: option.splits)
  show ?thesis
    unfolding paced_record_def Let_def
  proof (rule ok_bindI [OF hist])
    fix s1
    assume s1: "session_inv s1 \<and> same_peer s s1 \<and> session_pacer s1 = session_pacer s"
    have put: "ok (sfu_rtx_cache_put_stream c seq (se_rtx_plaintext e) (ucast (se_rtx_plaintext_len e)) ssrc pt ms g)
        rtx_cache_inv" if "rtx_cache_inv c" for c seq ssrc pt ms g
    proof (cases "unat (se_rtx_plaintext_len e) + 2 \<le> SFU_MAX_PAYLOAD_SIZE")
      case True
      have "ok (rtx_put c ((seq, ms, g), (se_rtx_plaintext e, ssrc, pt))) rtx_cache_inv"
        by (rule ok_mono [OF rtx_put_law [OF that]]) (use True assms(2) in \<open>auto simp: rtx_fits_def paced_entry_ok_def\<close>)
      then show ?thesis
        using assms(2) by (simp add: rtx_put_def paced_entry_ok_def)
    next
      case False
      have "unat (ucast (x :: u16) + 2 :: u32) = unat x + 2" for x
      proof -
        have "unat x + 2 < 4294967296"
          using unat_u16_less [of x] by linarith
        then show ?thesis
          by (simp add: unat_word_ariths unat_ucast_up)
      qed
      then show ?thesis
        using that False by (simp add: sfu_rtx_cache_put_stream_def ok_simps)
    qed
    show "ok (if md_cache_rtx (se_metadata e) \<and> sfu_session_video_runtime_ready s1
     then case session_rtx_cache s1 of
         None \<Rightarrow> Some s1
       | Some c \<Rightarrow> do {
           c \<leftarrow> sfu_rtx_cache_put_stream c (md_subscriber_seq (se_metadata e)) (se_rtx_plaintext e)
             (ucast (se_rtx_plaintext_len e)) (md_rtx_ssrc (se_metadata e)) (md_rtx_pt (se_metadata e))
             (md_media_ssrc (se_metadata e)) (md_egress_generation (se_metadata e));
           Some (s1\<lparr>session_rtx_cache := Some c\<rparr>)
         }
     else Some s1) (\<lambda>s'. session_inv s' \<and> same_peer s s' \<and> session_pacer s' = session_pacer s)"
      using s1 by (auto simp: ok_simps session_inv_def same_peer_def split: option.splits intro!: ok_mono [OF put])
  qed
qed

lemma pop_entry_ok:
  assumes "paced_ring_ok q" "0 < ps_count q"
  obtains es a where "ps_entries q = Some es" "ps_head q < length es"
    "pop_entry q = Some (q\<lparr>ps_ready_frame_count := a, ps_head := (ps_head q + 1) mod ps_capacity q,
      ps_count := ps_count q - 1, ps_ready_count := ps_ready_count q - 1\<rparr>)"
    "paced_items q = es ! ps_head q # ring es ((ps_head q + 1) mod ps_capacity q) (ps_count q - 1)"
    "ring_ok SFU_PACED_SEND_CAPACITY (Some es) (ps_capacity q) ((ps_head q + 1) mod ps_capacity q) (ps_tail q) (ps_count q - 1)"
proof -
  obtain es where es: "ps_entries q = Some es" "ps_head q < length es" "paced_items q = es ! ps_head q #
      ring es ((ps_head q + 1) mod ps_capacity q) (ps_count q - 1)"
      "ring_ok SFU_PACED_SEND_CAPACITY (Some es) (ps_capacity q) (ps_head q) (ps_tail q) (ps_count q)"
    by (rule paced_head [OF assms])
  define a where "a = (if md_frame_end (se_metadata (es ! ps_head q)) \<and> ps_ready_frame_count q > 0
    then ps_ready_frame_count q - 1 else ps_ready_frame_count q)"
  have "pop_entry q = Some (q\<lparr>ps_ready_frame_count := a, ps_head := (ps_head q + 1) mod ps_capacity q,
      ps_count := ps_count q - 1, ps_ready_count := ps_ready_count q - 1\<rparr>)"
    unfolding pop_entry_def a_def using es(1,2) by simp
  then show ?thesis
    by (rule that [OF es(1,2) _ es(3) ring_ok_pop(3) [OF es(4) assms(2)]])
qed

lemma popped_state:
  assumes "paced_state others q p" "0 < ps_ready_count q" "paced_items q = e # es"
    "q1 = q\<lparr>ps_ready_frame_count := a, ps_head := h, ps_count := ps_count q - 1, ps_ready_count := ps_ready_count q - 1\<rparr>"
    "paced_items q1 = es" "paced_ring_ok q1" "pacer_inv p1" "reserved_bytes p1 = reserved_bytes p - charge (se_reservation e)"
  shows "paced_state others q1 p1"
proof -
  note inv = paced_stateD [OF assms(1)]
  have "spaced es (ps_next_release_us q)" "list_all paced_entry_ok es"
    using inv(2,3) assms(3) by (auto dest: spaced_Cons)
  moreover have "spaced (take (ps_ready_count q - 1) es) (ps_input_frame_base_next_release_us q)" if "ps_input_frame_active q"
    using inv(9) [OF that] assms(2) unfolding assms(3) by (cases "ps_ready_count q") (auto dest: spaced_Cons)
  ultimately show ?thesis
    using inv assms(2,6,7,8) unfolding paced_state_def paced_inv_def assms(5) by (simp add: assms(3,4))
qed

text \<open>Whether the packet pool and the network take the packet \<open>e\<close> as send number \<open>i\<close> of a drain.\<close>

definition send_taken :: "send_io list \<Rightarrow> nat \<Rightarrow> sfu_paced_send_entry \<Rightarrow> bool" where
  "send_taken ios i e \<longleftrightarrow> i < length ios \<and> io_accepted (ios ! i) \<and>
     (\<exists>cap. io_cap (ios ! i) = Some cap \<and> unat (se_len e) \<le> cap)"

lemma send_taken_Cons [simp]: "send_taken (io # ios) (Suc i) e = send_taken ios i e"
  by (simp add: send_taken_def)

definition paced_post ::
    "int \<Rightarrow> sfu_paced_send \<Rightarrow> sfu_peer_session \<Rightarrow> int \<Rightarrow> nat \<Rightarrow> send_io list \<Rightarrow>
     sfu_paced_send \<times> sfu_peer_session \<times> net_packet list \<times> nat \<Rightarrow> bool" where
  "paced_post others q s now_us n ios = (\<lambda>(q', s', out, k).
     (let items = paced_items q; done = take k items
      in session_inv s' \<and> paced_state others q' (session_pacer s') \<and> same_peer s s' \<and> k \<le> n \<and> k \<le> ps_ready_count q \<and>
         paced_items q' = drop k items \<and> ps_ready_count q' = ps_ready_count q - k \<and>
         out = map paced_packet (filter (\<lambda>e. entry_valid e s) done) \<and>
         (\<forall>e \<in> set done. entry_valid e s \<longrightarrow> se_release_at_us e \<le> now_us) \<and>
         (k = n \<or> k = ps_ready_count q \<or> entry_valid (items ! k) s \<and>
            (now_us < se_release_at_us (items ! k) \<or> \<not> send_taken ios (length out) (items ! k)))))"

lemma paced_post_stop:
  "session_inv s \<Longrightarrow> paced_state others q (session_pacer s) \<Longrightarrow>
   n = 0 \<or> ps_ready_count q = 0 \<or> entry_valid (paced_items q ! 0) s \<and>
     (now_us < se_release_at_us (paced_items q ! 0) \<or> \<not> send_taken ios 0 (paced_items q ! 0)) \<Longrightarrow>
   ok (Some (q, s, [], 0)) (paced_post others q s now_us n ios)"
  by (auto simp: ok_simps paced_post_def)

lemma paced_post_step:
  assumes "paced_items q = e # es" "ok m (paced_post others q1 s1 now_us n ios1)" "paced_items q1 = es"
    "ps_ready_count q1 = ps_ready_count q - 1" "0 < ps_ready_count q" "same_peer s s1"
    "entry_valid e s \<Longrightarrow> se_release_at_us e \<le> now_us" "pre = (if entry_valid e s then [paced_packet e] else [])"
    "\<And>i x. send_taken ios1 i x = send_taken ios (length pre + i) x"
  shows "ok (do { (q, s, out, k) \<leftarrow> m; Some (q, s, pre @ out, k + 1) }) (paced_post others q s now_us (Suc n) ios)"
proof (rule ok_bindI [OF assms(2)], goal_cases)
  case (1 r)
  obtain q' s' out k where r: "r = (q', s', out, k)"
    by (rule prod_cases4)
  have valid: "entry_valid x s1 = entry_valid x s" for x
    by (rule same_peer_entry [OF assms(6)])
  have "take (k + 1) (e # es) = e # take k es" "drop (k + 1) (e # es) = drop k es" "(e # es) ! (k + 1) = es ! k"
    by (simp_all add: One_nat_def)
  moreover have "k + 1 \<le> Suc n \<longleftrightarrow> k \<le> n" "k + 1 = Suc n \<longleftrightarrow> k = n"
    by auto
  ultimately show ?case
    using 1 assms(4,5,7,9) same_peer_trans [OF assms(6)]
    unfolding r paced_post_def prod.case Let_def assms(1,3,8) valid
    by (cases "entry_valid e s") (auto simp: ok_Some)
qed

lemma paced_pop_step:
  assumes "paced_state others q p" "0 < ps_ready_count q" "pacer_inv p1"
    "reserved_bytes p1 = reserved_bytes p - charge (se_reservation (hd (paced_items q)))"
  obtains es q1 where "pop_entry q = Some q1" "paced_items q = hd (paced_items q) # paced_items q1"
    "paced_state others q1 p1" "ps_ready_count q1 = ps_ready_count q - 1"
    "ps_entries q = Some es" "aget es (ps_head q) = Some (hd (paced_items q))"
proof -
  note inv = paced_stateD [OF assms(1)]
  have pos: "0 < ps_count q"
    using inv(6) assms(2) by simp
  obtain es a where es: "ps_entries q = Some es" "ps_head q < length es"
    "pop_entry q = Some (q\<lparr>ps_ready_frame_count := a, ps_head := (ps_head q + 1) mod ps_capacity q,
      ps_count := ps_count q - 1, ps_ready_count := ps_ready_count q - 1\<rparr>)"
    "paced_items q = es ! ps_head q # ring es ((ps_head q + 1) mod ps_capacity q) (ps_count q - 1)"
    "ring_ok SFU_PACED_SEND_CAPACITY (Some es) (ps_capacity q) ((ps_head q + 1) mod ps_capacity q) (ps_tail q) (ps_count q - 1)"
    by (rule pop_entry_ok [OF inv(1) pos])
  define q1 where "q1 = q\<lparr>ps_ready_frame_count := a, ps_head := (ps_head q + 1) mod ps_capacity q,
      ps_count := ps_count q - 1, ps_ready_count := ps_ready_count q - 1\<rparr>"
  have items: "paced_items q = es ! ps_head q # paced_items q1" "paced_ring_ok q1"
    using es(1,4,5) by (simp_all add: q1_def paced_items_def paced_ring_ok_def)
  have hd: "hd (paced_items q) = es ! ps_head q"
    by (simp add: items(1))
  have "paced_state others q1 p1"
    by (rule popped_state [OF assms(1,2) items(1) q1_def refl items(2) assms(3) assms(4) [unfolded hd]])
  moreover have "pop_entry q = Some q1" "ps_ready_count q1 = ps_ready_count q - 1"
    using es(3) by (simp_all add: q1_def)
  moreover have "paced_items q = hd (paced_items q) # paced_items q1" "aget es (ps_head q) = Some (hd (paced_items q))"
    using items(1) es(2) by (simp_all add: hd)
  ultimately show ?thesis
    using that es(1) by blast
qed

lemma paced_stats_state:
  assumes "paced_state others q p"
  shows "paced_state others (q\<lparr>ps_dropped_stale := n\<rparr>) p \<and> paced_items (q\<lparr>ps_dropped_stale := n\<rparr>) = paced_items q"
    and "paced_state others (q\<lparr>ps_sent := n\<rparr>) p \<and> paced_items (q\<lparr>ps_sent := n\<rparr>) = paced_items q"
    and "paced_state others (q\<lparr>ps_drain_invocations := n\<rparr>) p \<and> paced_items (q\<lparr>ps_drain_invocations := n\<rparr>) = paced_items q"
    and "paced_state others (q\<lparr>ps_drain_cap_hits := n\<rparr>) p \<and> paced_items (q\<lparr>ps_drain_cap_hits := n\<rparr>) = paced_items q"
    and "paced_state others (q\<lparr>ps_max_drain_packets := m\<rparr>) p \<and> paced_items (q\<lparr>ps_max_drain_packets := m\<rparr>) = paced_items q"
    and "paced_state others (paced_statistics q e t) p \<and> paced_items (paced_statistics q e t) = paced_items q"
  by (rule paced_state_frame [OF assms];
      use paced_stateD(7,8) [OF assms] in \<open>auto simp: paced_statistics_def Let_def\<close>)+

lemma paced_statistics_ready [simp]: "ps_ready_count (paced_statistics q e t) = ps_ready_count q"
  by (simp add: paced_statistics_def Let_def)

lemma session_inv_pacer: "session_inv s \<Longrightarrow> pacer_inv p \<Longrightarrow> session_inv (s\<lparr>session_pacer := p\<rparr>)"
  by (simp add: session_inv_def)

lemma paced_drain_stale:
  assumes "session_inv s" "paced_state others q (session_pacer s)" "0 < ps_ready_count q"
    "\<not> entry_valid (hd (paced_items q)) s"
    "\<And>q s. session_inv s \<Longrightarrow> paced_state others q (session_pacer s) \<Longrightarrow> ok (f q s) (paced_post others q s now_us n ios)"
  shows "ok (do {
      (q, p) \<leftarrow> cancel_and_pop_entry q (session_pacer s);
      (q, s, out, k) \<leftarrow> f (q\<lparr>ps_dropped_stale := ps_dropped_stale q + 1\<rparr>) (s\<lparr>session_pacer := p\<rparr>);
      Some (q, s, out, k + 1)
    }) (paced_post others q s now_us (Suc n) ios)"
proof -
  define e where "e = hd (paced_items q)"
  have "paced_items q \<noteq> []"
    using paced_items_length [OF paced_stateD(1) [OF assms(2)]] paced_stateD(6) [OF assms(2)] assms(3) by auto
  then have "paced_entry_ok e"
    using paced_stateD(2) [OF assms(2)] by (simp add: e_def list_all_iff)
  then have settle: "pacer_inv (cancel_entry (session_pacer s) e)"
      "reserved_bytes (cancel_entry (session_pacer s) e) = reserved_bytes (session_pacer s) - charge (se_reservation e)"
    using settle_entry_ok(1) [of "session_pacer s" e] assms(1) by (auto simp: session_inv_def paced_entry_ok_def)
  obtain es q1 where pop: "pop_entry q = Some q1" "paced_items q = e # paced_items q1"
      "paced_state others q1 (cancel_entry (session_pacer s) e)" "ps_ready_count q1 = ps_ready_count q - 1"
      "ps_entries q = Some es" "aget es (ps_head q) = Some e"
    using paced_pop_step [OF assms(2,3) settle [unfolded e_def]] unfolding e_def by blast
  define q2 s2 where "q2 = q1\<lparr>ps_dropped_stale := ps_dropped_stale q1 + 1\<rparr>"
    and "s2 = s\<lparr>session_pacer := cancel_entry (session_pacer s) e\<rparr>"
  have q2: "paced_state others q2 (session_pacer s2)" "paced_items q2 = paced_items q1"
    using paced_stats_state(1) [OF pop(3)] by (simp_all add: q2_def s2_def)
  have "ok (f q2 s2) (paced_post others q2 s2 now_us n ios)"
    by (rule assms(5) [OF _ q2(1)]) (use session_inv_pacer [OF assms(1) settle(1)] in \<open>simp add: s2_def\<close>)
  from paced_post_step [OF pop(2) this q2(2), of s "[]" ios] show ?thesis
    using pop(1,4,5,6) assms(3,4) by (simp add: cancel_and_pop_entry_def q2_def s2_def same_peer_def e_def)
qed

lemma paced_drain_send:
  assumes "session_inv s" "paced_state others q (session_pacer s)" "0 < ps_ready_count q" "e = hd (paced_items q)"
    "entry_valid e s" "se_release_at_us e \<le> now_us"
    "\<And>q s. session_inv s \<Longrightarrow> paced_state others q (session_pacer s) \<Longrightarrow> ok (f q s) (paced_post others q s now_us n ios)"
  shows "ok (do {
      bs \<leftarrow> rd_bytes (se_data e) 0 (unat (se_len e));
      s \<leftarrow> paced_record e t s;
      q \<leftarrow> pop_entry (paced_statistics q e t);
      (q, s, out, k) \<leftarrow> f (q\<lparr>ps_sent := ps_sent q + 1\<rparr>) (s\<lparr>session_pacer := commit_entry (session_pacer s) e\<rparr>);
      Some (q, s, \<lparr>np_data = bs, np_dst = se_dst e, np_dst_len = se_dst_len e\<rparr> # out, k + 1)
    }) (paced_post others q s now_us (Suc n) (io # ios))"
proof -
  have "paced_items q \<noteq> []"
    using paced_items_length [OF paced_stateD(1) [OF assms(2)]] paced_stateD(6) [OF assms(2)] assms(3) by auto
  then have e_ok: "paced_entry_ok e"
    using paced_stateD(2) [OF assms(2)] by (simp add: assms(4) list_all_iff)
  define q0 where "q0 = paced_statistics q e t"
  have q0: "paced_state others q0 (session_pacer s)" "paced_items q0 = paced_items q" "ps_ready_count q0 = ps_ready_count q"
    using paced_stats_state(6) [OF assms(2)] by (simp_all add: q0_def)
  have body: "ok (do {
      q \<leftarrow> pop_entry q0;
      (q, s, out, k) \<leftarrow> f (q\<lparr>ps_sent := ps_sent q + 1\<rparr>) (s1\<lparr>session_pacer := commit_entry (session_pacer s1) e\<rparr>);
      Some (q, s, paced_packet e # out, k + 1)
    }) (paced_post others q s now_us (Suc n) (io # ios))"
    if s1: "session_inv s1 \<and> same_peer s s1 \<and> session_pacer s1 = session_pacer s" for s1
  proof -
    have settle: "pacer_inv (commit_entry (session_pacer s1) e)" "reserved_bytes (commit_entry (session_pacer s1) e) =
        reserved_bytes (session_pacer s) - charge (se_reservation (hd (paced_items q0)))"
      using settle_entry_ok(2) [of "session_pacer s" e] s1 e_ok q0(2) assms(4)
      by (auto simp: session_inv_def paced_entry_ok_def)
    obtain q1 where pop: "pop_entry q0 = Some q1" "paced_items q0 = e # paced_items q1"
        "paced_state others q1 (commit_entry (session_pacer s1) e)" "ps_ready_count q1 = ps_ready_count q0 - 1"
      using paced_pop_step [OF q0(1) _ settle] assms(3,4) q0(2,3) by auto
    define q2 s2 where "q2 = q1\<lparr>ps_sent := ps_sent q1 + 1\<rparr>"
      and "s2 = s1\<lparr>session_pacer := commit_entry (session_pacer s1) e\<rparr>"
    have q2: "paced_state others q2 (session_pacer s2)" "paced_items q2 = paced_items q1"
      using paced_stats_state(2) [OF pop(3)] by (simp_all add: q2_def s2_def)
    have "ok (f q2 s2) (paced_post others q2 s2 now_us n ios)"
      by (rule assms(7) [OF _ q2(1)]) (use session_inv_pacer [OF _ settle(1)] s1 in \<open>simp add: s2_def\<close>)
    from paced_post_step [OF pop(2) [unfolded q0(2)] this q2(2), of s "[paced_packet e]" "io # ios"] show ?thesis
      using pop(1,4) q0(3) assms(3,5,6) s1 by (simp add: q2_def s2_def same_peer_def)
  qed
  show ?thesis
    using ok_bindI [OF paced_record_ok [OF assms(1) e_ok] body] e_ok
    by (simp add: paced_entry_ok_def q0_def paced_packet_def)
qed

lemma paced_drain_loop_ok:
  "session_inv s \<Longrightarrow> paced_state others q (session_pacer s) \<Longrightarrow>
   ok (paced_drain_loop n q s now_us ios) (paced_post others q s now_us n ios)"
proof (induction n arbitrary: q s ios)
  case 0
  then show ?case
    by (simp add: paced_post_stop)
next
  case (Suc n)
  show ?case
  proof (cases "ps_ready_count q = 0")
    case True
    then show ?thesis
      using Suc.prems paced_post_stop [of s others q] by simp
  next
    case False
    then have pos: "0 < ps_ready_count q" "0 < ps_count q"
      using paced_stateD(6) [OF Suc.prems(2)] by simp_all
    obtain es where es: "ps_entries q = Some es" "ps_head q < length es" "paced_items q = es ! ps_head q #
        ring es ((ps_head q + 1) mod ps_capacity q) (ps_count q - 1)"
      by (rule paced_head [OF paced_stateD(1) [OF Suc.prems(2)] pos(2)])
    define e where "e = es ! ps_head q"
    have e: "e = hd (paced_items q)" "aget es (ps_head q) = Some e" "paced_items q ! 0 = e"
      using es(2,3) by (simp_all add: e_def)
    consider (stale) "\<not> entry_valid e s" | (early) "entry_valid e s" "now_us < se_release_at_us e"
      | (refused) "entry_valid e s" "se_release_at_us e \<le> now_us"
          "\<not> (\<exists>io ios' cap. ios = io # ios' \<and> io_cap io = Some cap \<and> unat (se_len e) \<le> cap \<and> io_accepted io)"
      | (send) io ios' cap where "entry_valid e s" "se_release_at_us e \<le> now_us"
          "ios = io # ios'" "io_cap io = Some cap" "unat (se_len e) \<le> cap" "io_accepted io"
      by (meson not_le)
    then show ?thesis
    proof cases
      case stale
      then show ?thesis
        using paced_drain_stale [OF Suc.prems pos(1), where f = "\<lambda>q s. paced_drain_loop n q s now_us ios" and
            now_us = now_us and n = n and ios = ios] Suc.IH
          False es(1) e by simp
    next
      case early
      then show ?thesis
        using paced_post_stop [OF Suc.prems, of "Suc n" now_us ios] False es(1) e by simp
    next
      case refused
      then have "\<not> send_taken ios 0 (paced_items q ! 0)"
        by (cases ios) (auto simp: send_taken_def e(3))
      then have stop: "ok (Some (q, s, [], 0)) (paced_post others q s now_us (Suc n) ios)"
        using refused(1) by (intro paced_post_stop Suc.prems) (simp add: e(3))
      show ?thesis
        unfolding paced_drain_loop.simps using refused False es(1) e(2) stop
        by (auto simp: not_less split: list.splits option.splits)
    next
      case send
      then show ?thesis
        using paced_drain_send [OF Suc.prems pos(1) e(1) send(1,2),
            where f = "\<lambda>q s. paced_drain_loop n q s now_us ios'" and n = n and ios = ios' and
              t = "accepted_time now_us io" and io = io] Suc.IH
          False es(1) e(2) by (simp add: Let_def)
    qed
  qed
qed

lemma paced_reset:
  assumes "paced_state others q p" "ps_count q = 0"
  shows "paced_state others (q\<lparr>ps_head := 0, ps_tail := 0, ps_next_release_us := t, ps_ready_frame_count := n\<rparr>) p \<and>
      paced_items (q\<lparr>ps_head := 0, ps_tail := 0, ps_next_release_us := t, ps_ready_frame_count := n\<rparr>) = paced_items q"
proof -
  note inv = paced_stateD [OF assms(1)]
  have empty: "paced_items q = []"
    using paced_items_length [OF inv(1)] assms(2) by simp
  have "ring_items (ps_entries q) 0 0 = []"
    by (simp add: ring_items_def split: option.splits)
  moreover have "ring_ok SFU_PACED_SEND_CAPACITY (ps_entries q) (ps_capacity q) 0 0 0"
    using inv(1) assms(2) by (auto simp: paced_ring_ok_def ring_ok_def split: option.splits)
  ultimately show ?thesis
    using inv(4-8) assms(2) empty
    by (simp add: paced_state_def paced_inv_def paced_items_def paced_ring_ok_def)
qed

lemma cancel_queued_ok:
  "ring_ok N (Some es) cap h t n \<Longrightarrow> list_all paced_entry_ok (ring es h n) \<Longrightarrow> pacer_inv p \<Longrightarrow>
   ok (cancel_queued n h cap es p) (\<lambda>p'. pacer_inv p' \<and> reserved_bytes p' = reserved_bytes p - charges (ring es h n))"
proof (induction n arbitrary: h p)
  case 0
  then show ?case
    by (simp add: ok_simps)
next
  case (Suc n)
  note pop = ring_ok_pop(1-3) [OF Suc.prems(1) zero_less_Suc, unfolded diff_Suc_1]
  have "paced_entry_ok (es ! h)" "list_all paced_entry_ok (ring es ((h + 1) mod cap) n)"
    using Suc.prems(2) by (simp_all add: pop(2))
  then have "se_pacer (es ! h)" "list_all paced_entry_ok (ring es ((h + 1) mod cap) n)"
    by (simp_all add: paced_entry_ok_def [of "es ! h"])
  with Suc.IH [OF pop(3), of "cancel_entry p (es ! h)"] settle_entry_ok(1) [OF Suc.prems(3), of "es ! h"] show ?case
    using pop(1) by (auto simp: pop(2) ok_Some elim!: okE)
qed

lemma destroy_ok:
  assumes "paced_state others q p"
  shows "ok (sfu_paced_send_destroy q p) (\<lambda>(q', p'). q' = sfu_paced_send_init \<and> paced_state others q' p')"
proof -
  note inv = paced_stateD [OF assms]
  have "ok (case ps_entries q of None \<Rightarrow> Some p | Some es \<Rightarrow> cancel_queued (ps_count q) (ps_head q) (ps_capacity q) es p)
      (\<lambda>p'. pacer_inv p' \<and> reserved_bytes p' = others)"
  proof (cases "ps_entries q")
    case None
    then show ?thesis
      using inv(4,5) by (simp add: ok_simps paced_items_def ring_items_def)
  next
    case (Some es)
    have "ok (cancel_queued (ps_count q) (ps_head q) (ps_capacity q) es p)
        (\<lambda>p'. pacer_inv p' \<and> reserved_bytes p' = reserved_bytes p - charges (ring es (ps_head q) (ps_count q)))"
      by (rule cancel_queued_ok) (use inv(1,2,4) Some in \<open>simp_all add: paced_ring_ok_def paced_items_def\<close>)
    then show ?thesis
      using inv(5) Some by (simp add: paced_items_def)
  qed
  moreover have "paced_state others sfu_paced_send_init p'" if "pacer_inv p' \<and> reserved_bytes p' = others" for p'
    using that by (auto simp: paced_state_def paced_inv_def paced_ring_ok_def ring_ok_def paced_items_def ring_items_def
        sfu_paced_send_init_def)
  ultimately show ?thesis
    unfolding sfu_paced_send_destroy_def by (auto simp: ok_simps elim!: okE)
qed

section \<open>Runs of the queue\<close>

text \<open>What the egress path does with a queue and the pacer of its session: it admits a packet of a
  frame, reserves and enqueues it, or cancels the reservation and rolls the frame back when
  either fails; it finishes a frame, trims the backlog and drains the queue, the congestion
  controller changes the rate, and the session destroys the queue.\<close>

inductive paced_step :: "sfu_paced_send \<times> sfu_pacer \<Rightarrow> sfu_paced_send \<times> sfu_pacer \<Rightarrow> bool" where
  rate: "paced_step (q, p) (q, sfu_pacer_set_rate p bps now)"
| admit: "sfu_paced_send_admit_frame_packet q p ts marker keyframe drop_on_delay max_delay now = Some (q', p', admitted) \<Longrightarrow>
    paced_step (q, p) (q', p')"
| submit: "ps_input_frame_active q \<Longrightarrow> \<not> ps_drop_input_frame q \<Longrightarrow>
    unat len \<le> length data \<Longrightarrow> unat rtx_len \<le> length rtx \<Longrightarrow>
    sfu_pacer_reserve p cls bytes drop_ok now reservation_zero = (p1, r, True) \<Longrightarrow>
    sfu_paced_send_enqueue alloc_ok q data len rtx rtx_len dst dst_len cls bps True r m now = Some (q', r', Accept release) \<Longrightarrow>
    paced_step (q, p) (q', p1)"
| submit_full: "ps_input_frame_active q \<Longrightarrow> \<not> ps_drop_input_frame q \<Longrightarrow>
    unat len \<le> length data \<Longrightarrow> unat rtx_len \<le> length rtx \<Longrightarrow>
    sfu_pacer_reserve p cls bytes drop_ok now reservation_zero = (p1, r, True) \<Longrightarrow>
    sfu_paced_send_enqueue alloc_ok q data len rtx rtx_len dst dst_len cls bps True r m now = Some (q1, r', Reject) \<Longrightarrow>
    sfu_paced_send_rollback_input_frame q1 (fst (sfu_pacer_cancel p1 r')) = Some (q2, p2) \<Longrightarrow>
    paced_step (q, p) (sfu_paced_send_reject_input_frame q2, p2)"
| submit_refused: "sfu_pacer_reserve p cls bytes drop_ok now reservation_zero = (p1, r, False) \<Longrightarrow>
    sfu_paced_send_rollback_input_frame q p1 = Some (q2, p2) \<Longrightarrow>
    paced_step (q, p) (sfu_paced_send_reject_input_frame q2, p2)"
| finish: "sfu_paced_send_finish_input_frame q = Some q' \<Longrightarrow> paced_step (q, p) (q', p)"
| backlog: "(\<forall>r. report = Some r \<longrightarrow> report_ok r) \<Longrightarrow>
    sfu_paced_send_bound_backlog q p max_delay now report = Some (q', p', report', below) \<Longrightarrow> paced_step (q, p) (q', p')"
| drain: "session_inv s \<Longrightarrow> session_pacer s = p \<Longrightarrow>
    sfu_paced_send_drain q s now remaining ios = Some (q', s', out, remaining', did_work) \<Longrightarrow>
    paced_step (q, p) (q', session_pacer s')"
| destroy: "sfu_paced_send_destroy q p = Some (q', p') \<Longrightarrow> paced_step (q, p) (q', p')"

lemma bound_backlog_ok:
  assumes "paced_state others q p" "\<And>r. report = Some r \<Longrightarrow> report_ok r"
  shows "ok (sfu_paced_send_bound_backlog q p max_delay_us now_us report) (\<lambda>(q', p', report', below).
    paced_state others q' p' \<and>
    (if max_delay_us \<le> 0 \<or> ps_input_frame_active q then q' = q \<and> p' = p \<and> \<not> below
     else below = (sfu_paced_send_projected_delay_us q' now_us < max_delay_us) \<and>
       (\<exists>q0. trimmed others q report max_delay_us now_us (q0, p', report') \<and> paced_items q' = paced_items q0 \<and>
         ps_ready_count q' = ps_ready_count q0 \<and> ps_count q' = ps_count q0 \<and>
         sfu_paced_send_projected_delay_us q' now_us = sfu_paced_send_projected_delay_us q0 now_us)))"
proof (cases "max_delay_us \<le> 0 \<or> ps_input_frame_active q")
  case True
  then show ?thesis
    using assms(1) by (auto simp: sfu_paced_send_bound_backlog_def ok_simps)
next
  case False
  have loop: "ok (backlog_loop (ps_ready_count q) q p max_delay_us now_us report) (trimmed others q report max_delay_us now_us)"
    using backlog_loop_ok [OF assms(1)] False assms(2) by simp
  obtain q0 p' report' where r: "backlog_loop (ps_ready_count q) q p max_delay_us now_us report = Some (q0, p', report')"
      "trimmed others q report max_delay_us now_us (q0, p', report')"
    using loop by (auto simp: ok_def)
  then have state: "paced_state others q0 p'"
    by (auto simp: trimmed_def)
  define q' where "q' = (if ps_count q0 = 0 then q0\<lparr>ps_head := 0, ps_tail := 0, ps_ready_frame_count := 0\<rparr> else q0)"
  have "paced_state others q' p' \<and> paced_items q' = paced_items q0"
    using state paced_reset [OF state, where t = "ps_next_release_us q0" and n = 0] by (simp add: q'_def)
  moreover have "sfu_paced_send_projected_delay_us q' now_us = sfu_paced_send_projected_delay_us q0 now_us"
      "ps_ready_count q' = ps_ready_count q0" "ps_count q' = ps_count q0"
    by (simp_all add: q'_def sfu_paced_send_projected_delay_us_def)
  moreover have "sfu_paced_send_bound_backlog q p max_delay_us now_us report =
      Some (q', p', report', sfu_paced_send_projected_delay_us q' now_us < max_delay_us)"
    unfolding sfu_paced_send_bound_backlog_def Let_def by (simp only: False if_False r(1) bind.bind_lunit prod.case q'_def)
  ultimately show ?thesis
    using False r(2) by (auto simp: ok_Some)
qed

lemma drain_ok:
  assumes "session_inv s" "paced_state others q (session_pacer s)"
  shows "ok (sfu_paced_send_drain q s now_us remaining ios) (\<lambda>(q', s', out, remaining', did_work). \<exists>q0 k.
    paced_post others q s now_us remaining ios (q0, s', out, k) \<and> paced_state others q' (session_pacer s') \<and>
    paced_items q' = paced_items q0 \<and> remaining' = remaining - k \<and> did_work = (k > 0))"
proof (cases "remaining = 0 \<or> ps_entries q = None \<or> ps_count q = 0")
  case True
  have "ps_ready_count q = 0" if "ps_entries q = None \<or> ps_count q = 0"
    using that paced_stateD(1,6) [OF assms(2)] by (auto simp: paced_ring_ok_def ring_ok_def)
  then have "paced_post others q s now_us remaining ios (q, s, [], 0)"
    using True paced_post_stop [OF assms, of remaining now_us ios] by (auto simp: ok_simps)
  then show ?thesis
    using True assms by (auto simp: sfu_paced_send_drain_def ok_simps)
next
  case False
  define q1 where "q1 = q\<lparr>ps_drain_invocations := ps_drain_invocations q + 1\<rparr>"
  have q1: "paced_state others q1 (session_pacer s)" "paced_items q1 = paced_items q" "ps_ready_count q1 = ps_ready_count q"
    using paced_stats_state(3) [OF assms(2)] by (simp_all add: q1_def)
  obtain q0 s' out k where loop: "paced_drain_loop remaining q1 s now_us ios = Some (q0, s', out, k)"
      "paced_post others q1 s now_us remaining ios (q0, s', out, k)"
    using paced_drain_loop_ok [OF assms(1) q1(1), of remaining now_us ios] by (auto simp: ok_def)
  have post: "paced_post others q s now_us remaining ios (q0, s', out, k)"
    using loop(2) unfolding paced_post_def q1(2,3) by simp
  then have state: "paced_state others q0 (session_pacer s')"
    by (simp add: paced_post_def Let_def)
  define q2 where "q2 = (if length out > ps_max_drain_packets q0 then q0\<lparr>ps_max_drain_packets := length out\<rparr> else q0)"
  have q2: "paced_state others q2 (session_pacer s') \<and> paced_items q2 = paced_items q0"
    using paced_stats_state(5) [OF state] state by (simp add: q2_def)
  have "ok (if k = remaining \<and> ps_ready_count q2 \<noteq> 0
      then do {
        es \<leftarrow> ps_entries q2;
        e \<leftarrow> aget es (ps_head q2);
        Some (if se_release_at_us e \<le> now_us then q2\<lparr>ps_drain_cap_hits := ps_drain_cap_hits q2 + 1\<rparr> else q2)
      }
      else Some q2) (\<lambda>q3. paced_state others q3 (session_pacer s') \<and> paced_items q3 = paced_items q0)"
  proof (cases "k = remaining \<and> ps_ready_count q2 \<noteq> 0")
    case True
    then have "0 < ps_count q2"
      using paced_stateD(6) [OF conjunct1 [OF q2]] by simp
    then obtain es where "ps_entries q2 = Some es" "ps_head q2 < length es"
      by (rule paced_head [OF paced_stateD(1) [OF conjunct1 [OF q2]]])
    then show ?thesis
      using True q2 paced_stats_state(4) [OF conjunct1 [OF q2]] by (simp add: ok_simps)
  qed (use q2 in \<open>auto simp: ok_simps\<close>)
  then obtain q3 where q3: "(if k = remaining \<and> ps_ready_count q2 \<noteq> 0
      then do {
        es \<leftarrow> ps_entries q2;
        e \<leftarrow> aget es (ps_head q2);
        Some (if se_release_at_us e \<le> now_us then q2\<lparr>ps_drain_cap_hits := ps_drain_cap_hits q2 + 1\<rparr> else q2)
      }
      else Some q2) = Some q3" "paced_state others q3 (session_pacer s')" "paced_items q3 = paced_items q0"
    by (auto simp: ok_def)
  have "sfu_paced_send_drain q s now_us remaining ios = Some (if ps_count q3 = 0
      then q3\<lparr>ps_head := 0, ps_tail := 0, ps_next_release_us := 0, ps_ready_frame_count := 0\<rparr> else q3,
      s', out, remaining - k, k > 0)"
    unfolding sfu_paced_send_drain_def Let_def q1_def [symmetric]
    by (simp only: False if_False loop(1) bind.bind_lunit prod.case q2_def [symmetric] q3(1))
  then show ?thesis
    using post q3(2,3) paced_reset [OF q3(2), where t = 0 and n = 0] by (auto simp: ok_Some)
qed

lemma paced_submit_state:
  assumes "paced_state others q p" "sfu_pacer_reserve p cls bytes drop_ok now reservation_zero = (p1, r, granted)"
  shows "paced_state (others + charge r) q p1"
  using assms(1) reserve_charge(1) [OF assms(2)] reserve_charge(2) [OF assms(2)]
  by (auto simp: paced_state_def)

lemma rejected_state:
  assumes "paced_state others q p" "sfu_paced_send_rollback_input_frame q p = Some (q', p')"
  shows "paced_state others (sfu_paced_send_reject_input_frame q') p'"
proof -
  have "frame_cut others q (q', p')"
    using rollback_ok [OF assms(1)] assms(2) by (auto dest: ok_result)
  then show ?thesis
    using reject_state [of others q' p'] by (simp add: frame_cut_def)
qed

lemma cancelled_state:
  assumes "paced_state (others + charge r) q p"
  shows "paced_state others q (fst (sfu_pacer_cancel p r))"
proof -
  obtain p' r' where c: "sfu_pacer_cancel p r = (p', r')"
    by (cases "sfu_pacer_cancel p r")
  have "charge r' = 0"
    using c by (auto simp: sfu_pacer_cancel_def Let_def charge_def split: if_splits)
  then show ?thesis
    using settle_charge(2) [OF c] assms by (simp add: paced_state_def c)
qed

lemma paced_step_state:
  "paced_step a b \<Longrightarrow> paced_state others (fst a) (snd a) \<Longrightarrow> paced_state others (fst b) (snd b)"
proof (induction rule: paced_step.induct)
  case (rate q p bps now)
  then show ?case
    by (simp add: paced_state_def)
next
  case (admit q p ts marker keyframe drop_on_delay max_delay now q' p' admitted)
  then show ?case
    using ok_result [OF admit_ok [of others q p ts marker keyframe drop_on_delay max_delay now]]
    by (simp add: admitted_state_def)
next
  case (submit q len data rtx_len rtx p cls bytes drop_ok now p1 r alloc_ok dst dst_len bps m q' r' release)
  then have "paced_state others q p"
    by simp
  then show ?case
    using ok_result [OF enqueue_ok [OF paced_submit_state [OF _ submit(5)] submit(1-4)] submit(6)]
    by (fastforce split: if_splits)
next
  case (submit_full q len data rtx_len rtx p cls bytes drop_ok now p1 r alloc_ok dst dst_len bps m q1 r' q2 p2)
  have "paced_state others q p"
    using submit_full.prems by simp
  then have "paced_state (others + charge r') q1 p1"
    using ok_result [OF enqueue_ok [OF paced_submit_state [OF _ submit_full(5)] submit_full(1-4)] submit_full(6)]
    by (fastforce split: if_splits)
  then show ?case
    using rejected_state [OF cancelled_state submit_full(7)] by simp
next
  case (submit_refused p cls bytes drop_ok now p1 r q q2 p2)
  have "charge r = 0"
    using reserve_charge(4) [OF submit_refused(1)] by (simp add: charge_def reservation_zero_def)
  then have "paced_state others q p1"
    using paced_submit_state [OF _ submit_refused(1), of others q] submit_refused.prems by simp
  then show ?case
    using rejected_state [OF _ submit_refused(2)] by simp
next
  case (finish q q' p)
  then show ?case
    using ok_result [OF finish_ok [of others q p] finish(1)] by simp
next
  case (backlog report q p max_delay now q' p' report' below)
  then show ?case
    using ok_result [OF bound_backlog_ok [of others q p report] backlog(2)] by simp
next
  case (drain s p q now remaining ios q' s' out remaining' did_work)
  then show ?case
    using ok_result [OF drain_ok [of s others q] drain(3)] by auto
next
  case (destroy q p q' p')
  then show ?case
    using ok_result [OF destroy_ok [of others q p] destroy(1)] by auto
qed

lemma init_state: "pacer_inv p \<Longrightarrow> paced_state (reserved_bytes p) sfu_paced_send_init p"
  by (simp add: paced_state_def paced_inv_def paced_ring_ok_def ring_ok_def paced_items_def ring_items_def
      sfu_paced_send_init_def)

lemma paced_reachable:
  assumes "pacer_inv p0" "paced_step\<^sup>*\<^sup>* (sfu_paced_send_init, p0) (q, p)"
  shows "paced_state (reserved_bytes p0) q p"
  using assms(2)
proof (induction rule: rtranclp_induct2)
  case refl
  then show ?case
    by (rule init_state [OF assms(1)])
next
  case (step q p q' p')
  then show ?case
    using paced_step_state [OF step(2)] by simp
qed

section \<open>Properties\<close>

text \<open>Property C2.  Whatever sequence of packets, full queues, refused reservations, drops, trims,
  drains and teardowns a queue goes through: its indices are within its array, the packets queued are the ready ones and
  those of the open frame, and the bytes the pacer has reserved for it are exactly the charges of the
  packets it holds - no path leaks a reservation or releases it twice.\<close>

theorem paced_reservations_conserved:
  assumes "pacer_inv p0" "paced_step\<^sup>*\<^sup>* (sfu_paced_send_init, p0) (q, p)"
  shows "paced_ring_ok q \<and> pacer_inv p \<and>
    length (paced_items q) = ps_ready_count q + ps_input_frame_queued_packets q \<and>
    (\<forall>e \<in> set (paced_items q). res_active (se_reservation e)) \<and>
    reserved_bytes p = reserved_bytes p0 + charges (paced_items q)"
proof -
  note inv = paced_stateD [OF paced_reachable [OF assms]]
  show ?thesis
    using inv(1,2,4,5,6) by (auto simp: list_all_iff paced_entry_ok_def)
qed

lemma spaced_spans:
  "spaced es t \<Longrightarrow> i \<le> j \<Longrightarrow> j < length es \<Longrightarrow>
   se_release_at_us (es ! i) + spans (take (j - i) (drop i es)) \<le> se_release_at_us (es ! j)"
proof (induction "j - i" arbitrary: j)
  case 0
  then show ?case
    by (simp add: spans_def)
next
  case (Suc d)
  then have j: "0 < j" "j - 1 < length es" "i \<le> j - 1" "d = j - 1 - i"
    by auto
  have "take (j - i) (drop i es) = take (j - 1 - i) (drop i es) @ [es ! (j - 1)]"
  proof -
    have "j - i = Suc (j - 1 - i)" "j - 1 - i < length (drop i es)" "i + (j - 1 - i) = j - 1"
      using j Suc.prems by auto
    then show ?thesis
      using take_Suc_conv_app_nth [of "j - 1 - i" "drop i es"] Suc.prems(3) by simp
  qed
  moreover have "se_release_at_us (es ! (j - 1)) + se_span_us (es ! (j - 1)) \<le> se_release_at_us (es ! j)"
    using Suc.prems(1,3) j(1) sorted_wrt_nth_less [of _ es "j - 1" j] by (fastforce simp: spaced_def)
  ultimately show ?case
    using Suc.hyps(1) [OF j(4) Suc.prems(1) j(3,2)] by (simp add: spans_def)
qed

text \<open>Property C17.  The pacing of a queue.  In every reachable state the release times of two queued
  packets are at least the serialisation times of the packets between them apart, and each of these times is
  the time the packet takes, rounded up, at a rate not below the floor for its kind of frame.  A packet
  that is enqueued gets the time it takes at the pacing rate of the call, or at the floor when that is higher; it is
  released when the packets before it are through, or now.\<close>

theorem paced_release_spacing:
  assumes "pacer_inv p0" "paced_step\<^sup>*\<^sup>* (sfu_paced_send_init, p0) (q, p)" "i \<le> j" "j < length (paced_items q)"
  shows "se_release_at_us (paced_items q ! i) + spans (take (j - i) (drop i (paced_items q))) \<le>
      se_release_at_us (paced_items q ! j) \<and>
    se_release_at_us (paced_items q ! j) + se_span_us (paced_items q ! j) \<le> ps_next_release_us q \<and>
    (\<exists>rate. floor_rate (md_is_keyframe (se_metadata (paced_items q ! j))) \<le> rate \<and>
      serialised (se_len (paced_items q ! j)) rate (se_span_us (paced_items q ! j))) \<and>
    (ps_input_frame_active q \<and> \<not> ps_drop_input_frame q \<and> unat len \<le> length data \<and> unat rtx_len \<le> length rtx \<and>
      sfu_paced_send_enqueue alloc_ok q data len rtx rtx_len dst dst_len cls bps True r m now_us =
        Some (q', r', Accept release) \<longrightarrow>
      (\<exists>e. paced_items q' = paced_items q @ [e] \<and> se_len e = len \<and> se_release_at_us e = release \<and>
        release = max (ps_next_release_us q) now_us \<and> ps_next_release_us q' = release + se_span_us e \<and>
        serialised len (max (uint bps) (floor_rate (md_is_keyframe m))) (se_span_us e)))"
proof -
  note state = paced_reachable [OF assms(1,2)]
  note inv = paced_stateD [OF state]
  have "entry_serialised (paced_items q ! j)"
    using inv(2) assms(4) by (simp add: list_all_length paced_entry_ok_def)
  moreover have "\<exists>e. paced_items q' = paced_items q @ [e] \<and> se_len e = len \<and> se_release_at_us e = release \<and>
        release = max (ps_next_release_us q) now_us \<and> ps_next_release_us q' = release + se_span_us e \<and>
        serialised len (max (uint bps) (floor_rate (md_is_keyframe m))) (se_span_us e)"
    if enq: "ps_input_frame_active q" "\<not> ps_drop_input_frame q" "unat len \<le> length data" "unat rtx_len \<le> length rtx"
      "sfu_paced_send_enqueue alloc_ok q data len rtx rtx_len dst dst_len cls bps True r m now_us =
        Some (q', r', Accept release)"
  proof -
    have "paced_state (reserved_bytes p0 - charge r + charge r) q p"
      using state by simp
    from ok_result [OF enqueue_ok [OF this enq(1-4)] enq(5)] show ?thesis
      using paced_span_serialised by (auto simp: paced_entry_def split: if_splits)
  qed
  ultimately show ?thesis
    using spaced_spans [OF inv(3) assms(3,4)] inv(3) assms(4) by (auto simp: spaced_def entry_serialised_def)
qed


text \<open>Property C18.  Trimming a backlog always terminates.  It discards packets from the head up to the end
  of a frame (or everything), cancels their reservations, and reports every publisher whose frame it
  discarded unless the report is marked truncated; when the projected delay is still too large
  afterwards, that is because the queue now starts with a keyframe.\<close>

theorem paced_backlog_trimmed:
  assumes "paced_state others q p" "\<not> ps_input_frame_active q" "0 < max_delay_us" "report_ok r"
  shows "\<exists>q' p' r' below k. sfu_paced_send_bound_backlog q p max_delay_us now_us (Some r) = Some (q', p', Some r', below) \<and>
    paced_state others q' p' \<and> k \<le> length (paced_items q) \<and>
    map se_metadata (paced_items q') = drop k (map se_metadata (paced_items q)) \<and>
    (k = 0 \<or> k = length (paced_items q) \<or> frame_end (paced_items q ! (k - 1))) \<and>
    (below \<longleftrightarrow> sfu_paced_send_projected_delay_us q' now_us < max_delay_us) \<and>
    (\<not> below \<longrightarrow> paced_items q' \<noteq> [] \<and> md_is_keyframe (se_metadata (hd (paced_items q')))) \<and>
    (\<forall>i < k. frame_end (paced_items q ! i) \<longrightarrow> reported r' (publisher (paced_items q ! i)))"
proof -
  obtain q' p' report' below q0 where *:
      "sfu_paced_send_bound_backlog q p max_delay_us now_us (Some r) = Some (q', p', report', below)"
      "paced_state others q' p'" "below = (sfu_paced_send_projected_delay_us q' now_us < max_delay_us)"
      "trimmed others q (Some r) max_delay_us now_us (q0, p', report')" "paced_items q' = paced_items q0"
      "ps_ready_count q' = ps_ready_count q0" "ps_count q' = ps_count q0"
      "sfu_paced_send_projected_delay_us q' now_us = sfu_paced_send_projected_delay_us q0 now_us"
    using bound_backlog_ok [OF assms(1), of "Some r" max_delay_us now_us] assms(2-) by (auto simp: ok_def)
  obtain r' where r': "report' = Some r'"
    using *(4) by (cases report') (auto simp: trimmed_def)
  obtain k where k: "k \<le> length (paced_items q)" "\<not> ps_input_frame_active q0" "paced_state others q0 p'"
     "map se_metadata (paced_items q0) = drop k (map se_metadata (paced_items q))"
     "k = 0 \<or> k = length (paced_items q) \<or> frame_end (paced_items q ! (k - 1))"
     "ps_ready_count q0 = 0 \<or> sfu_paced_send_projected_delay_us q0 now_us < max_delay_us \<or>
      md_is_keyframe (se_metadata (hd (paced_items q0)))"
     "\<forall>i < k. frame_end (paced_items q ! i) \<longrightarrow> reported r' (publisher (paced_items q ! i))"
    using *(4) unfolding trimmed_def r' prod.case option.case by blast
  note inv = paced_stateD [OF k(3)]
  have count: "ps_count q0 = ps_ready_count q0" "length (paced_items q0) = ps_ready_count q0"
    using inv(1,6,7) k(2) by simp_all
  have "below" if "ps_ready_count q0 = 0"
    using that count(1) *(3,8) assms(3) by (simp add: sfu_paced_send_projected_delay_us_def)
  then have key: "paced_items q' \<noteq> [] \<and> md_is_keyframe (se_metadata (hd (paced_items q')))" if "\<not> below"
    using that k(6) *(3,5,8) count(2) by auto
  show ?thesis
    by (intro exI [of _ q'] exI [of _ p'] exI [of _ r'] exI [of _ below] exI [of _ k])
      (use * k r' key in simp)
qed

section \<open>Witnesses\<close>

text \<open>A first packet admitted, reserved and enqueued.\<close>

definition sample_open :: sfu_paced_send where
  "sample_open = open_frame sfu_paced_send_init 90 False False 200000 1000"

definition sample_pacer :: sfu_pacer where
  "sample_pacer = sfu_pacer_set_rate sfu_pacer_init 1000000 1"

definition sample_reservation :: sfu_pacer_reservation where
  "sample_reservation = \<lparr>res_bytes = 100, res_class = 2, res_charged = True, res_active = True\<rparr>"

lemma sample_pacer_inv: "pacer_inv sample_pacer"
  by (simp add: sample_pacer_def pacer_inv_def sfu_pacer_init_def)
    (simp add: sfu_pacer_set_rate_def)

lemma sample_reserve:
  "fst (snd (sfu_pacer_reserve sample_pacer 2 100 False 1000 reservation_zero)) = sample_reservation \<and>
   snd (snd (sfu_pacer_reserve sample_pacer 2 100 False 1000 reservation_zero))"
  by (simp add: sample_pacer_def sfu_pacer_set_rate_def sfu_pacer_init_def sfu_pacer_reserve_def sfu_pacer_refill_def
      Let_def sample_reservation_def reservation_zero_def)

lemma sample_admit:
  "sfu_paced_send_admit_frame_packet sfu_paced_send_init p 90 False False False 200000 1000 = Some (sample_open, p, True)"
  by (simp add: sfu_paced_send_admit_frame_packet_def admit_new_frame_def admit_packet_def sample_open_def)
    (simp add: open_frame_def sfu_paced_send_init_def)

definition sample_metadata :: sfu_paced_send_metadata where
  "sample_metadata = metadata_zero\<lparr>md_owner_value := 3, md_assignment_generation := 5, md_transport_generation := 1,
     md_address_generation := 1\<rparr>"

definition sample_entry :: "int \<Rightarrow> sfu_pacer_reservation \<Rightarrow> sfu_paced_send_entry" where
  "sample_entry release r = \<lparr>se_release_at_us = release, se_enqueued_at_us = 1000, se_span_us = 8, se_dst = [10, 0, 0, 1],
     se_dst_len = 4, se_len = 2, se_rtx_plaintext_len = 0, se_pacer_class = 2, se_pacer = True, se_reservation = r,
     se_metadata = sample_metadata, se_data = [7, 8], se_rtx_plaintext = []\<rparr>"

lemma sample_submit:
  assumes "paced_step\<^sup>*\<^sup>* (sfu_paced_send_init, sample_pacer) (q, p)" "ps_input_frame_active q" "\<not> ps_drop_input_frame q"
    "ps_count q < SFU_PACED_SEND_CAPACITY"
    "sfu_pacer_reserve p 2 100 False 1000 reservation_zero = (p1, r, True)" "res_active r"
  obtains q' where "paced_step\<^sup>*\<^sup>* (sfu_paced_send_init, sample_pacer) (q', p1)" "ps_input_frame_active q'"
    "\<not> ps_drop_input_frame q'" "ps_next_release_us q' = max (ps_next_release_us q) 1000 + 8"
    "paced_items q' = paced_items q @ [sample_entry (max (ps_next_release_us q) 1000) r]"
proof -
  have bounds: "unat (2 :: u16) \<le> length [7, 8 :: u8]" "unat (0 :: u16) \<le> length ([] :: bytes)"
    by simp_all
  have room: "paced_room True q 2 0 r"
    using assms(4,6) by (simp add: paced_room_def)
  have span: "paced_span_us 2 1000000 (md_is_keyframe sample_metadata) = 8"
    by (simp add: paced_span_us_def sample_metadata_def metadata_zero_def)
  have entry: "paced_entry q [7, 8] 2 [] 0 [10, 0, 0, 1] 4 2 1000000 r sample_metadata 1000 =
      sample_entry (max (ps_next_release_us q) 1000) r"
    using span by (simp add: paced_entry_def sample_entry_def)
  obtain q' r' where q: "sfu_paced_send_enqueue True q [7, 8] 2 [] 0 [10, 0, 0, 1] 4 2 1000000 True r sample_metadata 1000 =
        Some (q', r', Accept (max (ps_next_release_us q) 1000))"
      "ps_input_frame_active q'" "\<not> ps_drop_input_frame q'" "ps_next_release_us q' = max (ps_next_release_us q) 1000 + 8"
      "paced_items q' = paced_items q @ [sample_entry (max (ps_next_release_us q) 1000) r]"
    using enqueue_ok [OF paced_submit_state [OF paced_reachable [OF sample_pacer_inv assms(1)] assms(5)] assms(2,3) bounds,
        of True "[10, 0, 0, 1]" 4 2 1000000 sample_metadata 1000] room by (auto simp: ok_def span entry)
  show ?thesis
    by (rule that [OF _ q(2-)]) (use rtranclp.rtrancl_into_rtrancl [OF assms(1)
        paced_step.submit [OF assms(2,3) bounds assms(5) q(1)]] in simp)
qed

lemma sample_run:
  obtains q p where "paced_step\<^sup>*\<^sup>* (sfu_paced_send_init, sample_pacer) (q, p)" "ps_input_frame_active q"
    "\<not> ps_drop_input_frame q" "ps_next_release_us q = 1008" "paced_items q = [sample_entry 1000 sample_reservation]"
proof -
  obtain p1 where r: "sfu_pacer_reserve sample_pacer 2 100 False 1000 reservation_zero = (p1, sample_reservation, True)"
    using sample_reserve by (cases "sfu_pacer_reserve sample_pacer 2 100 False 1000 reservation_zero") auto
  have run: "paced_step\<^sup>*\<^sup>* (sfu_paced_send_init, sample_pacer) (sample_open, sample_pacer)"
    using paced_step.admit [OF sample_admit] by blast
  have op: "ps_input_frame_active sample_open" "\<not> ps_drop_input_frame sample_open"
      "ps_count sample_open < SFU_PACED_SEND_CAPACITY" "ps_next_release_us sample_open = 0" "paced_items sample_open = []"
    by (simp_all add: sample_open_def open_frame_def sfu_paced_send_init_def paced_items_def ring_items_def)
  have "res_active sample_reservation"
    by (simp add: sample_reservation_def)
  from sample_submit [OF run op(1-3) r this] obtain q where "paced_step\<^sup>*\<^sup>* (sfu_paced_send_init, sample_pacer) (q, p1)"
      "ps_input_frame_active q" "\<not> ps_drop_input_frame q" "ps_next_release_us q = max (ps_next_release_us sample_open) 1000 + 8"
      "paced_items q = paced_items sample_open @ [sample_entry (max (ps_next_release_us sample_open) 1000) sample_reservation]" .
  then show ?thesis
    by (intro that [of q p1]) (simp_all add: op)
qed

lemma sample_run_two:
  obtains q p r where "paced_step\<^sup>*\<^sup>* (sfu_paced_send_init, sample_pacer) (q, p)"
    "paced_items q = [sample_entry 1000 sample_reservation, sample_entry 1008 r]"
proof -
  obtain q p where run: "paced_step\<^sup>*\<^sup>* (sfu_paced_send_init, sample_pacer) (q, p)" "ps_input_frame_active q"
      "\<not> ps_drop_input_frame q" "ps_next_release_us q = 1008" "paced_items q = [sample_entry 1000 sample_reservation]"
    by (rule sample_run)
  have "ps_count q < SFU_PACED_SEND_CAPACITY"
    using paced_items_length [OF paced_stateD(1) [OF paced_reachable [OF sample_pacer_inv run(1)]]] run(5) by simp
  moreover have "\<exists>p1 r. sfu_pacer_reserve p 2 100 False 1000 reservation_zero = (p1, r, True) \<and> res_active r"
    by (simp add: sfu_pacer_reserve_def reservation_zero_def Let_def)
  then obtain p1 r where "sfu_pacer_reserve p 2 100 False 1000 reservation_zero = (p1, r, True)" "res_active r"
    by blast
  ultimately obtain q' where "paced_step\<^sup>*\<^sup>* (sfu_paced_send_init, sample_pacer) (q', p1)"
      "paced_items q' = paced_items q @ [sample_entry (max (ps_next_release_us q) 1000) r]"
    using sample_submit [OF run(1-3)] by metis
  then show ?thesis
    by (intro that [of q' p1 r]) (simp_all add: run(4,5))
qed

theorem paced_reservations_conserved_witness:
  "\<exists>q p. paced_step\<^sup>*\<^sup>* (sfu_paced_send_init, sample_pacer) (q, p) \<and> length (paced_items q) = 1 \<and>
     reserved_bytes p = reserved_bytes sample_pacer + 100"
proof -
  obtain q p where run: "paced_step\<^sup>*\<^sup>* (sfu_paced_send_init, sample_pacer) (q, p)"
      "paced_items q = [sample_entry 1000 sample_reservation]"
    by (rule sample_run)
  have "charge (se_reservation (sample_entry 1000 sample_reservation)) = 100"
    by (simp add: charge_def sample_reservation_def sample_entry_def)
  then show ?thesis
    using paced_reservations_conserved [OF sample_pacer_inv run(1)] run by (intro exI [of _ q] exI [of _ p]) simp
qed

text \<open>Two packets of two bytes: at the floor of two megabits per second each takes eight microseconds.\<close>

theorem paced_release_spacing_witness:
  "\<exists>q p. paced_step\<^sup>*\<^sup>* (sfu_paced_send_init, sample_pacer) (q, p) \<and> length (paced_items q) = 2 \<and>
     se_release_at_us (paced_items q ! 0) = 1000 \<and> se_span_us (paced_items q ! 0) = 8 \<and>
     se_release_at_us (paced_items q ! 0) + 8 \<le> se_release_at_us (paced_items q ! 1)"
proof -
  obtain q p r where run: "paced_step\<^sup>*\<^sup>* (sfu_paced_send_init, sample_pacer) (q, p)"
      "paced_items q = [sample_entry 1000 sample_reservation, sample_entry 1008 r]"
    by (rule sample_run_two)
  have "1 < length (paced_items q)"
    by (simp add: run(2))
  from paced_release_spacing [OF sample_pacer_inv run(1) zero_le_one this]
  have "se_release_at_us (paced_items q ! 0) + spans (take 1 (paced_items q)) \<le> se_release_at_us (paced_items q ! 1)"
    by simp
  moreover have "spans (take 1 (paced_items q)) = 8"
    by (simp add: run(2) spans_def sample_entry_def)
  ultimately show ?thesis
    using run by (intro exI [of _ q] exI [of _ p]) (simp add: sample_entry_def)
qed


theorem paced_backlog_trimmed_witness:
  "\<exists>q p q' p' r' below k. length (paced_items q) = 1 \<and> \<not> ps_input_frame_active q \<and>
     sfu_paced_send_bound_backlog q p 750000 2000 (Some sfu_paced_send_drop_report_init) = Some (q', p', Some r', below) \<and>
     k \<le> 1 \<and> map se_metadata (paced_items q') = drop k (map se_metadata (paced_items q))"
proof -
  obtain q0 p where run: "paced_step\<^sup>*\<^sup>* (sfu_paced_send_init, sample_pacer) (q0, p)"
      "paced_items q0 = [sample_entry 1000 sample_reservation]"
    by (rule sample_run)
  obtain q where q: "paced_state (reserved_bytes sample_pacer) q p" "\<not> ps_input_frame_active q" "length (paced_items q) = 1"
    using finish_ok [OF paced_reachable [OF sample_pacer_inv run(1)]] run(2)
    by (auto simp: ok_def split: if_splits)
  have "report_ok sfu_paced_send_drop_report_init"
    by (simp add: report_ok_def sfu_paced_send_drop_report_init_def)
  then show ?thesis
    using paced_backlog_trimmed [OF q(1,2), of 750000 sfu_paced_send_drop_report_init 2000] q(2,3) by fastforce
qed

end
