(* ===== verification/Rtcp.thy ===== *)
theory Rtcp
  imports Netbytes SFU_Interfaces
begin

text \<open>
  RTCP: the iterator over a compound packet (\<^verbatim>\<open>src/src/rtcp/rtcp_compound.c\<close>), the parsers of
  keyframe requests (\<^verbatim>\<open>rtcp_fb.c\<close>) and the builders of PLI, FIR and REMB (\<^verbatim>\<open>rtcp_kf.c\<close>).
  The pointers \<^verbatim>\<open>next\<close>, \<^verbatim>\<open>member\<close>, \<^verbatim>\<open>body\<close> and \<^verbatim>\<open>fci\<close> are offsets into the packet.
\<close>

section \<open>Compound packets\<close>

datatype sfu_rtcp_compound_result =
    SFU_RTCP_COMPOUND_MALFORMED
  | SFU_RTCP_COMPOUND_END
  | SFU_RTCP_COMPOUND_ITEM

record sfu_rtcp_member_view =
  mv_member :: nat
  mv_member_len :: nat
  mv_fmt_count :: u8
  mv_pt :: u8
  mv_sender_ssrc :: u32
  mv_body :: nat
  mv_body_len :: nat

record sfu_rtcp_compound_iter =
  it_next :: nat
  it_remaining :: nat
  it_malformed :: bool

definition member_view_zero :: sfu_rtcp_member_view where
  "member_view_zero = \<lparr>mv_member = 0, mv_member_len = 0, mv_fmt_count = 0, mv_pt = 0, mv_sender_ssrc = 0,
     mv_body = 0, mv_body_len = 0\<rparr>"

definition sfu_rtcp_compound_iter_init :: "nat \<Rightarrow> sfu_rtcp_compound_iter" where
  "sfu_rtcp_compound_iter_init packet_len = \<lparr>it_next = 0, it_remaining = packet_len, it_malformed = False\<rparr>"

definition malformed :: "sfu_rtcp_compound_iter \<Rightarrow> sfu_rtcp_member_view \<Rightarrow>
    sfu_rtcp_compound_iter \<times> sfu_rtcp_member_view \<times> sfu_rtcp_compound_result" where
  "malformed iter view = (iter\<lparr>it_malformed := True, it_remaining := 0\<rparr>, view, SFU_RTCP_COMPOUND_MALFORMED)"

definition rtcp_member_bytes :: "u16 \<Rightarrow> nat" where
  "rtcp_member_bytes words_minus_one = (unat words_minus_one + 1) * 4"

definition sfu_rtcp_compound_iter_next ::
    "bytes \<Rightarrow> sfu_rtcp_compound_iter \<Rightarrow> sfu_rtcp_member_view \<Rightarrow>
     (sfu_rtcp_compound_iter \<times> sfu_rtcp_member_view \<times> sfu_rtcp_compound_result) option" where
  "sfu_rtcp_compound_iter_next packet iter view =
     (if it_malformed iter then Some (iter, view, SFU_RTCP_COMPOUND_MALFORMED)
      else if it_remaining iter = 0 then Some (iter, view, SFU_RTCP_COMPOUND_END)
      else if it_remaining iter < 4 then Some (malformed iter view)
      else do {
        let member = it_next iter;
        first \<leftarrow> rd packet member;
        if drop_bit 6 first \<noteq> 2 then Some (malformed iter view)
        else do {
          words_minus_one \<leftarrow> sfu_read_be16 packet (member + 2);
          let member_bytes = rtcp_member_bytes words_minus_one;
          if member_bytes < 8 \<or> member_bytes > it_remaining iter then Some (malformed iter view)
          else do {
            padding \<leftarrow> (if first AND 0x20 \<noteq> 0
              then do { p \<leftarrow> rd packet (member + member_bytes - 1); Some (Some (unat p)) } else Some None);
            let payload_bytes = member_bytes - 4;
            let logical_bytes = (case padding of None \<Rightarrow> member_bytes | Some p \<Rightarrow> member_bytes - p);
            if (case padding of None \<Rightarrow> False | Some p \<Rightarrow> p = 0 \<or> p > payload_bytes \<or> logical_bytes < 8)
            then Some (malformed iter view)
            else do {
              pt \<leftarrow> rd packet (member + 1);
              ssrc \<leftarrow> sfu_read_be32 packet (member + 4);
              let view = \<lparr>mv_member = member, mv_member_len = logical_bytes, mv_fmt_count = first AND 0x1f,
                mv_pt = pt, mv_sender_ssrc = ssrc, mv_body = member + 8, mv_body_len = logical_bytes - 8\<rparr>;
              Some (iter\<lparr>it_next := it_next iter + member_bytes, it_remaining := it_remaining iter - member_bytes\<rparr>,
                view, SFU_RTCP_COMPOUND_ITEM)
            }
          }
        }
      })"

section \<open>Keyframe requests\<close>

record sfu_rtcp_pli =
  pli_sender_ssrc :: u32
  pli_media_ssrc :: u32

record sfu_rtcp_fir =
  fir_sender_ssrc :: u32
  fir_media_ssrc :: u32
  fir_fci :: nat
  fir_entry_count :: nat

record sfu_rtcp_fir_entry =
  fe_target_ssrc :: u32
  fe_sequence_number :: u8

definition sfu_rtcp_parse_pli :: "bytes \<Rightarrow> sfu_rtcp_member_view \<Rightarrow> sfu_rtcp_pli ret option" where
  "sfu_rtcp_parse_pli packet m =
     (if mv_pt m \<noteq> 206 \<or> mv_fmt_count m \<noteq> 1 \<or> mv_member_len m \<noteq> 12 \<or> mv_body_len m \<noteq> 4 \<or>
         mv_body m \<noteq> mv_member m + 8 then Some Reject
      else do {
        media_ssrc \<leftarrow> sfu_read_be32 packet (mv_body m);
        Some (Accept \<lparr>pli_sender_ssrc = mv_sender_ssrc m, pli_media_ssrc = media_ssrc\<rparr>)
      })"

text \<open>The loop of \<^verbatim>\<open>sfu_rtcp_parse_fir\<close> over the entries: the reserved bytes must be zero.\<close>

fun fir_entries_ok :: "bytes \<Rightarrow> nat \<Rightarrow> nat \<Rightarrow> bool option" where
  "fir_entries_ok packet entry 0 = Some True"
| "fir_entries_ok packet entry (Suc n) = do {
     a \<leftarrow> rd packet (entry + 5);
     if a \<noteq> 0 then Some False
     else do {
       b \<leftarrow> rd packet (entry + 6);
       if b \<noteq> 0 then Some False
       else do {
         c \<leftarrow> rd packet (entry + 7);
         if c \<noteq> 0 then Some False else fir_entries_ok packet (entry + 8) n
       }
     }
   }"

definition sfu_rtcp_parse_fir :: "bytes \<Rightarrow> sfu_rtcp_member_view \<Rightarrow> sfu_rtcp_fir ret option" where
  "sfu_rtcp_parse_fir packet m =
     (if mv_pt m \<noteq> 206 \<or> mv_fmt_count m \<noteq> 4 \<or> mv_member_len m < 20 \<or> mv_body_len m < 12 \<or>
         mv_body m \<noteq> mv_member m + 8 \<or> mv_member_len m \<noteq> mv_body_len m + 8 \<or>
         (mv_body_len m - 4) mod 8 \<noteq> 0 then Some Reject
      else do {
        let count = (mv_body_len m - 4) div 8;
        entries_ok \<leftarrow> fir_entries_ok packet (mv_body m + 4) count;
        if \<not> entries_ok then Some Reject
        else do {
          media_ssrc \<leftarrow> sfu_read_be32 packet (mv_body m);
          Some (Accept \<lparr>fir_sender_ssrc = mv_sender_ssrc m, fir_media_ssrc = media_ssrc,
            fir_fci = mv_body m + 4, fir_entry_count = count\<rparr>)
        }
      })"

definition sfu_rtcp_fir_entry_at :: "bytes \<Rightarrow> sfu_rtcp_fir \<Rightarrow> nat \<Rightarrow> sfu_rtcp_fir_entry ret option" where
  "sfu_rtcp_fir_entry_at packet fir index =
     (if index \<ge> fir_entry_count fir then Some Reject
      else do {
        let p = fir_fci fir + index * 8;
        ssrc \<leftarrow> sfu_read_be32 packet p;
        seq \<leftarrow> rd packet (p + 4);
        Some (Accept \<lparr>fe_target_ssrc = ssrc, fe_sequence_number = seq\<rparr>)
      })"

section \<open>Builders\<close>

text \<open>A builder returns the buffer and the number of bytes written, or \<open>Reject\<close> for \<open>-1\<close>.\<close>

definition sfu_rtcp_build_pli :: "u32 \<Rightarrow> u32 \<Rightarrow> bytes \<Rightarrow> nat \<Rightarrow> (bytes \<times> nat) ret option" where
  "sfu_rtcp_build_pli sender_ssrc media_ssrc buffer cap =
     (if cap < 12 then Some Reject
      else do {
        buffer \<leftarrow> wr buffer 0 0x81;
        buffer \<leftarrow> wr buffer 1 206;
        buffer \<leftarrow> sfu_write_be16 buffer 2 2;
        buffer \<leftarrow> sfu_write_be32 buffer 4 sender_ssrc;
        buffer \<leftarrow> sfu_write_be32 buffer 8 media_ssrc;
        Some (Accept (buffer, 12))
      })"

definition sfu_rtcp_build_fir :: "u32 \<Rightarrow> u32 \<Rightarrow> u8 \<Rightarrow> bytes \<Rightarrow> nat \<Rightarrow> ((bytes \<times> nat) ret \<times> u8) option" where
  "sfu_rtcp_build_fir sender_ssrc media_ssrc fir_seq buffer cap =
     (if cap < 20 then Some (Reject, fir_seq)
      else do {
        buffer \<leftarrow> wr buffer 0 0x84;
        buffer \<leftarrow> wr buffer 1 206;
        buffer \<leftarrow> sfu_write_be16 buffer 2 4;
        buffer \<leftarrow> sfu_write_be32 buffer 4 sender_ssrc;
        buffer \<leftarrow> sfu_write_be32 buffer 8 media_ssrc;
        buffer \<leftarrow> sfu_write_be32 buffer 12 media_ssrc;
        buffer \<leftarrow> wr buffer 16 fir_seq;
        buffer \<leftarrow> wr buffer 17 0;
        buffer \<leftarrow> wr buffer 18 0;
        buffer \<leftarrow> wr buffer 19 0;
        Some (Accept (buffer, 20), fir_seq + 1)
      })"

text \<open>The exponent and the mantissa of a bitrate: the loop of \<^verbatim>\<open>sfu_rtcp_build_remb\<close>.\<close>

function remb_scale :: "u64 \<Rightarrow> nat \<Rightarrow> u64 \<times> nat" where
  "remb_scale mantissa exponent =
     (if mantissa > 0x3FFFF \<and> exponent < 63 then remb_scale (drop_bit 1 mantissa) (exponent + 1)
      else (mantissa, exponent))"
  by auto

termination
  by (relation "measure (\<lambda>(mantissa, exponent). 63 - exponent)") auto

declare remb_scale.simps [simp del]

fun write_ssrcs :: "bytes \<Rightarrow> nat \<Rightarrow> u32 list \<Rightarrow> bytes option" where
  "write_ssrcs buffer off [] = Some buffer"
| "write_ssrcs buffer off (s # ss) = do { buffer \<leftarrow> sfu_write_be32 buffer off s; write_ssrcs buffer (off + 4) ss }"

definition sfu_rtcp_build_remb :: "u32 \<Rightarrow> u64 \<Rightarrow> u32 list \<Rightarrow> u8 \<Rightarrow> bytes \<Rightarrow> nat \<Rightarrow> (bytes \<times> nat) ret option" where
  "sfu_rtcp_build_remb sender_ssrc bitrate_bps media_ssrcs media_ssrc_count buffer cap =
     (if media_ssrc_count = 0 then Some Reject
      else
        let packet_len = 20 + unat media_ssrc_count * 4
        in if packet_len > cap then Some Reject
           else if length media_ssrcs < unat media_ssrc_count then None
           else do {
             let (mantissa, exponent) = remb_scale bitrate_bps 0;
             let mantissa = (if mantissa > 0x3FFFF then 0x3FFFF else mantissa);
             buffer \<leftarrow> wr buffer 0 0x8F;
             buffer \<leftarrow> wr buffer 1 206;
             buffer \<leftarrow> sfu_write_be16 buffer 2 (of_nat (packet_len div 4 - 1));
             buffer \<leftarrow> sfu_write_be32 buffer 4 sender_ssrc;
             buffer \<leftarrow> mem_set buffer 8 4;
             buffer \<leftarrow> wr_bytes buffer 12 [82, 69, 77, 66];
             buffer \<leftarrow> wr buffer 16 media_ssrc_count;
             let encoded = (push_bit 18 (of_nat exponent) OR ucast mantissa :: u32);
             buffer \<leftarrow> wr buffer 17 (ucast (drop_bit 16 encoded));
             buffer \<leftarrow> wr buffer 18 (ucast (drop_bit 8 encoded));
             buffer \<leftarrow> wr buffer 19 (ucast encoded);
             buffer \<leftarrow> write_ssrcs buffer 20 (take (unat media_ssrc_count) media_ssrcs);
             Some (Accept (buffer, packet_len))
           })"

section \<open>Iterating over a compound packet\<close>

text \<open>A caller's loop over the members, cut off after \<open>n\<close> calls.\<close>

fun compound_walk ::
    "nat \<Rightarrow> bytes \<Rightarrow> sfu_rtcp_compound_iter \<Rightarrow> (sfu_rtcp_member_view list \<times> sfu_rtcp_compound_result) option" where
  "compound_walk 0 packet iter = None"
| "compound_walk (Suc n) packet iter = do {
     (iter, view, res) \<leftarrow> sfu_rtcp_compound_iter_next packet iter member_view_zero;
     case res of
       SFU_RTCP_COMPOUND_ITEM \<Rightarrow> do {
         (views, res) \<leftarrow> compound_walk n packet iter;
         Some (view # views, res)
       }
     | _ \<Rightarrow> Some ([], res)
   }"

definition member_in :: "nat \<Rightarrow> nat \<Rightarrow> sfu_rtcp_member_view \<Rightarrow> bool" where
  "member_in lo hi v \<longleftrightarrow> lo \<le> mv_member v \<and> 8 \<le> mv_member_len v \<and> mv_member v + mv_member_len v \<le> hi \<and>
     mv_body v = mv_member v + 8 \<and> mv_body_len v + 8 = mv_member_len v"

definition iter_at :: "bytes \<Rightarrow> nat \<Rightarrow> sfu_rtcp_compound_iter" where
  "iter_at packet off = \<lparr>it_next = off, it_remaining = length packet - off, it_malformed = False\<rparr>"

definition next_post :: "bytes \<Rightarrow> nat \<Rightarrow> sfu_rtcp_compound_iter \<times> sfu_rtcp_member_view \<times> sfu_rtcp_compound_result \<Rightarrow> bool" where
  "next_post packet off = (\<lambda>(iter, view, res).
     res = SFU_RTCP_COMPOUND_ITEM \<longrightarrow> (\<exists>off'. off + 8 \<le> off' \<and> off' \<le> length packet \<and> iter = iter_at packet off' \<and>
       member_in off off' view))"

lemma next_post_malformed [simp]: "next_post packet off (malformed iter view)"
  by (simp add: next_post_def malformed_def)

lemma iter_next_ok:
  assumes "off \<le> length packet"
  shows "ok (sfu_rtcp_compound_iter_next packet (iter_at packet off) view) (next_post packet off)"
proof (cases "length packet - off < 4")
  case True
  then show ?thesis
    by (auto simp: sfu_rtcp_compound_iter_next_def iter_at_def ok_simps next_post_def malformed_def)
next
  case False
  define w where "w = rtcp_member_bytes (be16 (packet ! (off + 2)) (packet ! (off + 3)))"
  define r where "r = length packet - off"
  have len: "length packet = off + r" "4 \<le> r"
    using False assms by (simp_all add: r_def)
  have item: "next_post packet off (\<lparr>it_next = off + w, it_remaining = r - w, it_malformed = False\<rparr>,
      \<lparr>mv_member = off, mv_member_len = l, mv_fmt_count = a, mv_pt = b, mv_sender_ssrc = c, mv_body = off + 8,
        mv_body_len = bl\<rparr>, SFU_RTCP_COMPOUND_ITEM)" if "8 \<le> w" "w \<le> r" "l \<le> w" "bl + 8 = l" for l bl a b c
    unfolding next_post_def prod.case
    by (rule impI, rule exI [of _ "off + w"]) (use that len in \<open>simp add: iter_at_def member_in_def\<close>)
  show ?thesis
    using len(2)
    by (auto simp: sfu_rtcp_compound_iter_next_def iter_at_def ok_simps Let_def w_def [symmetric] len(1) not_less
        intro!: item)
qed

lemma compound_walk_ok:
  "off \<le> length packet \<Longrightarrow> (length packet - off) div 8 < n \<Longrightarrow>
   ok (compound_walk n packet (iter_at packet off)) (\<lambda>(views, res). res \<noteq> SFU_RTCP_COMPOUND_ITEM \<and>
     list_all (member_in off (length packet)) views \<and>
     sorted_wrt (\<lambda>a b. mv_member a + mv_member_len a \<le> mv_member b) views)"
proof (induction n arbitrary: off)
  case (Suc n)
  show ?case
    unfolding compound_walk.simps
  proof (rule ok_bindI [OF iter_next_ok [OF Suc.prems(1)]], goal_cases)
    case (1 a)
    obtain iter view res where a: "a = (iter, view, res)"
      by (rule prod_cases3)
    show ?case
    proof (cases "res = SFU_RTCP_COMPOUND_ITEM")
      case False
      then show ?thesis
        by (cases res) (auto simp: a ok_simps)
    next
      case True
      then obtain off' where off': "off + 8 \<le> off'" "off' \<le> length packet" "iter = iter_at packet off'" "member_in off off' view"
        using 1 by (auto simp: a next_post_def)
      have "(length packet - off') div 8 < n"
        using Suc.prems(2) off'(1,2) by linarith
      from Suc.IH [OF off'(2) this] show ?thesis
      proof (rule okE, goal_cases)
        case (1 b)
        obtain views res' where b: "b = (views, res')"
          by (cases b)
        have "list_all (member_in off (length packet)) views" "member_in off (length packet) view"
          "\<forall>v \<in> set views. mv_member view + mv_member_len view \<le> mv_member v"
          using 1(2) off' by (auto simp: b list_all_iff member_in_def)
        then show ?case
          using 1 off'(3) by (simp add: a b True ok_simps)
      qed
    qed
  qed
qed simp

section \<open>Encoding a bitrate\<close>

lemma remb_scale_spec:
  "remb_scale m e = (m', e') \<Longrightarrow> e \<le> 63 \<Longrightarrow> unat m < 2 ^ (81 - e) \<Longrightarrow>
   e \<le> e' \<and> unat m' = unat m div 2 ^ (e' - e) \<and> unat m' < 2 ^ 18 \<and> (e < e' \<longrightarrow> 2 ^ 17 \<le> unat m')"
proof (induction m e arbitrary: m' e' rule: remb_scale.induct)
  case (1 m e)
  show ?case
  proof (cases "m > 0x3FFFF \<and> e < 63")
    case True
    have half: "unat (drop_bit 1 m) = unat m div 2"
      by (simp add: unat_drop_bit)
    have big: "262144 \<le> unat m"
      using True by (simp add: word_less_nat_alt)
    have "unat m < 2 * 2 ^ (81 - (e + 1))"
    proof -
      have "81 - e = Suc (81 - (e + 1))"
        using True by arith
      then show ?thesis
        using 1(4) by simp
    qed
    then have "unat (drop_bit 1 m) < 2 ^ (81 - (e + 1))"
      unfolding half by linarith
    moreover have "remb_scale (drop_bit 1 m) (e + 1) = (m', e')"
      using 1(2) True by (simp add: remb_scale.simps [of m])
    ultimately have IH: "e + 1 \<le> e'" "unat m' = unat m div 2 div 2 ^ (e' - (e + 1))" "unat m' < 2 ^ 18"
        "e + 1 < e' \<longrightarrow> 2 ^ 17 \<le> unat m'"
      using 1(1) [OF True] True half by auto
    have "e' - e = Suc (e' - (e + 1))"
      using IH(1) by simp
    then have "unat m' = unat m div 2 ^ (e' - e)"
      using IH(2) by (simp add: div_mult2_eq)
    moreover have "2 ^ 17 \<le> unat m'" if "e' = e + 1"
      using IH(2) big that by simp
    ultimately show ?thesis
      using IH by (cases "e' = e + 1") auto
  next
    case False
    then have "m' = m" "e' = e"
      using 1(2) by (auto simp: remb_scale.simps [of m])
    moreover have "unat m < 2 ^ 18"
      using False 1(3,4) by (auto simp: word_less_nat_alt not_less)
    ultimately show ?thesis
      by simp
  qed
qed

lemma remb_scale_value:
  assumes "remb_scale bps 0 = (m, e)"
  shows "unat m < 2 ^ 18" "e < 64" "unat m * 2 ^ e \<le> unat bps" "(unat bps - unat m * 2 ^ e) * 2 ^ 17 \<le> unat bps"
proof -
  have u64: "unat bps < 2 ^ 64"
    using unsigned_less [of bps] by simp
  have spec: "unat m = unat bps div 2 ^ e" "unat m < 2 ^ 18" "0 < e \<longrightarrow> 2 ^ 17 \<le> unat m"
    using remb_scale_spec [OF assms] u64 by auto
  show "unat m < 2 ^ 18" "unat m * 2 ^ e \<le> unat bps"
    using spec by simp_all
  have rest: "unat bps - unat m * 2 ^ e = unat bps mod 2 ^ e"
    using spec(1) by (simp add: minus_div_mult_eq_mod)
  have low: "2 ^ 17 * 2 ^ e \<le> unat bps" if "0 < e"
  proof -
    have "2 ^ 17 * 2 ^ e \<le> unat m * 2 ^ e"
      using spec(3) that by (intro mult_right_mono) simp_all
    also have "\<dots> \<le> unat bps"
      using spec(1) by simp
    finally show ?thesis .
  qed
  show "e < 64"
  proof (rule ccontr)
    assume "\<not> e < 64"
    then have "(2 :: nat) ^ 64 \<le> 2 ^ e"
      by (intro power_increasing) simp_all
    then show False
      using low \<open>\<not> e < 64\<close> u64 by simp
  qed
  show "(unat bps - unat m * 2 ^ e) * 2 ^ 17 \<le> unat bps"
  proof (cases "e = 0")
    case False
    have "unat bps mod 2 ^ e * 2 ^ 17 \<le> 2 ^ e * 2 ^ 17"
      by (intro mult_right_mono less_imp_le) simp_all
    also have "\<dots> = 2 ^ 17 * 2 ^ e"
      by (rule mult.commute)
    finally show ?thesis
      using low False unfolding rest by linarith
  qed (use rest in simp)
qed

text \<open>The encoded value as a receiver decodes it.\<close>

definition remb_decode :: "bytes \<Rightarrow> nat" where
  "remb_decode b = (let enc = be24 (b ! 17) (b ! 18) (b ! 19) in unat (take_bit 18 enc) * 2 ^ unat (drop_bit 18 enc))"

lemma word_high_bits: "unat x < 2 ^ k \<Longrightarrow> k \<le> n \<Longrightarrow> \<not> bit x n" for x :: "'a :: len word"
  using take_bit_word_self [of x k] by (metis bit_take_bit_iff not_le)

lemma remb_encoded:
  fixes m :: u64 and e :: nat
  assumes "unat m < 2 ^ 18" "e < 64"
  defines "enc \<equiv> push_bit 18 (of_nat e) OR ucast m :: u32"
  shows "be24 (ucast (drop_bit 16 enc)) (ucast (drop_bit 8 enc)) (ucast enc) = enc"
    "unat (take_bit 18 enc) = unat m" "unat (drop_bit 18 enc) = e"
proof -
  have e: "unat (of_nat e :: u32) = e"
    using assms(2) by (simp add: unat_of_nat_less)
  have e_bits: "\<not> bit (of_nat e :: u32) n" if "6 \<le> n" for n
    using word_high_bits [of "of_nat e :: u32" 6 n] e assms(2) that by simp
  have m_bits: "\<not> bit m n" if "18 \<le> n" for n
    using word_high_bits [OF assms(1) that] .
  have enc_bits: "\<not> bit enc n" if "24 \<le> n" for n
    using that e_bits [of "n - 18"] m_bits [of n] by (auto simp: enc_def bit_simps)
  show "be24 (ucast (drop_bit 16 enc)) (ucast (drop_bit 8 enc)) (ucast enc) = enc"
  proof (rule bit_word_eqI)
    fix n
    assume "n < LENGTH(32)"
    consider "n < 8" | "8 \<le> n" "n < 16" | "16 \<le> n" "n < 24" | "24 \<le> n"
      by linarith
    then show "bit (be24 (ucast (drop_bit 16 enc)) (ucast (drop_bit 8 enc)) (ucast enc)) n = bit enc n"
      using enc_bits [of n] by cases (auto simp: be24_def bit_simps)
  qed
  have "take_bit 18 enc = ucast m"
    by (rule bit_word_eqI) (use m_bits in \<open>auto simp: enc_def bit_simps\<close>)
  then show "unat (take_bit 18 enc) = unat m"
    using assms(1) by (simp add: unsigned_ucast_eq take_bit_nat_eq_self)
  have "drop_bit 18 enc = of_nat e"
  proof (rule bit_word_eqI)
    fix n
    assume "n < LENGTH(32)"
    then show "bit (drop_bit 18 enc) n = bit (of_nat e :: u32) n"
      using e_bits [of n] m_bits [of "18 + n"] by (cases "n < 6") (auto simp: enc_def bit_simps)
  qed
  then show "unat (drop_bit 18 enc) = e"
    using e by simp
qed

lemma write_ssrcs_ok:
  "off + 4 * length ss \<le> length b \<Longrightarrow>
   ok (write_ssrcs b off ss) (\<lambda>b'. length b' = length b \<and> (\<forall>i < off. b' ! i = b ! i))"
proof (induction ss arbitrary: b off)
  case (Cons s ss)
  define b1 where "b1 = the (sfu_write_be32 b off s)"
  have b1: "sfu_write_be32 b off s = Some b1" "length b1 = length b" "\<forall>i < off. b1 ! i = b ! i"
    using Cons.prems by (auto simp: b1_def)
  have "ok (write_ssrcs b1 (off + 4) ss) (\<lambda>b'. length b' = length b1 \<and> (\<forall>i < off + 4. b' ! i = b1 ! i))"
    by (rule Cons.IH) (use Cons.prems b1 in simp)
  then show ?case
    by (auto simp: b1(1) elim!: ok_mono) (use b1 in auto)
qed (simp add: ok_simps)

section \<open>Built packets\<close>

lemma build_pli_ok:
  assumes "12 \<le> cap" "cap \<le> length buffer"
  shows "ok (sfu_rtcp_build_pli s m buffer cap) (\<lambda>r. \<exists>b. r = Accept (b, 12) \<and> length b = length buffer \<and>
    b ! 0 = 0x81 \<and> b ! 1 = 206 \<and> b ! 2 = 0 \<and> b ! 3 = 2 \<and>
    be32 (b ! 4) (b ! 5) (b ! 6) (b ! 7) = s \<and> be32 (b ! 8) (b ! 9) (b ! 10) (b ! 11) = m)"
proof -
  have "buffer \<noteq> []"
    using assms by auto
  then show ?thesis
    using assms by (auto simp: sfu_rtcp_build_pli_def ok_simps nth_list_update)
qed

lemma build_fir_ok:
  assumes "20 \<le> cap" "cap \<le> length buffer"
  shows "ok (sfu_rtcp_build_fir s m seq buffer cap) (\<lambda>(r, seq'). seq' = seq + 1 \<and> (\<exists>b. r = Accept (b, 20) \<and> length b = length buffer \<and>
    b ! 0 = 0x84 \<and> b ! 1 = 206 \<and> b ! 2 = 0 \<and> b ! 3 = 4 \<and>
    be32 (b ! 4) (b ! 5) (b ! 6) (b ! 7) = s \<and> be32 (b ! 8) (b ! 9) (b ! 10) (b ! 11) = m \<and>
    be32 (b ! 12) (b ! 13) (b ! 14) (b ! 15) = m \<and> b ! 16 = seq \<and> b ! 17 = 0 \<and> b ! 18 = 0 \<and> b ! 19 = 0))"
proof -
  have "buffer \<noteq> []"
    using assms by auto
  then show ?thesis
    using assms by (auto simp: sfu_rtcp_build_fir_def ok_simps nth_list_update)
qed

lemma first_member:
  assumes "8 \<le> n" "n \<le> length b" "drop_bit 6 (b ! 0) = 2" "b ! 0 AND 0x20 = 0" "rtcp_member_bytes (be16 (b ! 2) (b ! 3)) = n"
  shows "sfu_rtcp_compound_iter_next b (sfu_rtcp_compound_iter_init n) view =
    Some (\<lparr>it_next = n, it_remaining = 0, it_malformed = False\<rparr>,
      \<lparr>mv_member = 0, mv_member_len = n, mv_fmt_count = b ! 0 AND 0x1f, mv_pt = b ! 1,
       mv_sender_ssrc = be32 (b ! 4) (b ! 5) (b ! 6) (b ! 7), mv_body = 8, mv_body_len = n - 8\<rparr>, SFU_RTCP_COMPOUND_ITEM)"
proof -
  have "rd b 0 = Some (b ! 0)" "rd b 1 = Some (b ! 1)" "sfu_read_be16 b 2 = Some (be16 (b ! 2) (b ! 3))"
      "sfu_read_be32 b 4 = Some (be32 (b ! 4) (b ! 5) (b ! 6) (b ! 7))"
    using assms(1,2) by (auto simp: rd_def)
  then show ?thesis
    using assms by (simp add: sfu_rtcp_compound_iter_next_def sfu_rtcp_compound_iter_init_def)
qed

section \<open>Properties\<close>

text \<open>Property C7.  Walking over any received compound packet ends, after at most one call more than
  the packet has 8-byte units, and reads only bytes of the packet.  The members it yields lie inside
  the packet, one after the other, each with its sender SSRC and a body that stops before the
  padding.\<close>

theorem rtcp_compound_safe:
  "\<exists>views res. compound_walk (length packet div 8 + 1) packet (sfu_rtcp_compound_iter_init (length packet)) =
     Some (views, res) \<and> res \<noteq> SFU_RTCP_COMPOUND_ITEM \<and> list_all (member_in 0 (length packet)) views \<and>
     sorted_wrt (\<lambda>a b. mv_member a + mv_member_len a \<le> mv_member b) views"
proof -
  have "sfu_rtcp_compound_iter_init (length packet) = iter_at packet 0"
    by (simp add: sfu_rtcp_compound_iter_init_def iter_at_def)
  then show ?thesis
    using compound_walk_ok [of 0 packet "length packet div 8 + 1"] by (auto simp: ok_def)
qed

text \<open>Property C22.  The keyframe requests the SFU builds are the ones it parses: the first member of a
  built PLI or FIR packet parses to the same SSRCs, the FIR entry to the target and the command
  sequence number, and the sequence number advances by one, wrapping at 256.\<close>

theorem rtcp_keyframe_roundtrip:
  assumes "20 \<le> cap" "cap \<le> length buffer"
  shows "(\<exists>b v it. sfu_rtcp_build_pli s m buffer cap = Some (Accept (b, 12)) \<and>
      sfu_rtcp_compound_iter_next b (sfu_rtcp_compound_iter_init 12) member_view_zero = Some (it, v, SFU_RTCP_COMPOUND_ITEM) \<and>
      it_remaining it = 0 \<and>
      sfu_rtcp_parse_pli b v = Some (Accept \<lparr>pli_sender_ssrc = s, pli_media_ssrc = m\<rparr>)) \<and>
    (\<exists>b v it f. sfu_rtcp_build_fir s m seq buffer cap = Some (Accept (b, 20), seq + 1) \<and>
      sfu_rtcp_compound_iter_next b (sfu_rtcp_compound_iter_init 20) member_view_zero = Some (it, v, SFU_RTCP_COMPOUND_ITEM) \<and>
      it_remaining it = 0 \<and> sfu_rtcp_parse_fir b v = Some (Accept f) \<and>
      fir_sender_ssrc f = s \<and> fir_media_ssrc f = m \<and> fir_entry_count f = 1 \<and>
      sfu_rtcp_fir_entry_at b f 0 = Some (Accept \<lparr>fe_target_ssrc = m, fe_sequence_number = seq\<rparr>))"
proof (rule conjI)
  obtain b where b: "sfu_rtcp_build_pli s m buffer cap = Some (Accept (b, 12))" "length b = length buffer"
      "b ! 0 = 0x81" "b ! 1 = 206" "b ! 2 = 0" "b ! 3 = 2"
      "be32 (b ! 4) (b ! 5) (b ! 6) (b ! 7) = s" "be32 (b ! 8) (b ! 9) (b ! 10) (b ! 11) = m"
    using build_pli_ok [of cap buffer s m] assms by (auto simp: ok_def)
  have "sfu_read_be32 b 8 = Some m"
    using assms b(2,8) by simp
  then show "\<exists>b v it. sfu_rtcp_build_pli s m buffer cap = Some (Accept (b, 12)) \<and>
      sfu_rtcp_compound_iter_next b (sfu_rtcp_compound_iter_init 12) member_view_zero = Some (it, v, SFU_RTCP_COMPOUND_ITEM) \<and>
      it_remaining it = 0 \<and> sfu_rtcp_parse_pli b v = Some (Accept \<lparr>pli_sender_ssrc = s, pli_media_ssrc = m\<rparr>)"
    using first_member [of 12 b] assms b
    by (simp add: rtcp_member_bytes_def unat_be16 sfu_rtcp_parse_pli_def)
next
  obtain b where b: "sfu_rtcp_build_fir s m seq buffer cap = Some (Accept (b, 20), seq + 1)" "length b = length buffer"
      "b ! 0 = 0x84" "b ! 1 = 206" "b ! 2 = 0" "b ! 3 = 4"
      "be32 (b ! 4) (b ! 5) (b ! 6) (b ! 7) = s" "be32 (b ! 8) (b ! 9) (b ! 10) (b ! 11) = m"
      "be32 (b ! 12) (b ! 13) (b ! 14) (b ! 15) = m" "b ! 16 = seq" "b ! 17 = 0" "b ! 18 = 0" "b ! 19 = 0"
    using build_fir_ok [OF assms, of s m seq] by (auto simp: ok_def)
  have "sfu_read_be32 b 8 = Some m" "sfu_read_be32 b 12 = Some m" "rd b 16 = Some seq" "fir_entries_ok b 12 1 = Some True"
    using assms b by (simp_all add: One_nat_def)
  then show "\<exists>b v it f. sfu_rtcp_build_fir s m seq buffer cap = Some (Accept (b, 20), seq + 1) \<and>
      sfu_rtcp_compound_iter_next b (sfu_rtcp_compound_iter_init 20) member_view_zero = Some (it, v, SFU_RTCP_COMPOUND_ITEM) \<and>
      it_remaining it = 0 \<and> sfu_rtcp_parse_fir b v = Some (Accept f) \<and>
      fir_sender_ssrc f = s \<and> fir_media_ssrc f = m \<and> fir_entry_count f = 1 \<and>
      sfu_rtcp_fir_entry_at b f 0 = Some (Accept \<lparr>fe_target_ssrc = m, fe_sequence_number = seq\<rparr>)"
    using first_member [of 20 b] assms b
    by (simp add: rtcp_member_bytes_def unat_be16 sfu_rtcp_parse_fir_def sfu_rtcp_fir_entry_at_def)
qed

text \<open>Property C23.  A receiver decodes the bitrate of a built REMB packet to at most the requested one,
  and it is short of it by at most the fraction \<open>1 / 2 ^ 17\<close>.\<close>

theorem rtcp_remb_accurate:
  assumes "0 < count" "unat count \<le> length ssrcs" "20 + unat count * 4 \<le> cap" "cap \<le> length buffer"
  shows "\<exists>b. sfu_rtcp_build_remb s bps ssrcs count buffer cap = Some (Accept (b, 20 + unat count * 4)) \<and>
    remb_decode b \<le> unat bps \<and> (unat bps - remb_decode b) * 2 ^ 17 \<le> unat bps"
proof -
  obtain m e where scale: "remb_scale bps 0 = (m, e)"
    by (cases "remb_scale bps 0")
  note val = remb_scale_value [OF scale]
  define enc where "enc = (push_bit 18 (of_nat e) OR ucast m :: u32)"
  have m: "\<not> m > 0x3FFFF"
    using val(1) by (simp add: word_less_nat_alt)
  have "ok (sfu_rtcp_build_remb s bps ssrcs count buffer cap) (\<lambda>r. \<exists>b. r = Accept (b, 20 + unat count * 4) \<and>
      b ! 17 = ucast (drop_bit 16 enc) \<and> b ! 18 = ucast (drop_bit 8 enc) \<and> b ! 19 = ucast enc)"
  proof -
    define ss where "ss = take (unat count) ssrcs"
    have ss: "20 + 4 * length ss \<le> length buffer" "\<not> length ssrcs < unat count"
      using assms by (simp_all add: ss_def)
    have "buffer \<noteq> []"
      using ss(1) by auto
    have fin: "ok (write_ssrcs b 20 ss) (\<lambda>b'. b' ! 17 = b ! 17 \<and> b' ! 18 = b ! 18 \<and> b' ! 19 = b ! 19)"
      if "length b = length buffer" for b
      by (rule ok_mono [OF write_ssrcs_ok]) (use ss that in auto)
    show ?thesis
      using assms ss m \<open>buffer \<noteq> []\<close>
      by (simp add: sfu_rtcp_build_remb_def ok_simps Let_def scale ss_def [symmetric] enc_def [symmetric] word_gt_0)
        (auto intro!: ok_mono [OF fin] simp: nth_list_update enc_def)
  qed
  then obtain b where b: "sfu_rtcp_build_remb s bps ssrcs count buffer cap = Some (Accept (b, 20 + unat count * 4))"
      "b ! 17 = ucast (drop_bit 16 enc)" "b ! 18 = ucast (drop_bit 8 enc)" "b ! 19 = ucast enc"
    by (auto simp: ok_def)
  have "remb_decode b = unat m * 2 ^ e"
    using remb_encoded [OF val(1,2)] b by (simp add: remb_decode_def enc_def)
  then show ?thesis
    using b(1) val(3,4) by simp
qed

section \<open>Witnesses\<close>

theorem rtcp_keyframe_roundtrip_witness:
  "\<exists>b v it. sfu_rtcp_build_pli 0x11223344 0x55667788 (replicate 20 0) 20 = Some (Accept (b, 12)) \<and>
      sfu_rtcp_compound_iter_next b (sfu_rtcp_compound_iter_init 12) member_view_zero = Some (it, v, SFU_RTCP_COMPOUND_ITEM) \<and>
      sfu_rtcp_parse_pli b v = Some (Accept \<lparr>pli_sender_ssrc = 0x11223344, pli_media_ssrc = 0x55667788\<rparr>)"
proof -
  have "20 \<le> length (replicate 20 (0 :: u8))"
    by simp
  from rtcp_keyframe_roundtrip [OF order_refl this, where s = "0x11223344" and m = "0x55667788"] show ?thesis
    by blast
qed

theorem rtcp_remb_accurate_witness:
  "\<exists>b. sfu_rtcp_build_remb 1 2500000 [5, 6] 2 (replicate 32 0) 32 = Some (Accept (b, 28)) \<and>
     remb_decode b \<le> 2500000 \<and> (2500000 - remb_decode b) * 2 ^ 17 \<le> 2500000"
proof -
  have "0 < (2 :: u8)" "unat (2 :: u8) \<le> length [5, 6 :: u32]" "20 + unat (2 :: u8) * 4 \<le> 32"
      "32 \<le> length (replicate 32 (0 :: u8))"
    by simp_all
  from rtcp_remb_accurate [OF this, where s = 1 and bps = 2500000] show ?thesis
    by simp
qed

end
