(* ===== verification/Rtp_Packet.thy ===== *)
theory Rtp_Packet
  imports Netbytes
begin

text \<open>
  RTP packets (RFC 3550): \<^verbatim>\<open>src/src/rtp/rtp_packet.c\<close> and its header.  The parser
  returns offsets and lengths into the packet instead of pointers: the C fields
  \<^verbatim>\<open>extension_data\<close> and \<^verbatim>\<open>payload\<close> are \<open>data + rp_ext_off\<close> and
  \<open>data + rp_header_len\<close>.
\<close>

section \<open>The packet view and its parser\<close>

record sfu_rtp_packet =
  rp_version :: u8
  rp_padding :: bool
  rp_extension :: bool
  rp_csrc_count :: u8
  rp_marker :: bool
  rp_payload_type :: u8
  rp_sequence_number :: u16
  rp_timestamp :: u32
  rp_ssrc :: u32
  rp_extension_profile :: u16
  rp_extension_off :: nat
  rp_extension_length :: nat
  rp_header_len :: nat
  rp_payload_len :: nat

abbreviation RTP_FIXED_HEADER_LEN :: nat where
  "RTP_FIXED_HEADER_LEN \<equiv> 12"

text \<open>The extension block of \<^verbatim>\<open>sfu_rtp_packet_parse\<close>: profile, offset and length of its
  data, and the header length after it.\<close>

definition rtp_parse_extension ::
    "bytes \<Rightarrow> nat \<Rightarrow> nat \<Rightarrow> (u16 \<times> nat \<times> nat \<times> nat) ret option" where
  "rtp_parse_extension data len header_len =
     (if len - header_len < 4 then Some Reject
      else do {
        profile \<leftarrow> sfu_read_be16 data header_len;
        words \<leftarrow> sfu_read_be16 data (header_len + 2);
        let extension_bytes = unat words * 4;
        let header_len = header_len + 4;
        if extension_bytes > len - header_len then Some Reject
        else Some (Accept (profile, header_len, extension_bytes, header_len + extension_bytes))
      })"

text \<open>The padding count at the end of the packet: the payload length without it.\<close>

definition rtp_parse_padding :: "bytes \<Rightarrow> nat \<Rightarrow> nat \<Rightarrow> nat ret option" where
  "rtp_parse_padding data len payload_span =
     (if payload_span = 0 then Some Reject
      else do {
        padding_count \<leftarrow> rd data (len - 1);
        if padding_count = 0 \<or> unat padding_count > payload_span then Some Reject
        else Some (Accept (payload_span - unat padding_count))
      })"

text \<open>Everything after the fixed header: extension profile, offset and length, header
  length, payload length.\<close>

definition rtp_parse_tail ::
    "bytes \<Rightarrow> nat \<Rightarrow> u8 \<Rightarrow> (u16 \<times> nat \<times> nat \<times> nat \<times> nat) ret option" where
  "rtp_parse_tail data len b0 =
     (let header_len = RTP_FIXED_HEADER_LEN + unat (b0 AND 0x0f) * 4 in
      if header_len > len then Some Reject
      else do {
        ext \<leftarrow> (if b0 AND 0x10 \<noteq> 0 then rtp_parse_extension data len header_len
                else Some (Accept (0, 0, 0, header_len)));
        case ext of
          Reject \<Rightarrow> Some Reject
        | Accept (profile, ext_off, ext_len, header_len) \<Rightarrow> do {
            let payload_span = len - header_len;
            plen \<leftarrow> (if b0 AND 0x20 \<noteq> 0 then rtp_parse_padding data len payload_span
                     else Some (Accept payload_span));
            case plen of
              Reject \<Rightarrow> Some Reject
            | Accept payload_len \<Rightarrow>
                Some (Accept (profile, ext_off, ext_len, header_len, payload_len))
          }
      })"

definition sfu_rtp_packet_parse :: "bytes \<Rightarrow> nat \<Rightarrow> sfu_rtp_packet ret option" where
  "sfu_rtp_packet_parse data len =
     (if len < RTP_FIXED_HEADER_LEN then Some Reject
      else do {
        b0 \<leftarrow> rd data 0;
        if drop_bit 6 b0 \<noteq> 2 then Some Reject
        else do {
          b1 \<leftarrow> rd data 1;
          seq \<leftarrow> sfu_read_be16 data 2;
          ts \<leftarrow> sfu_read_be32 data 4;
          ssrc \<leftarrow> sfu_read_be32 data 8;
          rest \<leftarrow> rtp_parse_tail data len b0;
          case rest of
            Reject \<Rightarrow> Some Reject
          | Accept (profile, ext_off, ext_len, header_len, payload_len) \<Rightarrow>
              Some (Accept \<lparr>rp_version = 2, rp_padding = (b0 AND 0x20 \<noteq> 0),
                rp_extension = (b0 AND 0x10 \<noteq> 0), rp_csrc_count = b0 AND 0x0f,
                rp_marker = (b1 AND 0x80 \<noteq> 0), rp_payload_type = b1 AND 0x7f,
                rp_sequence_number = seq, rp_timestamp = ts, rp_ssrc = ssrc,
                rp_extension_profile = profile, rp_extension_off = ext_off,
                rp_extension_length = ext_len, rp_header_len = header_len,
                rp_payload_len = payload_len\<rparr>)
        }
      })"

definition sfu_rtp_packet_set_pt :: "bytes \<Rightarrow> nat \<Rightarrow> u8 \<Rightarrow> bytes ret option" where
  "sfu_rtp_packet_set_pt data len payload_type =
     (if len < RTP_FIXED_HEADER_LEN \<or> payload_type > 127 then Some Reject
      else do {
        b1 \<leftarrow> rd data 1;
        data \<leftarrow> wr data 1 ((b1 AND 0x80) OR payload_type);
        Some (Accept data)
      })"

definition sfu_rtp_packet_set_marker :: "bytes \<Rightarrow> nat \<Rightarrow> bool \<Rightarrow> bytes ret option" where
  "sfu_rtp_packet_set_marker data len marker =
     (if len < RTP_FIXED_HEADER_LEN then Some Reject
      else do {
        b1 \<leftarrow> rd data 1;
        data \<leftarrow> wr data 1 (if marker then b1 OR 0x80 else b1 AND 0x7f);
        Some (Accept data)
      })"

definition sfu_rtp_packet_set_seq :: "bytes \<Rightarrow> nat \<Rightarrow> u16 \<Rightarrow> bytes ret option" where
  "sfu_rtp_packet_set_seq data len sequence_number =
     (if len < RTP_FIXED_HEADER_LEN then Some Reject
      else do { data \<leftarrow> sfu_write_be16 data 2 sequence_number; Some (Accept data) })"

definition sfu_rtp_packet_set_ssrc :: "bytes \<Rightarrow> nat \<Rightarrow> u32 \<Rightarrow> bytes ret option" where
  "sfu_rtp_packet_set_ssrc data len ssrc =
     (if len < RTP_FIXED_HEADER_LEN then Some Reject
      else do { data \<leftarrow> sfu_write_be32 data 8 ssrc; Some (Accept data) })"

section \<open>Bounds and frame lemmas\<close>

text \<open>What the parser promises of a packet it accepts: the header, the payload and the
  padding lie in the packet, one after the other.\<close>

definition rtp_layout :: "bytes \<Rightarrow> nat \<Rightarrow> sfu_rtp_packet \<Rightarrow> bool" where
  "rtp_layout data len p \<longleftrightarrow>
     12 + 4 * unat (rp_csrc_count p) \<le> rp_header_len p \<and>
     rp_header_len p + rp_payload_len p \<le> len \<and>
     rp_header_len p + rp_payload_len p +
       (if rp_padding p then unat (data ! (len - 1)) else 0) = len \<and>
     (rp_padding p \<longrightarrow> rp_header_len p + rp_payload_len p < len) \<and>
     (rp_extension p \<longrightarrow>
        rp_extension_off p = 16 + 4 * unat (rp_csrc_count p) \<and>
        rp_extension_off p + rp_extension_length p = rp_header_len p) \<and>
     (\<not> rp_extension p \<longrightarrow> rp_header_len p = 12 + 4 * unat (rp_csrc_count p))"

lemma parse_ok:
  assumes "len \<le> length data"
  shows "ok (sfu_rtp_packet_parse data len)
    (\<lambda>r. case r of Reject \<Rightarrow> True | Accept p \<Rightarrow> rtp_layout data len p)"
  using assms
  by (auto simp: sfu_rtp_packet_parse_def rtp_parse_tail_def rtp_parse_extension_def
      rtp_parse_padding_def ok_simps Let_def rtp_layout_def word_neq_0_conv unat_gt_0 not_less)

lemma parse_tail_frame:
  assumes "length data' = length data" "\<And>i. 12 \<le> i \<Longrightarrow> data' ! i = data ! i"
  shows "rtp_parse_tail data' len b0 = rtp_parse_tail data len b0"
proof -
  have ext: "rtp_parse_extension data' len h = rtp_parse_extension data len h" if "12 \<le> h" for h
    using assms that by (simp add: rtp_parse_extension_def sfu_read_be16_def rd_def)
  have pad: "rtp_parse_padding data' len (len - h) = rtp_parse_padding data len (len - h)"
    if "12 \<le> h" for h
    using assms that by (auto simp: rtp_parse_padding_def rd_def)
  have "12 \<le> h'" if "rtp_parse_extension data len h = Some (Accept (a, b, c, h'))" "12 \<le> h"
    for a b c h h'
    using that
    by (auto simp: rtp_parse_extension_def Let_def bind_eq_Some_conv split: if_splits)
  with pad show ?thesis
    by (auto simp: rtp_parse_tail_def Let_def ext split: ret.splits intro!: Option.bind_cong)
qed

text \<open>Rewriting the mutable header fields (bytes 1 to 11) changes exactly those fields of
  the parsed packet.\<close>

lemma parse_update:
  assumes "len \<le> length data" "sfu_rtp_packet_parse data len = Some (Accept p)"
    and "length data' = length data" "data' ! 0 = data ! 0"
    and "\<And>i. 12 \<le> i \<Longrightarrow> data' ! i = data ! i"
  shows "sfu_rtp_packet_parse data' len = Some (Accept (p\<lparr>
    rp_marker := (data' ! 1 AND 0x80 \<noteq> 0), rp_payload_type := data' ! 1 AND 0x7f,
    rp_sequence_number := be16 (data' ! 2) (data' ! 3),
    rp_timestamp := be32 (data' ! 4) (data' ! 5) (data' ! 6) (data' ! 7),
    rp_ssrc := be32 (data' ! 8) (data' ! 9) (data' ! 10) (data' ! 11)\<rparr>))"
proof -
  have "\<not> len < 12"
    using assms(2) by (auto simp: sfu_rtp_packet_parse_def)
  with assms(1,3) have "data \<noteq> []" "data' \<noteq> []"
    by auto
  with \<open>\<not> len < 12\<close> assms(1-4) show ?thesis
    by (cases "rtp_parse_tail data len (data ! 0)")
      (auto simp: sfu_rtp_packet_parse_def parse_tail_frame [OF assms(3,5)]
        split: if_splits ret.splits)
qed

lemma and_mask7: "pt \<le> 127 \<Longrightarrow> pt AND 0x7f = pt" for pt :: u8
  using take_bit_word_self [of pt 7] by (simp add: take_bit_eq_mask mask_eq_exp_minus_1 word_le_nat_alt)

lemma set_pt_bits:
  assumes "pt \<le> (127 :: u8)"
  shows "((b AND 0x80) OR pt) AND 0x7f = pt" "((b AND 0x80) OR pt) AND 0x80 = b AND 0x80"
proof -
  have "pt AND 0x80 = (pt AND 0x7f) AND 0x80"
    using assms by (simp add: and_mask7)
  also have "\<dots> = 0"
    by (simp add: word_bw_assocs)
  finally show "((b AND 0x80) OR pt) AND 0x80 = b AND 0x80"
    by (simp add: word_ao_dist word_bw_assocs)
  show "((b AND 0x80) OR pt) AND 0x7f = pt"
    using assms by (simp add: word_ao_dist word_bw_assocs and_mask7)
qed

lemma set_marker_bits: "(b OR 0x80) AND 0x7f = b AND 0x7f" "(b OR 0x80) AND 0x80 = 0x80" 
   "(b AND 0x7f) AND 0x7f = b AND 0x7f" "(b AND 0x7f) AND 0x80 = 0" for b :: u8
  by (simp_all add: word_ao_dist word_bw_assocs word_ao_absorbs)

lemma parse_fields:
  assumes "len \<le> length data" "sfu_rtp_packet_parse data len = Some (Accept p)"
  shows "12 \<le> len" "drop_bit 6 (data ! 0) = 2" "rp_version p = 2"
    "rp_padding p = (data ! 0 AND 0x20 \<noteq> 0)"
    "rp_extension p = (data ! 0 AND 0x10 \<noteq> 0)"
    "rp_csrc_count p = data ! 0 AND 0x0f"
    "rp_marker p = (data ! 1 AND 0x80 \<noteq> 0)" "rp_payload_type p = data ! 1 AND 0x7f"
    "rp_sequence_number p = be16 (data ! 2) (data ! 3)"
    "rp_timestamp p = be32 (data ! 4) (data ! 5) (data ! 6) (data ! 7)"
    "rp_ssrc p = be32 (data ! 8) (data ! 9) (data ! 10) (data ! 11)"
proof -
  show "12 \<le> len"
    using assms(2) by (auto simp: sfu_rtp_packet_parse_def split: if_splits)
  with assms(1) have "data \<noteq> []"
    by auto
  with \<open>12 \<le> len\<close> assms
  have *: "drop_bit 6 (data ! 0) = 2 \<and> rp_version p = 2 \<and>
    rp_padding p = (data ! 0 AND 0x20 \<noteq> 0) \<and>
    rp_extension p = (data ! 0 AND 0x10 \<noteq> 0) \<and>
    rp_csrc_count p = data ! 0 AND 0x0f \<and>
    rp_marker p = (data ! 1 AND 0x80 \<noteq> 0) \<and> rp_payload_type p = data ! 1 AND 0x7f \<and>
    rp_sequence_number p = be16 (data ! 2) (data ! 3) \<and>
    rp_timestamp p = be32 (data ! 4) (data ! 5) (data ! 6) (data ! 7) \<and>
    rp_ssrc p = be32 (data ! 8) (data ! 9) (data ! 10) (data ! 11)"
    by (cases "rtp_parse_tail data len (data ! 0)")
      (auto simp: sfu_rtp_packet_parse_def split: if_splits ret.splits)
  then show "drop_bit 6 (data ! 0) = 2" "rp_version p = 2"
    "rp_padding p = (data ! 0 AND 0x20 \<noteq> 0)"
    "rp_extension p = (data ! 0 AND 0x10 \<noteq> 0)"
    "rp_csrc_count p = data ! 0 AND 0x0f"
    "rp_marker p = (data ! 1 AND 0x80 \<noteq> 0)" "rp_payload_type p = data ! 1 AND 0x7f"
    "rp_sequence_number p = be16 (data ! 2) (data ! 3)"
    "rp_timestamp p = be32 (data ! 4) (data ! 5) (data ! 6) (data ! 7)"
    "rp_ssrc p = be32 (data ! 8) (data ! 9) (data ! 10) (data ! 11)"
    by blast+
qed

text \<open>The payload bytes of an accepted packet.\<close>

definition rtp_payload :: "bytes \<Rightarrow> sfu_rtp_packet \<Rightarrow> bytes" where
  "rtp_payload data p = take (rp_payload_len p) (drop (rp_header_len p) data)"

lemma parse_AcceptI:
  assumes "12 \<le> len" "len \<le> length data" "drop_bit 6 (data ! 0) = 2"
    and "rtp_parse_tail data len (data ! 0) = Some (Accept (profile, off, n, hl, pl))"
  shows "sfu_rtp_packet_parse data len = Some (Accept
    \<lparr>rp_version = 2, rp_padding = (data ! 0 AND 0x20 \<noteq> 0),
     rp_extension = (data ! 0 AND 0x10 \<noteq> 0), rp_csrc_count = data ! 0 AND 0x0f,
     rp_marker = (data ! 1 AND 0x80 \<noteq> 0), rp_payload_type = data ! 1 AND 0x7f,
     rp_sequence_number = be16 (data ! 2) (data ! 3),
     rp_timestamp = be32 (data ! 4) (data ! 5) (data ! 6) (data ! 7),
     rp_ssrc = be32 (data ! 8) (data ! 9) (data ! 10) (data ! 11),
     rp_extension_profile = profile, rp_extension_off = off, rp_extension_length = n,
     rp_header_len = hl, rp_payload_len = pl\<rparr>)"
proof -
  have "data \<noteq> []"
    using assms(1,2) by auto
  with assms show ?thesis
    by (simp add: sfu_rtp_packet_parse_def)
qed

lemma parse_set_seq:
  assumes "len \<le> length data" and "sfu_rtp_packet_parse data len = Some (Accept p)"
  shows "ok (sfu_rtp_packet_set_seq data len s) (\<lambda>r. \<exists>d. r = Accept d \<and>
    sfu_rtp_packet_parse d len = Some (Accept (p\<lparr>rp_sequence_number := s\<rparr>)))"
proof -
  note f = parse_fields [OF assms]
  let ?d = "data[2 := ucast (drop_bit 8 s), 3 := ucast s]"
  have n: "12 \<le> length data"
    using f(1) assms(1) by simp
  have "sfu_rtp_packet_parse ?d len = Some (Accept (p\<lparr>rp_sequence_number := s\<rparr>))"
    using parse_update [OF assms, of ?d] n f by (cases p) simp
  then show ?thesis
    using n f(1) by (simp add: sfu_rtp_packet_set_seq_def ok_simps)
qed

lemma parse_set_ssrc:
  assumes "len \<le> length data" and "sfu_rtp_packet_parse data len = Some (Accept p)"
  shows "ok (sfu_rtp_packet_set_ssrc data len ssrc) (\<lambda>r. \<exists>d. r = Accept d \<and>
    sfu_rtp_packet_parse d len = Some (Accept (p\<lparr>rp_ssrc := ssrc\<rparr>)))"
proof -
  note f = parse_fields [OF assms]
  let ?d = "data[8 := ucast (drop_bit 24 ssrc), 9 := ucast (drop_bit 16 ssrc),
    10 := ucast (drop_bit 8 ssrc), 11 := ucast ssrc]"
  have n: "12 \<le> length data"
    using f(1) assms(1) by simp
  have "sfu_rtp_packet_parse ?d len = Some (Accept (p\<lparr>rp_ssrc := ssrc\<rparr>))"
    using parse_update [OF assms, of ?d] n f by (cases p) simp
  then show ?thesis
    using n f(1) by (simp add: sfu_rtp_packet_set_ssrc_def ok_simps)
qed

lemma parse_set_marker:
  assumes "len \<le> length data" and "sfu_rtp_packet_parse data len = Some (Accept p)"
  shows "ok (sfu_rtp_packet_set_marker data len m) (\<lambda>r. \<exists>d. r = Accept d \<and>
    sfu_rtp_packet_parse d len = Some (Accept (p\<lparr>rp_marker := m\<rparr>)))"
proof -
  note f = parse_fields [OF assms]
  let ?d = "data[1 := (if m then data ! 1 OR 0x80 else data ! 1 AND 0x7f)]"
  have n: "12 \<le> length data"
    using f(1) assms(1) by simp
  have "sfu_rtp_packet_parse ?d len = Some (Accept (p\<lparr>rp_marker := m\<rparr>))"
    using parse_update [OF assms, of ?d] n f by (cases p) (simp add: set_marker_bits)
  then show ?thesis
    using n f(1) by (cases m) (simp_all add: sfu_rtp_packet_set_marker_def ok_simps)
qed

lemma parse_set_pt:
  assumes "len \<le> length data" and "sfu_rtp_packet_parse data len = Some (Accept p)"
    and "pt \<le> 127"
  shows "ok (sfu_rtp_packet_set_pt data len pt) (\<lambda>r. \<exists>d. r = Accept d \<and>
    sfu_rtp_packet_parse d len = Some (Accept (p\<lparr>rp_payload_type := pt\<rparr>)))"
proof -
  note f = parse_fields [OF assms(1,2)]
  let ?d = "data[1 := (data ! 1 AND 0x80) OR pt]"
  have n: "12 \<le> length data"
    using f(1) assms(1) by simp
  have "sfu_rtp_packet_parse ?d len = Some (Accept (p\<lparr>rp_payload_type := pt\<rparr>))"
    using parse_update [OF assms(1,2), of ?d] n f
    by (cases p) (simp add: set_pt_bits [OF assms(3)])
  then show ?thesis
    using n f(1) assms(3) by (simp add: sfu_rtp_packet_set_pt_def ok_simps)
qed

section \<open>Properties\<close>

text \<open>Property C5.  Whatever bytes arrive, the parser reads inside the packet only, and
  the header, payload and padding of a packet it accepts fill the packet exactly.\<close>

theorem rtp_parse_safe:
  assumes "len \<le> length data"
  shows "\<exists>r. sfu_rtp_packet_parse data len = Some r \<and>
    (\<forall>p. r = Accept p \<longrightarrow> rtp_layout data len p)"
  using parse_ok [OF assms] by (auto elim!: okE split: ret.splits)

definition sample_rtp :: bytes where
  "sample_rtp = [0x90, 0xe0, 0x12, 0x34, 0, 0, 0, 7, 0, 0, 0, 9,
     0xbe, 0xde, 0, 1, 0x31, 0xab, 0xcd, 0, 1, 2, 3]"

theorem rtp_parse_safe_witness:
  "\<exists>p. sfu_rtp_packet_parse sample_rtp 23 = Some (Accept p) \<and> rtp_layout sample_rtp 23 p"
proof -
  have len: "23 \<le> length sample_rtp"
    by (simp add: sample_rtp_def)
  have "\<exists>p. sfu_rtp_packet_parse sample_rtp 23 = Some (Accept p)"
    by (simp add: sfu_rtp_packet_parse_def rtp_parse_tail_def rtp_parse_extension_def
        sample_rtp_def be16_def Let_def)
  then show ?thesis
    using rtp_parse_safe [OF len] by auto
qed

text \<open>Property C31.  Rewriting the sequence number, the SSRC, the marker or the payload type
  of a packet the parser accepts gives a packet it accepts, with exactly that field changed.\<close>

theorem rtp_setters_roundtrip:
  assumes "len \<le> length data" and "sfu_rtp_packet_parse data len = Some (Accept p)"
    and "pt \<le> 127"
  shows "ok (sfu_rtp_packet_set_seq data len s) (\<lambda>r. \<exists>d. r = Accept d \<and>
           sfu_rtp_packet_parse d len = Some (Accept (p\<lparr>rp_sequence_number := s\<rparr>))) \<and>
         ok (sfu_rtp_packet_set_ssrc data len ssrc) (\<lambda>r. \<exists>d. r = Accept d \<and>
           sfu_rtp_packet_parse d len = Some (Accept (p\<lparr>rp_ssrc := ssrc\<rparr>))) \<and>
         ok (sfu_rtp_packet_set_marker data len m) (\<lambda>r. \<exists>d. r = Accept d \<and>
           sfu_rtp_packet_parse d len = Some (Accept (p\<lparr>rp_marker := m\<rparr>))) \<and>
         ok (sfu_rtp_packet_set_pt data len pt) (\<lambda>r. \<exists>d. r = Accept d \<and>
           sfu_rtp_packet_parse d len = Some (Accept (p\<lparr>rp_payload_type := pt\<rparr>)))"
  by (intro conjI parse_set_seq parse_set_ssrc parse_set_marker parse_set_pt assms)

theorem rtp_setters_roundtrip_witness:
  "\<exists>p. sfu_rtp_packet_parse sample_rtp 23 = Some (Accept p) \<and>
     ok (sfu_rtp_packet_set_seq sample_rtp 23 5) (\<lambda>r. \<exists>d. r = Accept d \<and>
       sfu_rtp_packet_parse d 23 = Some (Accept (p\<lparr>rp_sequence_number := 5\<rparr>)))"
proof -
  have len: "23 \<le> length sample_rtp"
    by (simp add: sample_rtp_def)
  have "\<exists>p. sfu_rtp_packet_parse sample_rtp 23 = Some (Accept p)"
    by (simp add: sfu_rtp_packet_parse_def rtp_parse_tail_def rtp_parse_extension_def
        sample_rtp_def be16_def Let_def)
  then obtain p where p: "sfu_rtp_packet_parse sample_rtp 23 = Some (Accept p)" ..
  show ?thesis
    using p rtp_setters_roundtrip [OF len p, of 96 5] by simp
qed

end
