(* ===== verification/Rtp_Ext.thy ===== *)
theory Rtp_Ext
  imports Rtp_Packet
begin

text \<open>
  RTP header extensions (RFC 8285): \<^verbatim>\<open>src/src/rtp/rtp_ext.c\<close>.  The walks over the
  elements of a block are recursive functions over the position; the writers return
  the buffer also when they fail, since a failing call may already have written.
\<close>

section \<open>Reading elements\<close>

abbreviation RTP_EXT_ONE_BYTE_PROFILE :: u16 where
  "RTP_EXT_ONE_BYTE_PROFILE \<equiv> 0xBEDE"

abbreviation RTP_EXT_TWO_BYTE_PROFILE :: u16 where
  "RTP_EXT_TWO_BYTE_PROFILE \<equiv> 0x1000"

abbreviation SFU_TWCC_EXT_LEN :: nat where
  "SFU_TWCC_EXT_LEN \<equiv> 2"

text \<open>The element header at \<open>pos\<close> in \<^verbatim>\<open>sfu_rtp_ext_read_mid\<close>: \<open>Accept None\<close> is a padding
  byte, \<open>Accept (Some (id, header_len, data_len))\<close> an element.\<close>

definition read_mid_header ::
    "u16 \<Rightarrow> bytes \<Rightarrow> nat \<Rightarrow> nat \<Rightarrow> (u8 \<times> nat \<times> nat) option ret option" where
  "read_mid_header extension_profile ext ext_len pos =
     (if extension_profile = RTP_EXT_ONE_BYTE_PROFILE then do {
        b \<leftarrow> rd ext pos;
        if b = 0 then Some (Accept None)
        else if drop_bit 4 b = 15 then Some Reject
        else Some (Accept (Some (drop_bit 4 b, 1, unat (b AND 0x0f) + 1)))
      }
      else if extension_profile AND 0xFFF0 = RTP_EXT_TWO_BYTE_PROFILE then do {
        eid \<leftarrow> rd ext pos;
        if eid = 0 then Some (Accept None)
        else if pos + 2 > ext_len then Some Reject
        else do {
          n \<leftarrow> rd ext (pos + 1);
          Some (Accept (Some (eid, 2, unat n)))
        }
      }
      else Some Reject)"

lemma read_mid_header_pos:
  "read_mid_header profile ext n pos = Some (Accept (Some (eid, h, d))) \<Longrightarrow> 0 < h"
  by (auto simp: read_mid_header_def bind_eq_Some_conv split: if_splits)

function read_mid_from ::
    "u16 \<Rightarrow> bytes \<Rightarrow> nat \<Rightarrow> u8 \<Rightarrow> nat \<Rightarrow> nat \<Rightarrow> bytes ret option" where
  "read_mid_from extension_profile ext ext_len ext_id out_cap pos =
     (if pos < ext_len then do {
        header \<leftarrow> read_mid_header extension_profile ext ext_len pos;
        case header of
          Reject \<Rightarrow> Some Reject
        | Accept None \<Rightarrow>
            read_mid_from extension_profile ext ext_len ext_id out_cap (pos + 1)
        | Accept (Some (eid, header_len, data_len)) \<Rightarrow>
            if pos + header_len + data_len > ext_len then Some Reject
            else if eid = ext_id then
              (if data_len = 0 \<or> data_len \<ge> out_cap then Some Reject
               else do { mid \<leftarrow> rd_bytes ext (pos + header_len) data_len; Some (Accept mid) })
            else read_mid_from extension_profile ext ext_len ext_id out_cap
                   (pos + (header_len + data_len))
      }
      else Some Reject)"
  by pat_completeness auto
termination
  by (relation "measure (\<lambda>(_, _, ext_len, _, _, pos). ext_len - pos)")
    (auto dest: read_mid_header_pos)

definition sfu_rtp_ext_read_mid ::
    "u16 \<Rightarrow> bytes \<Rightarrow> nat \<Rightarrow> u8 \<Rightarrow> nat \<Rightarrow> bytes ret option" where
  "sfu_rtp_ext_read_mid extension_profile ext ext_len ext_id out_cap =
     (if out_cap < 2 \<or> ext_id = 0 then Some Reject
      else read_mid_from extension_profile ext ext_len ext_id out_cap 0)"

text \<open>The two loops of \<^verbatim>\<open>sfu_rtp_ext_read_twcc\<close>.\<close>

function read_twcc_one_from :: "bytes \<Rightarrow> nat \<Rightarrow> u8 \<Rightarrow> nat \<Rightarrow> u16 ret option" where
  "read_twcc_one_from ext ext_len ext_id pos =
     (if pos < ext_len then do {
        b \<leftarrow> rd ext pos;
        if b = 0 then read_twcc_one_from ext ext_len ext_id (pos + 1)
        else do {
          let eid = drop_bit 4 b;
          let data_len = unat (b AND 0x0f) + 1;
          if eid = 15 then Some Reject
          else if pos + 1 + data_len > ext_len then Some Reject
          else if eid = ext_id then
            (if data_len < SFU_TWCC_EXT_LEN then Some Reject
             else do { v \<leftarrow> sfu_read_be16 ext (pos + 1); Some (Accept v) })
          else read_twcc_one_from ext ext_len ext_id (pos + (1 + data_len))
        }
      }
      else Some Reject)"
  by pat_completeness auto
termination
  by (relation "measure (\<lambda>(_, ext_len, _, pos). ext_len - pos)") auto

function read_twcc_two_from :: "bytes \<Rightarrow> nat \<Rightarrow> u8 \<Rightarrow> nat \<Rightarrow> u16 ret option" where
  "read_twcc_two_from ext ext_len ext_id pos =
     (if pos < ext_len then do {
        eid \<leftarrow> rd ext pos;
        if eid = 0 then read_twcc_two_from ext ext_len ext_id (pos + 1)
        else if pos + 2 > ext_len then Some Reject
        else do {
          n \<leftarrow> rd ext (pos + 1);
          let data_len = unat n;
          if pos + 2 + data_len > ext_len then Some Reject
          else if eid = ext_id then
            (if data_len < SFU_TWCC_EXT_LEN then Some Reject
             else do { v \<leftarrow> sfu_read_be16 ext (pos + 2); Some (Accept v) })
          else read_twcc_two_from ext ext_len ext_id (pos + (2 + data_len))
        }
      }
      else Some Reject)"
  by pat_completeness auto
termination
  by (relation "measure (\<lambda>(_, ext_len, _, pos). ext_len - pos)") auto

definition sfu_rtp_ext_read_twcc :: "u16 \<Rightarrow> bytes \<Rightarrow> nat \<Rightarrow> u8 \<Rightarrow> u16 ret option" where
  "sfu_rtp_ext_read_twcc extension_profile ext ext_len ext_id =
     (if ext_id = 0 \<or> ext_id > 14 then Some Reject
      else if extension_profile = RTP_EXT_ONE_BYTE_PROFILE
      then read_twcc_one_from ext ext_len ext_id 0
      else if extension_profile AND 0xFFF0 = RTP_EXT_TWO_BYTE_PROFILE
      then read_twcc_two_from ext ext_len ext_id 0
      else Some Reject)"

section \<open>Locating the block and its elements\<close>

definition rtp_csrc_end :: "bytes \<Rightarrow> nat \<Rightarrow> nat option" where
  "rtp_csrc_end data len =
     (if len < RTP_FIXED_HEADER_LEN then Some 0
      else do {
        b0 \<leftarrow> rd data 0;
        if drop_bit 6 b0 \<noteq> 2 then Some 0
        else do {
          let end = RTP_FIXED_HEADER_LEN + unat (b0 AND 0x0f) * 4;
          Some (if end \<le> len then end else 0)
        }
      })"

definition rtp_ext_block :: "bytes \<Rightarrow> nat \<Rightarrow> (nat \<times> nat) ret option" where
  "rtp_ext_block data len = do {
     pos \<leftarrow> rtp_csrc_end data len;
     if pos = 0 then Some Reject
     else do {
       b0 \<leftarrow> rd data 0;
       if b0 AND 0x10 = 0 then Some Reject
       else if len - pos < 4 then Some Reject
       else do {
         words \<leftarrow> sfu_read_be16 data (pos + 2);
         let block_len = unat words * 4;
         if block_len > len - pos - 4 then Some Reject
         else Some (Accept (pos, block_len))
       }
     }
   }"

function one_byte_find_from :: "bytes \<Rightarrow> nat \<Rightarrow> u8 \<Rightarrow> nat \<Rightarrow> (nat \<times> nat) ret option" where
  "one_byte_find_from ext ext_len ext_id pos =
     (if pos < ext_len then do {
        b \<leftarrow> rd ext pos;
        if b = 0 then one_byte_find_from ext ext_len ext_id (pos + 1)
        else do {
          let eid = drop_bit 4 b;
          let data_len = unat (b AND 0x0f) + 1;
          if eid = 15 then Some Reject
          else if pos + 1 + data_len > ext_len then Some Reject
          else if eid = ext_id then Some (Accept (pos, 1 + data_len))
          else one_byte_find_from ext ext_len ext_id (pos + (1 + data_len))
        }
      }
      else Some Reject)"
  by pat_completeness auto
termination
  by (relation "measure (\<lambda>(_, ext_len, _, pos). ext_len - pos)") auto

definition one_byte_find :: "bytes \<Rightarrow> nat \<Rightarrow> u8 \<Rightarrow> (nat \<times> nat) ret option" where
  "one_byte_find ext ext_len ext_id = one_byte_find_from ext ext_len ext_id 0"

function two_byte_find_from :: "bytes \<Rightarrow> nat \<Rightarrow> u8 \<Rightarrow> nat \<Rightarrow> (nat \<times> nat) ret option" where
  "two_byte_find_from ext ext_len ext_id pos =
     (if pos < ext_len then do {
        eid \<leftarrow> rd ext pos;
        if eid = 0 then two_byte_find_from ext ext_len ext_id (pos + 1)
        else if pos + 2 > ext_len then Some Reject
        else do {
          n \<leftarrow> rd ext (pos + 1);
          let data_len = unat n;
          if pos + 2 + data_len > ext_len then Some Reject
          else if eid = ext_id then Some (Accept (pos, 2 + data_len))
          else two_byte_find_from ext ext_len ext_id (pos + (2 + data_len))
        }
      }
      else Some Reject)"
  by pat_completeness auto
termination
  by (relation "measure (\<lambda>(_, ext_len, _, pos). ext_len - pos)") auto

definition two_byte_find :: "bytes \<Rightarrow> nat \<Rightarrow> u8 \<Rightarrow> (nat \<times> nat) ret option" where
  "two_byte_find ext ext_len ext_id = two_byte_find_from ext ext_len ext_id 0"

declare read_mid_from.simps [simp del] read_twcc_one_from.simps [simp del]
  read_twcc_two_from.simps [simp del] one_byte_find_from.simps [simp del]
  two_byte_find_from.simps [simp del]

section \<open>Writing elements\<close>

definition ext_block_grow :: "bytes \<Rightarrow> nat \<Rightarrow> nat \<Rightarrow> nat \<Rightarrow> nat \<Rightarrow> bytes option" where
  "ext_block_grow data len ext_off ext_len new_ext_len = do {
     let payload_off = ext_off + 4 + ext_len;
     let tail = len - payload_off;
     let grow = new_ext_len - ext_len;
     data \<leftarrow> mem_move data (payload_off + grow) payload_off tail;
     data \<leftarrow> mem_set data payload_off grow;
     sfu_write_be16 data (ext_off + 2) (of_nat (new_ext_len div 4))
   }"

text \<open>\<open>(n + 3u) & ~(size_t)3u\<close>\<close>

definition align4 :: "nat \<Rightarrow> nat" where
  "align4 n = (n + 3) div 4 * 4"

text \<open>The common tail of \<^verbatim>\<open>rtp_ext_write_value\<close>: append the element to the block.\<close>

definition ext_append_value ::
    "bytes \<Rightarrow> nat \<Rightarrow> nat \<Rightarrow> nat \<Rightarrow> nat \<Rightarrow> nat \<Rightarrow> u8 \<Rightarrow> bytes \<Rightarrow> (bytes \<times> nat ret) option" where
  "ext_append_value data len cap ext_off ext_len header_len ext_id value = do {
     let value_len = length value;
     let elem_len = header_len + value_len;
     let new_ext_len = align4 (ext_len + elem_len);
     let grow = new_ext_len - ext_len;
     if new_ext_len div 4 > 65535 \<or> len + grow > cap then Some (data, Reject)
     else do {
       let insert_at = ext_off + 4 + ext_len;
       data \<leftarrow> ext_block_grow data len ext_off ext_len new_ext_len;
       data \<leftarrow> (if header_len = 1
         then wr data insert_at (push_bit 4 ext_id OR of_nat (value_len - 1))
         else do {
           data \<leftarrow> wr data insert_at ext_id;
           wr data (insert_at + 1) (of_nat value_len)
         });
       data \<leftarrow> wr_bytes data (insert_at + header_len) value;
       Some (data, Accept (len + grow))
     }
   }"

text \<open>The last branch of \<^verbatim>\<open>rtp_ext_write_value\<close>: a packet without an extension block.\<close>

definition ext_create_value ::
    "bytes \<Rightarrow> nat \<Rightarrow> nat \<Rightarrow> u8 \<Rightarrow> bytes \<Rightarrow> (bytes \<times> nat ret) option" where
  "ext_create_value data len cap ext_id value = do {
     let value_len = length value;
     b0 \<leftarrow> rd data 0;
     if ext_id > 14 \<or> value_len > 16 \<or> b0 AND 0x10 \<noteq> 0 then Some (data, Reject)
     else do {
       csrc_end \<leftarrow> rtp_csrc_end data len;
       let elem_len = 1 + value_len;
       let block_len = align4 elem_len;
       let grow = 4 + block_len;
       if csrc_end = 0 \<or> len + grow > cap then Some (data, Reject)
       else do {
         data \<leftarrow> mem_move data (csrc_end + grow) csrc_end (len - csrc_end);
         b0 \<leftarrow> rd data 0;
         data \<leftarrow> wr data 0 (b0 OR 0x10);
         data \<leftarrow> sfu_write_be16 data csrc_end RTP_EXT_ONE_BYTE_PROFILE;
         data \<leftarrow> sfu_write_be16 data (csrc_end + 2) (of_nat (block_len div 4));
         data \<leftarrow> mem_set data (csrc_end + 4) block_len;
         data \<leftarrow> wr data (csrc_end + 4) (push_bit 4 ext_id OR of_nat (value_len - 1));
         data \<leftarrow> wr_bytes data (csrc_end + 5) value;
         Some (data, Accept (len + grow))
       }
     }
   }"

definition rtp_ext_write_value ::
    "bytes \<Rightarrow> nat \<Rightarrow> nat \<Rightarrow> u8 \<Rightarrow> bytes \<Rightarrow> (bytes \<times> nat ret) option" where
  "rtp_ext_write_value data len cap ext_id value =
     (if ext_id = 0 \<or> value = [] \<or> len < RTP_FIXED_HEADER_LEN \<or> len > cap
      then Some (data, Reject)
      else do {
        let value_len = length value;
        block \<leftarrow> rtp_ext_block data len;
        case block of
          Reject \<Rightarrow> ext_create_value data len cap ext_id value
        | Accept (ext_off, ext_len) \<Rightarrow> do {
            profile \<leftarrow> sfu_read_be16 data ext_off;
            if profile = RTP_EXT_ONE_BYTE_PROFILE then
              (if ext_id > 14 \<or> value_len > 16 then Some (data, Reject)
               else do {
                 found \<leftarrow> one_byte_find (drop (ext_off + 4) data) ext_len ext_id;
                 case found of
                   Accept (elem_off, elem_size) \<Rightarrow>
                     if elem_size = 1 + value_len then do {
                       data \<leftarrow> wr data (ext_off + 4 + elem_off)
                         (push_bit 4 ext_id OR of_nat (value_len - 1));
                       data \<leftarrow> wr_bytes data (ext_off + 4 + elem_off + 1) value;
                       Some (data, Accept len)
                     }
                     else do {
                       data \<leftarrow> mem_set data (ext_off + 4 + elem_off) elem_size;
                       ext_append_value data len cap ext_off ext_len 1 ext_id value
                     }
                 | Reject \<Rightarrow> ext_append_value data len cap ext_off ext_len 1 ext_id value
               })
            else if profile AND 0xFFF0 = RTP_EXT_TWO_BYTE_PROFILE then
              (if value_len > 255 then Some (data, Reject)
               else do {
                 found \<leftarrow> two_byte_find (drop (ext_off + 4) data) ext_len ext_id;
                 case found of
                   Accept (elem_off, elem_size) \<Rightarrow>
                     if elem_size = 2 + value_len then do {
                       data \<leftarrow> wr data (ext_off + 4 + elem_off) ext_id;
                       data \<leftarrow> wr data (ext_off + 4 + elem_off + 1) (of_nat value_len);
                       data \<leftarrow> wr_bytes data (ext_off + 4 + elem_off + 2) value;
                       Some (data, Accept len)
                     }
                     else do {
                       data \<leftarrow> mem_set data (ext_off + 4 + elem_off) elem_size;
                       ext_append_value data len cap ext_off ext_len 2 ext_id value
                     }
                 | Reject \<Rightarrow> ext_append_value data len cap ext_off ext_len 2 ext_id value
               })
            else Some (data, Reject)
          }
      })"

text \<open>The \<^verbatim>\<open>mid\<close> argument is the bytes of the C string before its terminating zero.\<close>

definition sfu_rtp_ext_write_mid ::
    "bytes \<Rightarrow> nat \<Rightarrow> nat \<Rightarrow> u8 \<Rightarrow> bytes \<Rightarrow> (bytes \<times> nat ret) option" where
  "sfu_rtp_ext_write_mid data len cap ext_id mid =
     rtp_ext_write_value data len cap ext_id mid"

text \<open>The three branches of \<^verbatim>\<open>sfu_rtp_ext_write_twcc\<close>.\<close>

definition write_twcc_one ::
    "bytes \<Rightarrow> nat \<Rightarrow> nat \<Rightarrow> u8 \<Rightarrow> u16 \<Rightarrow> nat \<Rightarrow> nat \<Rightarrow> (bytes \<times> nat ret) option" where
  "write_twcc_one data len cap ext_id twcc_seq ext_off ext_len = do {
     found \<leftarrow> one_byte_find (drop (ext_off + 4) data) ext_len ext_id;
     case found of
       Accept (elem_off, elem_size) \<Rightarrow>
         if elem_size \<noteq> 1 + SFU_TWCC_EXT_LEN then Some (data, Reject)
         else do {
           data \<leftarrow> sfu_write_be16 data (ext_off + 4 + elem_off + 1) twcc_seq;
           Some (data, Accept len)
         }
     | Reject \<Rightarrow> do {
         let needed = 1 + SFU_TWCC_EXT_LEN;
         let new_ext_len = align4 (ext_len + needed);
         let grow = new_ext_len - ext_len;
         if new_ext_len div 4 > 65535 \<or> len + grow > cap then Some (data, Reject)
         else do {
           let insert_at = ext_off + 4 + ext_len;
           data \<leftarrow> ext_block_grow data len ext_off ext_len new_ext_len;
           data \<leftarrow> wr data insert_at (push_bit 4 ext_id OR 1);
           data \<leftarrow> sfu_write_be16 data (insert_at + 1) twcc_seq;
           Some (data, Accept (len + grow))
         }
       }
   }"

definition write_twcc_two ::
    "bytes \<Rightarrow> nat \<Rightarrow> nat \<Rightarrow> u8 \<Rightarrow> u16 \<Rightarrow> nat \<Rightarrow> nat \<Rightarrow> (bytes \<times> nat ret) option" where
  "write_twcc_two data len cap ext_id twcc_seq ext_off ext_len = do {
     found \<leftarrow> two_byte_find (drop (ext_off + 4) data) ext_len ext_id;
     case found of
       Accept (elem_off, elem_size) \<Rightarrow>
         if elem_size \<noteq> 2 + SFU_TWCC_EXT_LEN then Some (data, Reject)
         else do {
           data \<leftarrow> sfu_write_be16 data (ext_off + 4 + elem_off + 2) twcc_seq;
           Some (data, Accept len)
         }
     | Reject \<Rightarrow> do {
         let new_ext_len = ext_len + 4;
         if new_ext_len div 4 > 65535 \<or> len + 4 > cap then Some (data, Reject)
         else do {
           let insert_at = ext_off + 4 + ext_len;
           data \<leftarrow> ext_block_grow data len ext_off ext_len new_ext_len;
           data \<leftarrow> wr data insert_at ext_id;
           data \<leftarrow> wr data (insert_at + 1) 2;
           data \<leftarrow> sfu_write_be16 data (insert_at + 2) twcc_seq;
           Some (data, Accept (len + 4))
         }
       }
   }"

definition write_twcc_new ::
    "bytes \<Rightarrow> nat \<Rightarrow> nat \<Rightarrow> u8 \<Rightarrow> u16 \<Rightarrow> (bytes \<times> nat ret) option" where
  "write_twcc_new data len cap ext_id twcc_seq = do {
     b0 \<leftarrow> rd data 0;
     if b0 AND 0x10 \<noteq> 0 then Some (data, Reject)
     else do {
       csrc_end \<leftarrow> rtp_csrc_end data len;
       if csrc_end = 0 \<or> len + 8 > cap then Some (data, Reject)
       else do {
         data \<leftarrow> mem_move data (csrc_end + 8) csrc_end (len - csrc_end);
         b0 \<leftarrow> rd data 0;
         data \<leftarrow> wr data 0 (b0 OR 0x10);
         data \<leftarrow> sfu_write_be16 data csrc_end RTP_EXT_ONE_BYTE_PROFILE;
         data \<leftarrow> sfu_write_be16 data (csrc_end + 2) 1;
         data \<leftarrow> wr data (csrc_end + 4) (push_bit 4 ext_id OR 1);
         data \<leftarrow> sfu_write_be16 data (csrc_end + 5) twcc_seq;
         data \<leftarrow> wr data (csrc_end + 7) 0;
         Some (data, Accept (len + 8))
       }
     }
   }"

definition sfu_rtp_ext_write_twcc ::
    "bytes \<Rightarrow> nat \<Rightarrow> nat \<Rightarrow> u8 \<Rightarrow> u16 \<Rightarrow> (bytes \<times> nat ret) option" where
  "sfu_rtp_ext_write_twcc data len cap ext_id twcc_seq =
     (if ext_id = 0 \<or> ext_id > 14 \<or> len < RTP_FIXED_HEADER_LEN \<or> len > cap
      then Some (data, Reject)
      else do {
        block \<leftarrow> rtp_ext_block data len;
        case block of
          Reject \<Rightarrow> write_twcc_new data len cap ext_id twcc_seq
        | Accept (ext_off, ext_len) \<Rightarrow> do {
            profile \<leftarrow> sfu_read_be16 data ext_off;
            if profile = RTP_EXT_ONE_BYTE_PROFILE
            then write_twcc_one data len cap ext_id twcc_seq ext_off ext_len
            else if profile AND 0xFFF0 = RTP_EXT_TWO_BYTE_PROFILE
            then write_twcc_two data len cap ext_id twcc_seq ext_off ext_len
            else Some (data, Reject)
          }
      })"

section \<open>Extension blocks as lists of elements\<close>

datatype ext_step = Ext_Pad | Ext_Stop | Ext_Elem u8 nat nat

definition one_byte_step :: "bytes \<Rightarrow> nat \<Rightarrow> nat \<Rightarrow> ext_step" where
  "one_byte_step ext n pos =
     (let b = ext ! pos; d = unat (b AND 0x0f) + 1 in
      if b = 0 then Ext_Pad
      else if drop_bit 4 b = 15 \<or> pos + 1 + d > n then Ext_Stop
      else Ext_Elem (drop_bit 4 b) 1 d)"

definition two_byte_step :: "bytes \<Rightarrow> nat \<Rightarrow> nat \<Rightarrow> ext_step" where
  "two_byte_step ext n pos =
     (let d = unat (ext ! (pos + 1)) in
      if ext ! pos = 0 then Ext_Pad
      else if pos + 2 > n \<or> pos + 2 + d > n then Ext_Stop
      else Ext_Elem (ext ! pos) 2 d)"

function ext_elems ::
    "(bytes \<Rightarrow> nat \<Rightarrow> nat \<Rightarrow> ext_step) \<Rightarrow> bytes \<Rightarrow> nat \<Rightarrow> nat \<Rightarrow> (nat \<times> u8 \<times> nat \<times> nat) list \<times> bool" where
  "ext_elems step ext n pos =
     (if pos < n then
        case step ext n pos of
          Ext_Pad \<Rightarrow> ext_elems step ext n (pos + 1)
        | Ext_Stop \<Rightarrow> ([], False)
        | Ext_Elem e h d \<Rightarrow>
            if h = 0 then ([], False)
            else case ext_elems step ext n (pos + (h + d)) of
                (es, clean) \<Rightarrow> ((pos, e, h, d) # es, clean)
      else ([], True))"
  by pat_completeness auto
termination
  by (relation "measure (\<lambda>(_, _, n, pos). n - pos)") auto

declare ext_elems.simps [simp del]

definition find_elem :: "u8 \<Rightarrow> (nat \<times> u8 \<times> nat \<times> nat) list \<Rightarrow> (nat \<times> nat) ret" where
  "find_elem i es = (case List.find (\<lambda>(p, e, h, d). e = i) es of
     None \<Rightarrow> Reject | Some (p, e, h, d) \<Rightarrow> Accept (p, h + d))"

lemma find_elem_simps [simp]:
  "find_elem i [] = Reject"
  "find_elem i ((p, e, h, d) # es) = (if e = i then Accept (p, h + d) else find_elem i es)"
  by (auto simp: find_elem_def)

lemma find_elem_append:
  "find_elem i (xs @ ys) = (if find_elem i xs = Reject then find_elem i ys else find_elem i xs)"
  by (induction xs) auto

lemma find_elem_in:
  "find_elem i es = Accept (p, s) \<Longrightarrow> \<exists>h d. s = h + d \<and> (p, i, h, d) \<in> set es"
  by (induction es) (auto split: if_splits, blast)

locale ext_walk =
  fixes step :: "bytes \<Rightarrow> nat \<Rightarrow> nat \<Rightarrow> ext_step"
    and find_from :: "bytes \<Rightarrow> nat \<Rightarrow> u8 \<Rightarrow> nat \<Rightarrow> (nat \<times> nat) ret option"
  assumes step_elem: "step ext n pos = Ext_Elem e h d \<Longrightarrow> 0 < h \<and> pos + h + d \<le> n"
    and step_local:
      "step ext n pos = Ext_Elem e h d \<Longrightarrow> n \<le> n' \<Longrightarrow>
       (\<And>j. pos \<le> j \<Longrightarrow> j < pos + h \<Longrightarrow> ext' ! j = ext ! j) \<Longrightarrow>
       step ext' n' pos = Ext_Elem e h d"
    and step_pad: "step ext n pos = Ext_Pad \<longleftrightarrow> ext ! pos = 0"
    and step_cong:
      "(\<And>j. pos \<le> j \<Longrightarrow> j < n \<Longrightarrow> ext' ! j = ext ! j) \<Longrightarrow> pos < n \<Longrightarrow>
       step ext' n pos = step ext n pos"
    and find_from_eq:
      "n \<le> length ext \<Longrightarrow> find_from ext n i pos =
         (if pos < n then
            case step ext n pos of
              Ext_Pad \<Rightarrow> find_from ext n i (pos + 1)
            | Ext_Stop \<Rightarrow> Some Reject
            | Ext_Elem e h d \<Rightarrow>
                if e = i then Some (Accept (pos, h + d)) else find_from ext n i (pos + (h + d))
          else Some Reject)"
begin

lemma elems_end [simp]: "ext_elems step ext n n = ([], True)"
  by (subst ext_elems.simps) simp

lemma elems_pad: "pos < n \<Longrightarrow> ext ! pos = 0 \<Longrightarrow>
    ext_elems step ext n pos = ext_elems step ext n (pos + 1)"
  by (subst ext_elems.simps) (simp add: step_pad [THEN iffD2])

lemma elems_elem: "pos < n \<Longrightarrow> step ext n pos = Ext_Elem e h d \<Longrightarrow>
    ext_elems step ext n pos =
      ((pos, e, h, d) # fst (ext_elems step ext n (pos + (h + d))),
       snd (ext_elems step ext n (pos + (h + d))))"
  by (subst ext_elems.simps) (auto dest: step_elem split: prod.splits)

lemma elems_stop: "pos < n \<Longrightarrow> step ext n pos = Ext_Stop \<Longrightarrow>
    ext_elems step ext n pos = ([], False)"
  by (subst ext_elems.simps) simp

lemma elems_beyond [simp]: "\<not> pos < n \<Longrightarrow> ext_elems step ext n pos = ([], True)"
  by (subst ext_elems.simps) simp

text \<open>Induction along a walk: past the end, over a padding byte, stopped, over an element.\<close>

lemma walk_induct [case_names Beyond Pad Stop Elem]:
  assumes "\<And>pos. \<not> pos < n \<Longrightarrow> P pos"
    and "\<And>pos. pos < n \<Longrightarrow> ext ! pos = 0 \<Longrightarrow> P (pos + 1) \<Longrightarrow> P pos"
    and "\<And>pos. pos < n \<Longrightarrow> step ext n pos = Ext_Stop \<Longrightarrow> P pos"
    and "\<And>pos e h d. pos < n \<Longrightarrow> step ext n pos = Ext_Elem e h d \<Longrightarrow> 0 < h \<Longrightarrow>
      pos + h + d \<le> n \<Longrightarrow> P (pos + (h + d)) \<Longrightarrow> P pos"
  shows "P pos"
proof (induction "n - pos" arbitrary: pos rule: less_induct)
  case less
  show ?case
  proof (cases "pos < n")
    case True
    show ?thesis
    proof (cases "step ext n pos")
      case Ext_Pad
      then have "ext ! pos = 0" by (simp add: step_pad)
      moreover have "P (pos + 1)" using True by (intro less) simp
      ultimately show ?thesis using True assms(2) by blast
    next
      case Ext_Stop
      then show ?thesis using True assms(3) by blast
    next
      case (Ext_Elem e h d)
      then have "0 < h" "pos + h + d \<le> n" by (simp_all add: step_elem)
      moreover from this have "P (pos + (h + d))" using True by (intro less) simp
      ultimately show ?thesis using True Ext_Elem assms(4) by blast
    qed
  qed (rule assms(1))
qed

lemma find_elems:
  assumes "n \<le> length ext"
  shows "find_from ext n i pos = Some (find_elem i (fst (ext_elems step ext n pos)))"
proof (induction pos rule: walk_induct [where n = n and ext = ext])
  case (Pad pos)
  then show ?case
    by (subst find_from_eq [OF assms]) (simp add: elems_pad step_pad [THEN iffD2])
qed (subst find_from_eq [OF assms], simp add: elems_stop elems_elem)+

lemma elems_bounds:
  "(p, e, h, d) \<in> set (fst (ext_elems step ext n pos)) \<Longrightarrow>
   pos \<le> p \<and> p + h + d \<le> n \<and> 0 < h \<and> step ext n p = Ext_Elem e h d"
  by (induction pos rule: walk_induct [where n = n and ext = ext])
    (auto simp: elems_pad elems_stop elems_elem)

lemma elems_cong:
  assumes "\<And>j. pos \<le> j \<Longrightarrow> j < n \<Longrightarrow> ext' ! j = ext ! j"
  shows "ext_elems step ext' n pos = ext_elems step ext n pos"
  using assms
proof (induction pos rule: walk_induct [where n = n and ext = ext])
  case (Pad pos)
  then show ?case by (simp add: elems_pad)
next
  case (Stop pos)
  from Stop(1,3) have "step ext' n pos = step ext n pos" by (intro step_cong) auto
  with Stop(1,2) show ?case by (simp add: elems_stop)
next
  case (Elem pos e h d)
  from Elem(1,6) have "step ext' n pos = step ext n pos" by (intro step_cong) auto
  moreover have "ext_elems step ext' n (pos + (h + d)) = ext_elems step ext n (pos + (h + d))"
    using Elem(5,6) by simp
  ultimately show ?case using Elem(1,2) by (simp add: elems_elem)
qed simp

text \<open>Appending to a cleanly ending block appends to its elements.\<close>

lemma elems_grow:
  assumes "snd (ext_elems step ext n pos)" "pos \<le> n" "n \<le> n'"
    and "\<And>j. j < n \<Longrightarrow> ext' ! j = ext ! j"
  shows "ext_elems step ext' n' pos =
    (fst (ext_elems step ext n pos) @ fst (ext_elems step ext' n' n),
     snd (ext_elems step ext' n' n))"
  using assms(1,2)
proof (induction pos rule: walk_induct [where n = n and ext = ext])
  case (Beyond pos)
  then show ?case by simp
next
  case (Pad pos)
  then have "ext' ! pos = 0" using assms(4) by simp
  with Pad assms(3) show ?case by (simp add: elems_pad)
next
  case (Stop pos)
  then show ?case by (simp add: elems_stop)
next
  case (Elem pos e h d)
  then have "step ext' n' pos = Ext_Elem e h d"
    using assms(3,4) by (intro step_local [OF Elem(2)]) auto
  with Elem assms(3) show ?case by (simp add: elems_elem)
qed

text \<open>Overwriting the data of one element leaves the list of elements as it is.\<close>

lemma elems_overwrite:
  assumes "(p, e, h, d) \<in> set (fst (ext_elems step ext n pos))"
    and "\<And>j. j < n \<Longrightarrow> \<not> (p + h \<le> j \<and> j < p + h + d) \<Longrightarrow> ext' ! j = ext ! j"
  shows "ext_elems step ext' n pos = ext_elems step ext n pos"
  using assms(1)
proof (induction pos rule: walk_induct [where n = n and ext = ext])
  case (Beyond pos)
  then show ?case by simp
next
  case (Pad pos)
  then have "(p, e, h, d) \<in> set (fst (ext_elems step ext n (pos + 1)))"
    by (simp add: elems_pad)
  moreover from this have "pos < p" using elems_bounds by fastforce
  moreover from this Pad have "ext' ! pos = 0" using assms(2) by simp
  ultimately show ?case using Pad by (simp add: elems_pad)
next
  case (Stop pos)
  then show ?case by (simp add: elems_stop)
next
  case (Elem pos e' h' d')
  note b = elems_bounds [OF Elem.prems]
  show ?case
  proof (cases "p = pos")
    case True
    then have eq: "h' = h" "d' = d" using Elem(2) b by auto
    then have "step ext' n pos = Ext_Elem e' h' d'"
      using True b by (intro step_local [OF Elem(2)] assms(2)) auto
    moreover have "ext_elems step ext' n (pos + (h + d)) = ext_elems step ext n (pos + (h + d))"
      using True by (intro elems_cong assms(2)) auto
    ultimately show ?thesis
      using Elem eq by (simp add: elems_elem)
  next
    case False
    with Elem have m: "(p, e, h, d) \<in> set (fst (ext_elems step ext n (pos + (h' + d'))))"
      by (simp add: elems_elem)
    then have "pos + (h' + d') \<le> p" using elems_bounds by blast
    then have "step ext' n pos = Ext_Elem e' h' d'"
      using Elem by (intro step_local [OF Elem(2)] assms(2)) auto
    with Elem m show ?thesis by (simp add: elems_elem)
  qed
qed

lemma elems_zeros: "(\<And>j. pos \<le> j \<Longrightarrow> j < n \<Longrightarrow> ext ! j = 0) \<Longrightarrow>
    ext_elems step ext n pos = ([], True)"
  by (induction "n - pos" arbitrary: pos) (auto simp: elems_pad)

text \<open>The list of elements after an append: one element more, then zeros.\<close>

lemma elems_append:
  assumes "snd (ext_elems step ext n 0)" "n < n'"
    and "\<And>j. j < n \<Longrightarrow> ext' ! j = ext ! j"
    and "step ext' n' n = Ext_Elem e h d"
    and "\<And>j. n + h + d \<le> j \<Longrightarrow> j < n' \<Longrightarrow> ext' ! j = 0"
  shows "ext_elems step ext' n' 0 = (fst (ext_elems step ext n 0) @ [(n, e, h, d)], True)"
proof -
  have "ext_elems step ext' n' (n + (h + d)) = ([], True)"
    by (rule elems_zeros) (use assms(5) in auto)
  then show ?thesis
    using assms by (subst elems_grow [where n = n and ext = ext]) (auto simp: elems_elem)
qed

lemma elems_disjoint:
  assumes "(p, e, h, d) \<in> set (fst (ext_elems step ext n pos))"
    and "(p', e', h', d') \<in> set (fst (ext_elems step ext n pos))"
  shows "(p, e, h, d) = (p', e', h', d') \<or> p + h + d \<le> p' \<or> p' + h' + d' \<le> p"
  using assms
  by (induction pos rule: walk_induct [where n = n and ext = ext])
    (auto simp: elems_pad elems_stop elems_elem add.assoc dest: elems_bounds)

lemma find_elems_in:
  assumes "find_elem i (fst (ext_elems step ext n pos)) = Accept (p, s)"
  obtains h d where "s = h + d" "(p, i, h, d) \<in> set (fst (ext_elems step ext n pos))"
  using find_elem_in [OF assms] by blast

lemma find_bytes:
  assumes "n \<le> length ext" "n' \<le> length ext'"
    and "find_elem j (fst (ext_elems step ext' n' 0)) = find_elem j (fst (ext_elems step ext n 0))"
    and "find_elem j (fst (ext_elems step ext n 0)) = Accept (q, s)"
    and "\<And>k. q \<le> k \<Longrightarrow> k < q + s \<Longrightarrow> ext' ! k = ext ! k"
  shows "take (s - m) (drop (q + m) ext') = take (s - m) (drop (q + m) ext)"
proof -
  obtain h d where "s = h + d" "(q, j, h, d) \<in> set (fst (ext_elems step ext n 0))"
    using assms(4) find_elems_in by blast
  moreover obtain h' d' where "s = h' + d'" "(q, j, h', d') \<in> set (fst (ext_elems step ext' n' 0))"
    using assms(3,4) find_elems_in [of j ext' n' 0 q s] by metis
  ultimately have "q + s \<le> length ext" "q + s \<le> length ext'"
    using elems_bounds assms(1,2) by fastforce+
  then show ?thesis
    using assms(5) by (intro nth_equalityI) auto
qed

text \<open>The other elements, after the data of one was overwritten.\<close>

lemma overwrite_others:
  assumes "(p, i, h, d) \<in> set (fst (ext_elems step ext n 0))" "j \<noteq> i"
    and "\<And>k. k < n \<Longrightarrow> \<not> (p + h \<le> k \<and> k < p + h + d) \<Longrightarrow> ext' ! k = ext ! k"
    and "find_elem j (fst (ext_elems step ext n 0)) = Accept (q, s)" "q \<le> k" "k < q + s"
  shows "ext' ! k = ext ! k"
proof -
  obtain h' d' where e: "s = h' + d'" "(q, j, h', d') \<in> set (fst (ext_elems step ext n 0))"
    using assms(4) find_elems_in by blast
  from elems_disjoint [OF assms(1) e(2)] elems_bounds [OF e(2)] elems_bounds [OF assms(1)]
  show ?thesis
    using assms(2,5,6) e(1) by (intro assms(3)) auto
qed

lemma find_less:
  assumes "find_elem j (fst (ext_elems step ext n 0)) = Accept (q, s)" "k < q + s"
  shows "k < n"
proof -
  obtain h d where "s = h + d" "(q, j, h, d) \<in> set (fst (ext_elems step ext n 0))"
    using assms(1) find_elems_in by blast
  then show ?thesis
    using elems_bounds [of q j h d ext n 0] assms(2) by simp
qed

end

interpretation ob: ext_walk one_byte_step one_byte_find_from
proof unfold_locales
  show "\<And>ext n pos e h d. one_byte_step ext n pos = Ext_Elem e h d \<Longrightarrow> 0 < h \<and> pos + h + d \<le> n"
    by (auto simp: one_byte_step_def Let_def split: if_splits)
next
  fix ext n pos e h d n' ext'
  assume "one_byte_step ext n pos = Ext_Elem e h d" "n \<le> n'"
    "\<And>j. pos \<le> j \<Longrightarrow> j < pos + h \<Longrightarrow> ext' ! j = ext ! j"
  moreover from this have "ext' ! pos = ext ! pos"
    by (auto simp: one_byte_step_def Let_def split: if_splits)
  ultimately show "one_byte_step ext' n' pos = Ext_Elem e h d"
    by (auto simp: one_byte_step_def Let_def split: if_splits)
next
  show "\<And>ext n pos. (one_byte_step ext n pos = Ext_Pad) = (ext ! pos = 0)"
    by (auto simp: one_byte_step_def Let_def)
next
  show "\<And>pos n ext' ext. (\<And>j. pos \<le> j \<Longrightarrow> j < n \<Longrightarrow> ext' ! j = ext ! j) \<Longrightarrow> pos < n \<Longrightarrow>
      one_byte_step ext' n pos = one_byte_step ext n pos"
    by (simp add: one_byte_step_def)
next
  fix n i pos and ext :: bytes
  assume "n \<le> length ext"
  then show "one_byte_find_from ext n i pos =
         (if pos < n then
            case one_byte_step ext n pos of
              Ext_Pad \<Rightarrow> one_byte_find_from ext n i (pos + 1)
            | Ext_Stop \<Rightarrow> Some Reject
            | Ext_Elem e h d \<Rightarrow>
                if e = i then Some (Accept (pos, h + d)) else one_byte_find_from ext n i (pos + (h + d))
          else Some Reject)"
    by (subst one_byte_find_from.simps) (simp add: one_byte_step_def Let_def)
qed

interpretation tb: ext_walk two_byte_step two_byte_find_from
proof unfold_locales
  show "\<And>ext n pos e h d. two_byte_step ext n pos = Ext_Elem e h d \<Longrightarrow> 0 < h \<and> pos + h + d \<le> n"
    by (auto simp: two_byte_step_def Let_def split: if_splits)
next
  fix ext n pos e h d n' ext'
  assume "two_byte_step ext n pos = Ext_Elem e h d" "n \<le> n'"
    "\<And>j. pos \<le> j \<Longrightarrow> j < pos + h \<Longrightarrow> ext' ! j = ext ! j"
  moreover from this have "ext' ! pos = ext ! pos" "ext' ! (pos + 1) = ext ! (pos + 1)"
    by (auto simp: two_byte_step_def Let_def split: if_splits)
  ultimately show "two_byte_step ext' n' pos = Ext_Elem e h d"
    by (auto simp: two_byte_step_def Let_def split: if_splits)
next
  show "\<And>ext n pos. (two_byte_step ext n pos = Ext_Pad) = (ext ! pos = 0)"
    by (auto simp: two_byte_step_def Let_def)
next
  fix pos n :: nat and ext' ext
  assume a: "\<And>j. pos \<le> j \<Longrightarrow> j < n \<Longrightarrow> ext' ! j = (ext ! j :: u8)" "pos < n"
  show "two_byte_step ext' n pos = two_byte_step ext n pos"
    using a(1) [of pos] a(1) [of "pos + 1"] a(2)
    by (cases "pos + 1 < n") (auto simp add: two_byte_step_def Let_def)
next
  fix n i pos and ext :: bytes
  assume "n \<le> length ext"
  then show "two_byte_find_from ext n i pos =
         (if pos < n then
            case two_byte_step ext n pos of
              Ext_Pad \<Rightarrow> two_byte_find_from ext n i (pos + 1)
            | Ext_Stop \<Rightarrow> Some Reject
            | Ext_Elem e h d \<Rightarrow>
                if e = i then Some (Accept (pos, h + d)) else two_byte_find_from ext n i (pos + (h + d))
          else Some Reject)"
    by (subst two_byte_find_from.simps) (auto simp add: two_byte_step_def Let_def)
qed

lemma one_byte_step_simps:
  "one_byte_step ext n pos = Ext_Elem e h d \<longleftrightarrow> ext ! pos \<noteq> 0 \<and> drop_bit 4 (ext ! pos) \<noteq> 15 \<and>
     e = drop_bit 4 (ext ! pos) \<and> h = 1 \<and> d = unat (ext ! pos AND 0x0f) + 1 \<and> pos + 1 + d \<le> n"
  "one_byte_step ext n pos = Ext_Stop \<longleftrightarrow> ext ! pos \<noteq> 0 \<and>
     (drop_bit 4 (ext ! pos) = 15 \<or> pos + 2 + unat (ext ! pos AND 0x0f) > n)"
  by (auto simp: one_byte_step_def Let_def)

lemma two_byte_step_simps:
  "two_byte_step ext n pos = Ext_Elem e h d \<longleftrightarrow> ext ! pos \<noteq> 0 \<and>
     e = ext ! pos \<and> h = 2 \<and> d = unat (ext ! (pos + 1)) \<and> pos + 2 + d \<le> n"
  "two_byte_step ext n pos = Ext_Stop \<longleftrightarrow> ext ! pos \<noteq> 0 \<and>
     (pos + 2 > n \<or> pos + 2 + unat (ext ! (pos + 1)) > n)"
  by (auto simp: two_byte_step_def Let_def)

lemma read_twcc_one_elems:
  assumes "n \<le> length ext"
  shows "read_twcc_one_from ext n i pos =
    Some (case find_elem i (fst (ext_elems one_byte_step ext n pos)) of
      Reject \<Rightarrow> Reject
    | Accept (p, s) \<Rightarrow> if s < 3 then Reject else Accept (be16 (ext ! (p + 1)) (ext ! (p + 2))))"
proof (induction pos rule: ob.walk_induct [where n = n and ext = ext])
  case (Beyond pos)
  then show ?case by (subst read_twcc_one_from.simps) simp
next
  case (Pad pos)
  with assms show ?case
    by (subst read_twcc_one_from.simps) (simp add: ob.elems_pad)
next
  case (Stop pos)
  with assms show ?case
    by (subst read_twcc_one_from.simps)
      (auto simp: ob.elems_stop one_byte_step_simps Let_def split: if_splits)
next
  case (Elem pos e h d)
  with assms show ?case
    by (subst read_twcc_one_from.simps, simp only: ob.elems_elem)
      (auto simp: one_byte_step_simps Let_def split: if_splits)
qed

lemma read_twcc_two_elems:
  assumes "n \<le> length ext"
  shows "read_twcc_two_from ext n i pos =
    Some (case find_elem i (fst (ext_elems two_byte_step ext n pos)) of
      Reject \<Rightarrow> Reject
    | Accept (p, s) \<Rightarrow> if s < 4 then Reject else Accept (be16 (ext ! (p + 2)) (ext ! (p + 3))))"
proof (induction pos rule: tb.walk_induct [where n = n and ext = ext])
  case (Beyond pos)
  then show ?case by (subst read_twcc_two_from.simps) simp
next
  case (Pad pos)
  with assms show ?case
    by (subst read_twcc_two_from.simps) (simp add: tb.elems_pad)
next
  case (Stop pos)
  with assms show ?case
    by (subst read_twcc_two_from.simps)
      (auto simp: tb.elems_stop two_byte_step_simps Let_def split: if_splits)
next
  case (Elem pos e h d)
  with assms show ?case
    by (subst read_twcc_two_from.simps, simp only: tb.elems_elem)
      (auto simp: two_byte_step_simps Let_def numeral_3_eq_3 split: if_splits)
qed

lemma read_mid_one_elems:
  assumes "n \<le> length ext"
  shows "read_mid_from RTP_EXT_ONE_BYTE_PROFILE ext n i cap pos =
    Some (case find_elem i (fst (ext_elems one_byte_step ext n pos)) of
      Reject \<Rightarrow> Reject
    | Accept (p, s) \<Rightarrow> if s \<le> 1 \<or> s - 1 \<ge> cap then Reject
        else Accept (take (s - 1) (drop (p + 1) ext)))"
proof (induction pos rule: ob.walk_induct [where n = n and ext = ext])
  case (Beyond pos)
  then show ?case by (subst read_mid_from.simps) simp
next
  case (Pad pos)
  with assms show ?case
    by (subst read_mid_from.simps) (simp add: read_mid_header_def ob.elems_pad)
next
  case (Stop pos)
  with assms show ?case
    by (subst read_mid_from.simps)
      (auto simp: read_mid_header_def ob.elems_stop one_byte_step_simps Let_def split: if_splits)
next
  case (Elem pos e h d)
  with assms show ?case
    by (subst read_mid_from.simps, simp only: ob.elems_elem)
      (auto simp: read_mid_header_def one_byte_step_simps Let_def split: if_splits)
qed

lemma read_mid_two_elems:
  assumes "n \<le> length ext" "profile AND 0xFFF0 = RTP_EXT_TWO_BYTE_PROFILE"
  shows "read_mid_from profile ext n i cap pos =
    Some (case find_elem i (fst (ext_elems two_byte_step ext n pos)) of
      Reject \<Rightarrow> Reject
    | Accept (p, s) \<Rightarrow> if s \<le> 2 \<or> s - 2 \<ge> cap then Reject
        else Accept (take (s - 2) (drop (p + 2) ext)))"
proof -
  have np: "profile \<noteq> RTP_EXT_ONE_BYTE_PROFILE" using assms(2) by auto
  show ?thesis
proof (induction pos rule: tb.walk_induct [where n = n and ext = ext])
  case (Beyond pos)
  then show ?case by (subst read_mid_from.simps) simp
next
  case (Pad pos)
  with assms np show ?case
    by (subst read_mid_from.simps) (simp add: read_mid_header_def tb.elems_pad)
next
  case (Stop pos)
  with assms np show ?case
    by (subst read_mid_from.simps)
      (auto simp: read_mid_header_def tb.elems_stop two_byte_step_simps Let_def split: if_splits)
next
  case (Elem pos e h d)
  with assms np show ?case
    by (subst read_mid_from.simps, simp only: tb.elems_elem)
      (auto simp: read_mid_header_def two_byte_step_simps Let_def split: if_splits)
qed
qed

lemma align4_bounds: "n \<le> align4 n" "align4 n < n + 4" "align4 n mod 4 = 0"
  by (auto simp: align4_def)

definition csrc_end_of :: "u8 \<Rightarrow> nat" where
  "csrc_end_of b0 = 12 + unat (b0 AND 0x0f) * 4"

lemma ok_csrc_end [ok_simps]:
  "len \<le> length data \<Longrightarrow> ok (rtp_csrc_end data len) P \<longleftrightarrow>
   P (if len < 12 \<or> drop_bit 6 (data ! 0) \<noteq> 2 \<or> csrc_end_of (data ! 0) > len then 0
      else csrc_end_of (data ! 0))"
  by (auto simp: rtp_csrc_end_def ok_simps Let_def csrc_end_of_def)

lemma ok_ext_block:
  assumes "len \<le> length data"
  shows "ok (rtp_ext_block data len) (\<lambda>r. case r of Reject \<Rightarrow> True
    | Accept (off, n) \<Rightarrow> off = csrc_end_of (data ! 0) \<and> 12 \<le> off \<and> off + 4 + n \<le> len \<and>
        n = unat (be16 (data ! (off + 2)) (data ! (off + 3))) * 4 \<and>
        drop_bit 6 (data ! 0) = 2 \<and> data ! 0 AND 0x10 \<noteq> 0 \<and> 12 \<le> len)"
  using assms
  by (auto simp: rtp_ext_block_def ok_simps Let_def csrc_end_of_def add.commute numeral_3_eq_3)

lemma ok_ext_block_grow:
  assumes "off + 4 + n \<le> len" "n \<le> n'" "len + (n' - n) \<le> length data"
  shows "ok (ext_block_grow data len off n n') (\<lambda>d. length d = length data \<and>
    (\<forall>i < length data. d ! i =
       (if i = off + 2 then ucast (drop_bit 8 (of_nat (n' div 4) :: u16))
        else if i = off + 3 then ucast (of_nat (n' div 4) :: u16)
        else if i < off + 4 + n then data ! i
        else if i < off + 4 + n' then 0
        else if i < len + (n' - n) then data ! (i - (n' - n))
        else data ! i)))"
  using assms
  by (auto simp: ext_block_grow_def ok_simps Let_def nth_list_update nth_overwrite numeral_3_eq_3 add.commute [of n])

lemma set_x_bits:
  "(b OR 0x10) AND 0x20 = b AND 0x20" "(b OR 0x10) AND 0x0f = b AND 0x0f"
  "(b OR 0x10) AND 0x10 = 0x10" "drop_bit 6 (b OR 0x10) = drop_bit 6 b" for b :: u8
  by (simp_all add: word_ao_dist word_bw_assocs word_ao_absorbs drop_bit_or)

lemma x_bit_set: "b AND 0x10 \<noteq> 0 \<Longrightarrow> b OR 0x10 = b" for b :: u8
  using and_exp_eq_0_iff_not_bit [of b 4] or_exp_absorb [of b 4] by simp

lemma parse_ext_change:
  assumes len: "len \<le> length data" and parse: "sfu_rtp_packet_parse data len = Some (Accept p)"
    and len': "len + g \<le> length d" "length d = length data"
    and h: "h = 12 + 4 * unat (rp_csrc_count p)"
    and b0: "d ! 0 = data ! 0 OR 0x10"
    and fixed: "\<And>i. 0 < i \<Longrightarrow> i < 12 \<Longrightarrow> d ! i = data ! i"
    and profile: "be16 (d ! h) (d ! (h + 1)) = profile"
    and n': "unat (be16 (d ! (h + 2)) (d ! (h + 3))) * 4 = n'"
    and hl: "h + 4 + n' = rp_header_len p + g"
    and tail: "\<And>j. rp_header_len p \<le> j \<Longrightarrow> j < len \<Longrightarrow> d ! (j + g) = data ! j"
  shows "sfu_rtp_packet_parse d (len + g) = Some (Accept (p\<lparr>rp_extension := True,
      rp_extension_profile := profile, rp_extension_off := h + 4, rp_extension_length := n',
      rp_header_len := rp_header_len p + g\<rparr>))"
    and "rtp_payload d (p\<lparr>rp_extension := True,
      rp_extension_profile := profile, rp_extension_off := h + 4, rp_extension_length := n',
      rp_header_len := rp_header_len p + g\<rparr>) = rtp_payload data p"
proof -
  note f = parse_fields [OF len parse]
  have lay: "rtp_layout data len p"
    using ok_result [OF parse_ok [OF len] parse] by simp
  have span: "rp_header_len p + rp_payload_len p \<le> len"
    and no_pad: "\<not> rp_padding p \<Longrightarrow> rp_payload_len p = len - rp_header_len p"
    and pad: "rp_padding p \<Longrightarrow> rp_header_len p + rp_payload_len p < len"
      "rp_padding p \<Longrightarrow> rp_header_len p + rp_payload_len p + unat (data ! (len - 1)) = len"
    using lay by (auto simp: rtp_layout_def)
  have fits: "h + 4 + n' \<le> len + g"
    using span hl by simp
  then have e: "rtp_parse_extension d (len + g) h = Some (Accept (profile, h + 4, n', h + 4 + n'))"
    using len' profile n'
    by (auto simp: rtp_parse_extension_def numeral_3_eq_3 Let_def)
  have pd: "rtp_parse_padding d (len + g) (len - rp_header_len p) = Some (Accept (rp_payload_len p))"
    if "rp_padding p"
  proof -
    have "rp_header_len p \<le> len - 1" "len - 1 < len"
      using pad(1) [OF that] by linarith+
    then have "d ! (len - 1 + g) = data ! (len - 1)"
      by (rule tail)
    then have "d ! (len + g - 1) = data ! (len - 1)"
      using f(1) by simp
    moreover have "data ! (len - 1) \<noteq> 0" "unat (data ! (len - 1)) \<le> len - rp_header_len p"
      "len - rp_header_len p - unat (data ! (len - 1)) = rp_payload_len p"
      using pad [OF that] by (auto simp: unat_eq_zero)
    ultimately show ?thesis
      using len' f(1) pad(1) [OF that] by (simp add: rtp_parse_padding_def)
  qed
  have span': "len + g - (h + 4 + n') = len - rp_header_len p"
    using hl by simp
  have "rtp_parse_tail d (len + g) (d ! 0) =
    Some (Accept (profile, h + 4, n', h + 4 + n', rp_payload_len p))"
  proof (cases "rp_padding p")
    case True
    then have "data ! 0 AND 0x20 \<noteq> 0"
      using f by simp
    then show ?thesis
      using e pd [OF True] fits f(6) span' h
      by (simp add: rtp_parse_tail_def b0 set_x_bits Let_def mult.commute)
  next
    case False
    then have "data ! 0 AND 0x20 = 0"
      using f by simp
    then show ?thesis
      using e no_pad [OF False] fits f(6) span' h
      by (simp add: rtp_parse_tail_def b0 set_x_bits Let_def mult.commute)
  qed
  moreover have "d ! 1 = data ! 1" "\<forall>i \<in> {2..<12}. d ! i = data ! i"
    using fixed by simp_all
  ultimately show "sfu_rtp_packet_parse d (len + g) = Some (Accept (p\<lparr>rp_extension := True,
      rp_extension_profile := profile, rp_extension_off := h + 4, rp_extension_length := n',
      rp_header_len := rp_header_len p + g\<rparr>))"
    using f len' hl parse_AcceptI [of "len + g" d profile "h + 4" n' "h + 4 + n'" "rp_payload_len p"]
    by (cases p) (simp add: set_x_bits b0)
  show "rtp_payload d (p\<lparr>rp_extension := True,
      rp_extension_profile := profile, rp_extension_off := h + 4, rp_extension_length := n',
      rp_header_len := rp_header_len p + g\<rparr>) = rtp_payload data p"
  proof -
    have "d ! (rp_header_len p + g + i) = data ! (rp_header_len p + i)"
      if "i < rp_payload_len p" for i
      using tail [of "rp_header_len p + i"] span that by (simp add: ac_simps)
    then show ?thesis
      using span len len' by (auto simp: rtp_payload_def intro!: nth_equalityI)
  qed
qed

lemma ok_one_byte_find [ok_simps]:
  "n \<le> length ext \<Longrightarrow> ok (one_byte_find ext n i) P \<longleftrightarrow>
   P (find_elem i (fst (ext_elems one_byte_step ext n 0)))"
  by (simp add: one_byte_find_def ob.find_elems ok_simps)

lemma ok_two_byte_find [ok_simps]:
  "n \<le> length ext \<Longrightarrow> ok (two_byte_find ext n i) P \<longleftrightarrow>
   P (find_elem i (fst (ext_elems two_byte_step ext n 0)))"
  by (simp add: two_byte_find_def tb.find_elems ok_simps)

definition ext_grown :: "bytes \<Rightarrow> nat \<Rightarrow> nat \<Rightarrow> nat \<Rightarrow> nat \<Rightarrow> bytes \<Rightarrow> bool" where
  "ext_grown data len off n n' d \<longleftrightarrow> length d = length data \<and>
    (\<forall>i < length data. d ! i =
       (if i = off + 2 then ucast (drop_bit 8 (of_nat (n' div 4) :: u16))
        else if i = off + 3 then ucast (of_nat (n' div 4) :: u16)
        else if i < off + 4 + n then data ! i
        else if i < off + 4 + n' then 0
        else if i < len + (n' - n) then data ! (i - (n' - n))
        else data ! i))"

lemma ok_grow:
  "off + 4 + n \<le> len \<Longrightarrow> n \<le> n' \<Longrightarrow> len + (n' - n) \<le> length data \<Longrightarrow>
   ok (ext_block_grow data len off n n') (ext_grown data len off n n')"
  unfolding ext_grown_def by (rule ok_ext_block_grow)

lemma ext_grown_length: "ext_grown data len off n n' d \<Longrightarrow> length d = length data"
  by (simp add: ext_grown_def)

end
