(* ===== verification/Rtp_Ext_Write.thy ===== *)
theory Rtp_Ext_Write
  imports Rtp_Ext
begin

text \<open>
  Correctness of the header-extension writers of \<^verbatim>\<open>src/src/rtp/rtp_ext.c\<close>: what each
  branch of the transport-wide sequence number writer leaves in the buffer, that the
  result parses, and that it reads back.
\<close>

section \<open>The branches of the writer\<close>

lemma ok_write_twcc_one:
  assumes "off + 4 + n \<le> len" "len \<le> cap" "cap \<le> length data"
  shows "ok (write_twcc_one data len cap i seq off n) (\<lambda>(d, r). length d = length data \<and>
    (case r of Reject \<Rightarrow> d = data
     | Accept len' \<Rightarrow>
         (case find_elem i (fst (ext_elems one_byte_step (drop (off + 4) data) n 0)) of
            Accept (q, s) \<Rightarrow> s = 3 \<and> len' = len \<and>
              d = data[off + 4 + q + 1 := ucast (drop_bit 8 seq), off + 4 + q + 2 := ucast seq]
          | Reject \<Rightarrow> align4 (n + 3) div 4 \<le> 65535 \<and> len' = len + (align4 (n + 3) - n) \<and>
              len' \<le> cap \<and> (\<exists>g. ext_grown data len off n (align4 (n + 3)) g \<and>
                d = g[off + 4 + n := push_bit 4 i OR 1,
                      off + 4 + n + 1 := ucast (drop_bit 8 seq), off + 4 + n + 2 := ucast seq]))))"
proof (cases "find_elem i (fst (ext_elems one_byte_step (drop (off + 4) data) n 0))")
  case Reject
  obtain n' where n': "align4 (n + 3) = n'" "n + 3 \<le> n'"
    using align4_bounds(1) [of "n + 3"] by auto
  have *: "align4 (n + (1 + SFU_TWCC_EXT_LEN)) = n'"
    using n'(1) by (simp add: numeral_3_eq_3)
  show ?thesis
    using Reject assms n'(2)
    by (auto simp: write_twcc_one_def ok_simps Let_def * n'(1) ext_grown_length
        simp del: One_nat_def intro!: ok_mono [OF ok_grow])
next
  case (Accept qs)
  then obtain q s where qs: "qs = (q, s)" by (cases qs)
  with Accept obtain h d where "s = h + d"
    "(q, i, h, d) \<in> set (fst (ext_elems one_byte_step (drop (off + 4) data) n 0))"
    using ob.find_elems_in by blast
  then have "q + s \<le> n"
    using ob.elems_bounds by fastforce
  with Accept qs assms show ?thesis
    by (auto simp: write_twcc_one_def ok_simps Let_def)
qed

lemma ok_write_twcc_two:
  assumes "off + 4 + n \<le> len" "len \<le> cap" "cap \<le> length data"
  shows "ok (write_twcc_two data len cap i seq off n) (\<lambda>(d, r). length d = length data \<and>
    (case r of Reject \<Rightarrow> d = data
     | Accept len' \<Rightarrow>
         (case find_elem i (fst (ext_elems two_byte_step (drop (off + 4) data) n 0)) of
            Accept (q, s) \<Rightarrow> s = 4 \<and> len' = len \<and>
              d = data[off + 4 + q + 2 := ucast (drop_bit 8 seq), off + 4 + q + 3 := ucast seq]
          | Reject \<Rightarrow> (n + 4) div 4 \<le> 65535 \<and> len' = len + 4 \<and>
              len' \<le> cap \<and> (\<exists>g. ext_grown data len off n (n + 4) g \<and>
                d = g[off + 4 + n := i, off + 4 + n + 1 := 2,
                      off + 4 + n + 2 := ucast (drop_bit 8 seq), off + 4 + n + 3 := ucast seq]))))"
proof (cases "find_elem i (fst (ext_elems two_byte_step (drop (off + 4) data) n 0))")
  case Reject
  with assms show ?thesis
    by (auto simp: write_twcc_two_def ok_simps Let_def ext_grown_length numeral_3_eq_3
        intro!: ok_mono [OF ok_grow])
next
  case (Accept qs)
  then obtain q s where qs: "qs = (q, s)" by (cases qs)
  with Accept obtain h d where "s = h + d"
    "(q, i, h, d) \<in> set (fst (ext_elems two_byte_step (drop (off + 4) data) n 0))"
    using tb.find_elems_in by blast
  then have "q + s \<le> n"
    using tb.elems_bounds by fastforce
  with Accept qs assms show ?thesis
    by (auto simp: write_twcc_two_def ok_simps Let_def numeral_3_eq_3)
qed

lemma ok_write_twcc_new:
  assumes "12 \<le> len" "len \<le> cap" "cap \<le> length data"
  shows "ok (write_twcc_new data len cap i seq) (\<lambda>(d, r). length d = length data \<and>
    (case r of Reject \<Rightarrow> d = data
     | Accept len' \<Rightarrow> len' = len + 8 \<and> len' \<le> cap \<and> data ! 0 AND 0x10 = 0 \<and>
        csrc_end_of (data ! 0) \<le> len \<and>
        (let e = csrc_end_of (data ! 0) in d = (overwrite data (e + 8) (take (len - e) (drop e data)))
            [0 := data ! 0 OR 0x10, e := 0xBE, e + 1 := 0xDE, e + 2 := 0, e + 3 := 1,
             e + 4 := push_bit 4 i OR 1, e + 5 := ucast (drop_bit 8 seq), e + 6 := ucast seq,
             e + 7 := 0])))"
proof -
  obtain e where e: "csrc_end_of (data ! 0) = e" "0 < e"
    by (auto simp: csrc_end_of_def)
  have "data \<noteq> []"
    using assms by auto
  moreover have *: "(48862 :: u8) = 0xDE"
    by simp
  ultimately show ?thesis
    using assms e(2) by (simp add: write_twcc_new_def ok_simps Let_def e(1) nth_overwrite *)
qed

text \<open>What the parser says of the extension of an accepted packet, and what the writers find.\<close>

lemma parse_extension_fields:
  assumes "len \<le> length data" "sfu_rtp_packet_parse data len = Some (Accept p)"
  shows "csrc_end_of (data ! 0) = 12 + 4 * unat (rp_csrc_count p)"
    and "rp_extension p \<Longrightarrow> rp_extension_profile p =
      be16 (data ! csrc_end_of (data ! 0)) (data ! (csrc_end_of (data ! 0) + 1))"
    and "rp_extension p \<Longrightarrow> rp_extension_length p =
      unat (be16 (data ! (csrc_end_of (data ! 0) + 2)) (data ! (csrc_end_of (data ! 0) + 3))) * 4"
    and "rtp_ext_block data len = Some (if rp_extension p
      then Accept (csrc_end_of (data ! 0), rp_extension_length p) else Reject)"
proof -
  note f = parse_fields [OF assms]
  have lay: "rtp_layout data len p"
    using ok_result [OF parse_ok [OF assms(1)] assms(2)] by simp
  let ?e = "csrc_end_of (data ! 0)"
  show e: "?e = 12 + 4 * unat (rp_csrc_count p)"
    using f by (simp add: csrc_end_of_def)
  have "ok (sfu_rtp_packet_parse data len) (\<lambda>r. case r of Reject \<Rightarrow> True | Accept p \<Rightarrow>
     rp_extension p \<longrightarrow> rp_extension_profile p = be16 (data ! ?e) (data ! (?e + 1)) \<and>
     rp_extension_length p = unat (be16 (data ! (?e + 2)) (data ! (?e + 3))) * 4)"
    using assms(1)
    by (auto simp: sfu_rtp_packet_parse_def rtp_parse_tail_def rtp_parse_extension_def
        rtp_parse_padding_def ok_simps Let_def csrc_end_of_def not_less)
  from ok_result [OF this assms(2)]
  show x: "rp_extension p \<Longrightarrow> rp_extension_profile p = be16 (data ! ?e) (data ! (?e + 1))"
    "rp_extension p \<Longrightarrow> rp_extension_length p = unat (be16 (data ! (?e + 2)) (data ! (?e + 3))) * 4"
    by simp_all
  have "ok (rtp_ext_block data len) (\<lambda>r. r = (if rp_extension p
      then Accept (csrc_end_of (data ! 0), rp_extension_length p) else Reject))"
  proof -
    have "data \<noteq> []" "?e \<le> len" "rp_extension p \<Longrightarrow> ?e + 4 + rp_extension_length p \<le> len"
      using lay e f(1) assms(1) by (auto simp: rtp_layout_def)
    then show ?thesis
      using f(1,2,5) assms(1) e x(2)
      by (auto simp: rtp_ext_block_def ok_simps Let_def)
  qed
  then show "rtp_ext_block data len = Some (if rp_extension p
      then Accept (csrc_end_of (data ! 0), rp_extension_length p) else Reject)"
    by (simp add: ok_def)
qed

lemma parse_ext_grown:
  assumes "len \<le> length data" "sfu_rtp_packet_parse data len = Some (Accept p)" "rp_extension p"
    and "ext_grown data len (csrc_end_of (data ! 0)) (rp_extension_length p) n' g"
    and n': "rp_extension_length p \<le> n'" "n' mod 4 = 0" "n' div 4 \<le> 65535"
      "len + (n' - rp_extension_length p) \<le> length data"
    and d: "length d = length data"
      "\<And>k. k < rp_extension_off p \<or> rp_extension_off p + n' \<le> k \<Longrightarrow> k < length data \<Longrightarrow> d ! k = g ! k"
  shows "sfu_rtp_packet_parse d (len + (n' - rp_extension_length p)) =
      Some (Accept (p\<lparr>rp_extension_length := n',
        rp_header_len := rp_header_len p + (n' - rp_extension_length p)\<rparr>))"
    "rtp_payload d (p\<lparr>rp_extension_length := n',
        rp_header_len := rp_header_len p + (n' - rp_extension_length p)\<rparr>) = rtp_payload data p"
proof -
  note f = parse_fields [OF assms(1,2)]
  note x = parse_extension_fields [OF assms(1,2)]
  let ?h = "12 + 4 * unat (rp_csrc_count p)"
  let ?n = "rp_extension_length p"
  have lay: "rtp_layout data len p"
    using ok_result [OF parse_ok [OF assms(1)] assms(2)] by simp
  then have o: "rp_extension_off p = ?h + 4" "rp_header_len p = ?h + 4 + ?n" "rp_header_len p \<le> len"
    using assms(3) by (auto simp: rtp_layout_def)
  have g: "g ! i = (if i = ?h + 2 then ucast (drop_bit 8 (of_nat (n' div 4) :: u16))
        else if i = ?h + 3 then ucast (of_nat (n' div 4) :: u16)
        else if i < ?h + 4 + ?n then data ! i
        else if i < ?h + 4 + n' then 0
        else if i < len + (n' - ?n) then data ! (i - (n' - ?n))
        else data ! i)" if "i < length data" for i
    using assms(4) that x(1) by (simp add: ext_grown_def)
  have low: "d ! k = data ! k" if "k < ?h + 2" for k
    using assms(1) d(2) [of k] g [of k] that o by simp
  have len_bytes: "d ! (?h + 2) = ucast (drop_bit 8 (of_nat (n' div 4) :: u16))"
     "d ! (?h + 3) = ucast (of_nat (n' div 4) :: u16)"
    using assms(1) d(2) [of "?h + 2"] d(2) [of "?h + 3"] g [of "?h + 2"] g [of "?h + 3"] o by simp_all
  have "unat (of_nat (n' div 4) :: u16) = n' div 4"
    using n'(3) by (simp add: unat_of_nat_less)
  then have nb: "unat (be16 (d ! (?h + 2)) (d ! (?h + 3))) * 4 = n'"
    using n'(2) unfolding len_bytes be16_split by (simp add: mod_0_imp_dvd dvd_div_mult_self)
  obtain m where m: "n' = ?n + m"
    using n'(1) le_Suc_ex by blast
  have tail: "d ! (j + (n' - ?n)) = data ! j" if "rp_header_len p \<le> j" "j < len" for j
  proof -
    have j: "?h + 4 + ?n \<le> j" "j + m < length data"
      using that o n'(4) m by simp_all
    then have "d ! (j + m) = g ! (j + m)"
      using o m by (intro d(2)) simp_all
    also have "\<dots> = data ! j"
      using j that(2) m by (subst g) simp_all
    finally show ?thesis
      using m by simp
  qed
  have pe: "p\<lparr>rp_extension := True, rp_extension_profile := rp_extension_profile p,
      rp_extension_off := ?h + 4, rp_extension_length := n',
      rp_header_len := rp_header_len p + (n' - ?n)\<rparr> = p\<lparr>rp_extension_length := n',
        rp_header_len := rp_header_len p + (n' - rp_extension_length p)\<rparr>"
    using assms(3) o by (cases p) simp
  have c: "sfu_rtp_packet_parse d (len + (n' - ?n)) = Some (Accept (p\<lparr>rp_extension := True,
      rp_extension_profile := rp_extension_profile p, rp_extension_off := ?h + 4,
      rp_extension_length := n', rp_header_len := rp_header_len p + (n' - ?n)\<rparr>))"
    "rtp_payload d (p\<lparr>rp_extension := True, rp_extension_profile := rp_extension_profile p,
      rp_extension_off := ?h + 4, rp_extension_length := n',
      rp_header_len := rp_header_len p + (n' - ?n)\<rparr>) = rtp_payload data p"
    by (rule parse_ext_change [OF assms(1,2)];
        use assms(1,3) d(1) n' o low f(5) x nb tail in \<open>simp add: x_bit_set\<close>)+
  show "sfu_rtp_packet_parse d (len + (n' - rp_extension_length p)) =
      Some (Accept (p\<lparr>rp_extension_length := n',
        rp_header_len := rp_header_len p + (n' - rp_extension_length p)\<rparr>))"
    "rtp_payload d (p\<lparr>rp_extension_length := n',
        rp_header_len := rp_header_len p + (n' - rp_extension_length p)\<rparr>) = rtp_payload data p"
    using c unfolding pe .
qed

lemma parse_ext_kept:
  assumes "len \<le> length data" "sfu_rtp_packet_parse data len = Some (Accept p)" "rp_extension p"
    and "length d = length data"
    and "\<And>k. k < rp_extension_off p \<or> rp_header_len p \<le> k \<Longrightarrow> k < length data \<Longrightarrow> d ! k = data ! k"
  shows "sfu_rtp_packet_parse d len = Some (Accept p)" "rtp_payload d p = rtp_payload data p"
proof -
  let ?n = "rp_extension_length p"
  note x = parse_extension_fields [OF assms(1,2)]
  have n: "?n div 4 \<le> 65535" "?n mod 4 = 0" "(of_nat (?n div 4) :: u16) =
      be16 (data ! (csrc_end_of (data ! 0) + 2)) (data ! (csrc_end_of (data ! 0) + 3))"
    unfolding x(3) [OF assms(3)]
    using unat_u16_less [of "be16 (data ! (csrc_end_of (data ! 0) + 2)) (data ! (csrc_end_of (data ! 0) + 3))"]
    by (simp_all del: unat_u16_less)
  have "rp_header_len p = rp_extension_off p + ?n"
    using ok_result [OF parse_ok [OF assms(1)] assms(2)] assms(3) by (auto simp: rtp_layout_def)
  then have "\<And>k. k < rp_extension_off p \<or> rp_extension_off p + ?n \<le> k \<Longrightarrow>
      k < length data \<Longrightarrow> d ! k = data ! k"
    using assms(5) by simp
  moreover have "ext_grown data len (csrc_end_of (data ! 0)) ?n ?n data"
    by (auto simp: ext_grown_def n(3))
  ultimately show "sfu_rtp_packet_parse d len = Some (Accept p)"
    "rtp_payload d p = rtp_payload data p"
    using parse_ext_grown [OF assms(1-3), of ?n data d] assms(1,4) n by simp_all
qed

text \<open>Reading another element gives the same bytes when the walk finds it at the same place.\<close>

lemma read_mid_one_cong:
  assumes "n \<le> length ext" "n' \<le> length ext'"
    and "find_elem j (fst (ext_elems one_byte_step ext' n' 0)) =
         find_elem j (fst (ext_elems one_byte_step ext n 0))"
    and "\<And>q s k. find_elem j (fst (ext_elems one_byte_step ext n 0)) = Accept (q, s) \<Longrightarrow>
         q \<le> k \<Longrightarrow> k < q + s \<Longrightarrow> ext' ! k = ext ! k"
  shows "sfu_rtp_ext_read_mid RTP_EXT_ONE_BYTE_PROFILE ext' n' j c =
         sfu_rtp_ext_read_mid RTP_EXT_ONE_BYTE_PROFILE ext n j c"
  using assms ob.find_bytes [OF assms(1-3) _ assms(4), where m = 1]
  by (auto simp: sfu_rtp_ext_read_mid_def read_mid_one_elems split: ret.splits)

lemma read_mid_two_cong:
  assumes "n \<le> length ext" "n' \<le> length ext'"
    and "find_elem j (fst (ext_elems two_byte_step ext' n' 0)) =
         find_elem j (fst (ext_elems two_byte_step ext n 0))"
    and "\<And>q s k. find_elem j (fst (ext_elems two_byte_step ext n 0)) = Accept (q, s) \<Longrightarrow>
         q \<le> k \<Longrightarrow> k < q + s \<Longrightarrow> ext' ! k = ext ! k"
    and "profile AND 0xFFF0 = RTP_EXT_TWO_BYTE_PROFILE"
  shows "sfu_rtp_ext_read_mid profile ext' n' j c = sfu_rtp_ext_read_mid profile ext n j c"
  using assms tb.find_bytes [OF assms(1-3) _ assms(4), where m = 2]
  by (auto simp: sfu_rtp_ext_read_mid_def read_mid_two_elems split: ret.splits)

lemma elem_head_bits:
  assumes "0 < i" "i \<le> (14 :: u8)" "v < 16"
  shows "drop_bit 4 (push_bit 4 i OR v) = i" "(push_bit 4 i OR v) AND 0x0f = v"
    "push_bit 4 i OR v \<noteq> 0"
proof -
  have "take_bit 4 i = i" "take_bit 4 v = v"
    using assms(2,3) by (auto intro!: take_bit_word_self simp: word_le_nat_alt word_less_nat_alt)
  then have *: "n < 4" if "bit i n \<or> bit v n" for n
    using that by (metis bit_take_bit_iff)
  show d: "drop_bit 4 (push_bit 4 i OR v) = i"
    using * by (intro bit_word_eqI) (auto simp: bit_simps)
  have "take_bit 4 (push_bit 4 i OR v) = v"
    using * by (intro bit_word_eqI) (auto simp: bit_simps)
  then show "(push_bit 4 i OR v) AND 0x0f = v"
    by (simp add: take_bit_eq_mask mask_eq_exp_minus_1)
  show "push_bit 4 i OR v \<noteq> 0"
  proof
    assume "push_bit 4 i OR v = 0"
    with d have "i = 0"
      by simp
    with assms(1) show False
      by simp
  qed
qed

lemma twcc_one_found:
  assumes n: "n \<le> length ext" and i: "0 < i" "i \<le> 14"
    and q: "find_elem i (fst (ext_elems one_byte_step ext n 0)) = Accept (q, 3)"
    and ext': "length ext' = length ext" "ext' ! (q + 1) = ucast (drop_bit 8 seq)"
      "ext' ! (q + 2) = ucast seq" "\<And>k. k \<noteq> q + 1 \<Longrightarrow> k \<noteq> q + 2 \<Longrightarrow> ext' ! k = ext ! k"
  shows "sfu_rtp_ext_read_twcc RTP_EXT_ONE_BYTE_PROFILE ext' n i = Some (Accept seq)"
    "j \<noteq> i \<Longrightarrow> sfu_rtp_ext_read_mid RTP_EXT_ONE_BYTE_PROFILE ext' n j c =
      sfu_rtp_ext_read_mid RTP_EXT_ONE_BYTE_PROFILE ext n j c"
proof -
  obtain h d where m: "3 = h + d" "(q, i, h, d) \<in> set (fst (ext_elems one_byte_step ext n 0))"
    using q ob.find_elems_in by blast
  with ob.elems_bounds [OF m(2)] have hd: "h = 1" "d = 2"
    by (auto simp: one_byte_step_simps)
  have e: "ext_elems one_byte_step ext' n 0 = ext_elems one_byte_step ext n 0"
    using m(2) unfolding hd by (rule ob.elems_overwrite) (intro ext'(4); linarith)
  show "sfu_rtp_ext_read_twcc RTP_EXT_ONE_BYTE_PROFILE ext' n i = Some (Accept seq)"
    using n i ext'(1-3)
    by (simp add: sfu_rtp_ext_read_twcc_def read_twcc_one_elems e q word_neq_0_conv not_less)
  assume j: "j \<noteq> i"
  have "ext' ! k = ext ! k" if "find_elem j (fst (ext_elems one_byte_step ext n 0)) = Accept (q', s')"
      "q' \<le> k" "k < q' + s'" for q' s' k
    by (rule ob.overwrite_others [OF m(2) j _ that]) (intro ext'(4); auto simp: hd)
  with n e ext'(1) show "sfu_rtp_ext_read_mid RTP_EXT_ONE_BYTE_PROFILE ext' n j c =
      sfu_rtp_ext_read_mid RTP_EXT_ONE_BYTE_PROFILE ext n j c"
    by (intro read_mid_one_cong) simp_all
qed

lemma twcc_two_found:
  assumes n: "n \<le> length ext" and i: "0 < i" "i \<le> 14"
    and profile: "profile AND 0xFFF0 = RTP_EXT_TWO_BYTE_PROFILE"
    and q: "find_elem i (fst (ext_elems two_byte_step ext n 0)) = Accept (q, 4)"
    and ext': "length ext' = length ext" "ext' ! (q + 2) = ucast (drop_bit 8 seq)"
      "ext' ! (q + 3) = ucast seq" "\<And>k. k \<noteq> q + 2 \<Longrightarrow> k \<noteq> q + 3 \<Longrightarrow> ext' ! k = ext ! k"
  shows "sfu_rtp_ext_read_twcc profile ext' n i = Some (Accept seq)"
    "j \<noteq> i \<Longrightarrow> sfu_rtp_ext_read_mid profile ext' n j c = sfu_rtp_ext_read_mid profile ext n j c"
proof -
  obtain h d where m: "4 = h + d" "(q, i, h, d) \<in> set (fst (ext_elems two_byte_step ext n 0))"
    using q tb.find_elems_in by blast
  with tb.elems_bounds [OF m(2)] have hd: "h = 2" "d = 2"
    by (auto simp: two_byte_step_simps)
  have e: "ext_elems two_byte_step ext' n 0 = ext_elems two_byte_step ext n 0"
    using m(2) unfolding hd by (rule tb.elems_overwrite) (intro ext'(4); linarith)
  have "profile \<noteq> RTP_EXT_ONE_BYTE_PROFILE"
    using profile by auto
  then show "sfu_rtp_ext_read_twcc profile ext' n i = Some (Accept seq)"
    using n i ext'(1-3) profile
    by (simp add: sfu_rtp_ext_read_twcc_def read_twcc_two_elems e q word_neq_0_conv not_less)
  assume j: "j \<noteq> i"
  have "ext' ! k = ext ! k" if "find_elem j (fst (ext_elems two_byte_step ext n 0)) = Accept (q', s')"
      "q' \<le> k" "k < q' + s'" for q' s' k
    by (rule tb.overwrite_others [OF m(2) j _ that]) (intro ext'(4); auto simp: hd)
  with n e ext'(1) profile show "sfu_rtp_ext_read_mid profile ext' n j c =
      sfu_rtp_ext_read_mid profile ext n j c"
    by (intro read_mid_two_cong) simp_all
qed

lemma twcc_one_append:
  assumes n: "n \<le> length ext" "n' \<le> length ext'" "n + 3 \<le> n'" and i: "0 < i" "i \<le> 14"
    and clean: "snd (ext_elems one_byte_step ext n 0)"
    and none: "find_elem i (fst (ext_elems one_byte_step ext n 0)) = Reject"
    and ext': "\<And>k. k < n \<Longrightarrow> ext' ! k = ext ! k"
      "ext' ! n = push_bit 4 i OR 1" "ext' ! (n + 1) = ucast (drop_bit 8 seq)"
      "ext' ! (n + 2) = ucast seq" "\<And>k. n + 3 \<le> k \<Longrightarrow> k < n' \<Longrightarrow> ext' ! k = 0"
  shows "sfu_rtp_ext_read_twcc RTP_EXT_ONE_BYTE_PROFILE ext' n' i = Some (Accept seq)"
    "j \<noteq> i \<Longrightarrow> sfu_rtp_ext_read_mid RTP_EXT_ONE_BYTE_PROFILE ext' n' j c =
      sfu_rtp_ext_read_mid RTP_EXT_ONE_BYTE_PROFILE ext n j c"
proof -
  have e: "ext_elems one_byte_step ext' n' 0 = (fst (ext_elems one_byte_step ext n 0) @ [(n, i, 1, 2)], True)"
  proof (rule ob.elems_append [OF clean _ ext'(1)])
    show "one_byte_step ext' n' n = Ext_Elem i 1 2"
      using i n elem_head_bits [of i 1] by (auto simp: one_byte_step_simps ext')
  qed (use n ext' in auto)
  show "sfu_rtp_ext_read_twcc RTP_EXT_ONE_BYTE_PROFILE ext' n' i = Some (Accept seq)"
    using n i none by (simp add: sfu_rtp_ext_read_twcc_def read_twcc_one_elems e find_elem_append
        ext' word_neq_0_conv not_less)
  assume "j \<noteq> i"
  with n e show "sfu_rtp_ext_read_mid RTP_EXT_ONE_BYTE_PROFILE ext' n' j c =
      sfu_rtp_ext_read_mid RTP_EXT_ONE_BYTE_PROFILE ext n j c"
    by (intro read_mid_one_cong ext'(1)) (auto simp: find_elem_append dest: ob.find_less)
qed

lemma twcc_two_append:
  assumes n: "n \<le> length ext" "n + 4 \<le> length ext'" and i: "0 < i" "i \<le> 14"
    and profile: "profile AND 0xFFF0 = RTP_EXT_TWO_BYTE_PROFILE"
    and clean: "snd (ext_elems two_byte_step ext n 0)"
    and none: "find_elem i (fst (ext_elems two_byte_step ext n 0)) = Reject"
    and ext': "\<And>k. k < n \<Longrightarrow> ext' ! k = ext ! k"
      "ext' ! n = i" "ext' ! (n + 1) = 2" "ext' ! (n + 2) = ucast (drop_bit 8 seq)"
      "ext' ! (n + 3) = ucast seq"
  shows "sfu_rtp_ext_read_twcc profile ext' (n + 4) i = Some (Accept seq)"
    "j \<noteq> i \<Longrightarrow> sfu_rtp_ext_read_mid profile ext' (n + 4) j c = sfu_rtp_ext_read_mid profile ext n j c"
proof -
  have e: "ext_elems two_byte_step ext' (n + 4) 0 =
      (fst (ext_elems two_byte_step ext n 0) @ [(n, i, 2, 2)], True)"
  proof (rule tb.elems_append [OF clean _ ext'(1)])
    show "two_byte_step ext' (n + 4) n = Ext_Elem i 2 2"
      using i by (auto simp: two_byte_step_simps ext')
  qed auto
  have "profile \<noteq> RTP_EXT_ONE_BYTE_PROFILE"
    using profile by auto
  then show "sfu_rtp_ext_read_twcc profile ext' (n + 4) i = Some (Accept seq)"
    using n i none profile
    by (simp add: sfu_rtp_ext_read_twcc_def read_twcc_two_elems e find_elem_append
        ext' word_neq_0_conv not_less)
  assume "j \<noteq> i"
  with n e profile show "sfu_rtp_ext_read_mid profile ext' (n + 4) j c = sfu_rtp_ext_read_mid profile ext n j c"
    by (intro read_mid_two_cong ext'(1)) (auto simp: find_elem_append dest: tb.find_less)
qed

text \<open>Two views of one packet that differ in the extension block only.\<close>

definition rtp_same_media :: "bytes \<Rightarrow> sfu_rtp_packet \<Rightarrow> bytes \<Rightarrow> sfu_rtp_packet \<Rightarrow> bool" where
  "rtp_same_media data p data' p' \<longleftrightarrow>
     p'\<lparr>rp_extension := rp_extension p, rp_extension_profile := rp_extension_profile p,
        rp_extension_off := rp_extension_off p, rp_extension_length := rp_extension_length p,
        rp_header_len := rp_header_len p\<rparr> = p \<and>
     rtp_payload data' p' = rtp_payload data p"

text \<open>The bytes of the extension block.\<close>

definition rtp_ext_data :: "bytes \<Rightarrow> sfu_rtp_packet \<Rightarrow> bytes" where
  "rtp_ext_data data p = drop (rp_extension_off p) data"

text \<open>The walk over the extension block meets no truncated and no reserved element.\<close>

definition rtp_ext_clean :: "bytes \<Rightarrow> sfu_rtp_packet \<Rightarrow> bool" where
  "rtp_ext_clean data p \<longleftrightarrow>
     (if rp_extension_profile p = RTP_EXT_ONE_BYTE_PROFILE
      then snd (ext_elems one_byte_step (rtp_ext_data data p) (rp_extension_length p) 0)
      else snd (ext_elems two_byte_step (rtp_ext_data data p) (rp_extension_length p) 0))"

definition twcc_stamped ::
    "bytes \<Rightarrow> sfu_rtp_packet \<Rightarrow> u8 \<Rightarrow> u16 \<Rightarrow> bytes \<Rightarrow> nat \<Rightarrow> bool" where
  "twcc_stamped data p i seq d len' \<longleftrightarrow>
     (\<exists>p'. sfu_rtp_packet_parse d len' = Some (Accept p') \<and> rtp_same_media data p d p' \<and>
        sfu_rtp_ext_read_twcc (rp_extension_profile p') (rtp_ext_data d p')
          (rp_extension_length p') i = Some (Accept seq) \<and>
        (rp_extension p \<longrightarrow> rp_extension_profile p' = rp_extension_profile p \<and>
          (\<forall>j c. j \<noteq> i \<longrightarrow>
             sfu_rtp_ext_read_mid (rp_extension_profile p') (rtp_ext_data d p')
               (rp_extension_length p') j c =
             sfu_rtp_ext_read_mid (rp_extension_profile p) (rtp_ext_data data p)
               (rp_extension_length p) j c)))"

lemma ext_grown_bytes:
  assumes "ext_grown data len e n n' g" "off = e + 4" "n \<le> n'" "off + n' \<le> length data"
  shows "k < n \<Longrightarrow> g ! (off + k) = data ! (off + k)"
    "n \<le> k \<Longrightarrow> k < n' \<Longrightarrow> g ! (off + k) = 0"
  using assms by (auto simp: ext_grown_def)

lemma stamped_grown:
  assumes len: "len \<le> length data" and parse: "sfu_rtp_packet_parse data len = Some (Accept p)"
    and x: "rp_extension p"
    and g: "ext_grown data len (csrc_end_of (data ! 0)) (rp_extension_length p) n' g"
    and n': "rp_extension_length p \<le> n'" "n' mod 4 = 0" "n' div 4 \<le> 65535"
      "len + (n' - rp_extension_length p) \<le> length data"
    and d: "length d = length data"
      "\<And>k. k < rp_extension_off p \<or> rp_extension_off p + n' \<le> k \<Longrightarrow> k < length data \<Longrightarrow> d ! k = g ! k"
    and rd: "sfu_rtp_ext_read_twcc (rp_extension_profile p) (drop (rp_extension_off p) d) n' i =
        Some (Accept seq)"
      "\<And>j c. j \<noteq> i \<Longrightarrow>
        sfu_rtp_ext_read_mid (rp_extension_profile p) (drop (rp_extension_off p) d) n' j c =
        sfu_rtp_ext_read_mid (rp_extension_profile p) (rtp_ext_data data p) (rp_extension_length p) j c"
  shows "twcc_stamped data p i seq d (len + (n' - rp_extension_length p))"
proof -
  let ?p = "p\<lparr>rp_extension_length := n',
    rp_header_len := rp_header_len p + (n' - rp_extension_length p)\<rparr>"
  note * = parse_ext_grown [OF len parse x g n' d]
  moreover have "rtp_same_media data p d ?p"
    using *(2) by (simp add: rtp_same_media_def)
  ultimately show ?thesis
    unfolding twcc_stamped_def using rd by (intro exI [of _ ?p]) (simp add: rtp_ext_data_def)
qed

lemma stamped_kept:
  assumes len: "len \<le> length data" and parse: "sfu_rtp_packet_parse data len = Some (Accept p)"
    and x: "rp_extension p" and d: "length d = length data"
      "\<And>k. k < rp_extension_off p \<or> rp_header_len p \<le> k \<Longrightarrow> k < length data \<Longrightarrow> d ! k = data ! k"
    and rd: "sfu_rtp_ext_read_twcc (rp_extension_profile p) (rtp_ext_data d p)
        (rp_extension_length p) i = Some (Accept seq)"
      "\<And>j c. j \<noteq> i \<Longrightarrow> sfu_rtp_ext_read_mid (rp_extension_profile p) (rtp_ext_data d p)
        (rp_extension_length p) j c =
        sfu_rtp_ext_read_mid (rp_extension_profile p) (rtp_ext_data data p) (rp_extension_length p) j c"
  shows "twcc_stamped data p i seq d len"
  using parse_ext_kept [OF len parse x d] rd
  unfolding twcc_stamped_def by (intro exI [of _ p]) (simp add: rtp_same_media_def)

lemma parsed_offsets:
  assumes "len \<le> length data" "sfu_rtp_packet_parse data len = Some (Accept p)" "rp_extension p"
  shows "rp_extension_off p = csrc_end_of (data ! 0) + 4"
    "rp_header_len p = csrc_end_of (data ! 0) + 4 + rp_extension_length p"
    "csrc_end_of (data ! 0) + 4 + rp_extension_length p \<le> len"
    "rp_extension_length p \<le> length (rtp_ext_data data p)"
proof -
  have "rtp_layout data len p"
    using ok_result [OF parse_ok [OF assms(1)] assms(2)] by simp
  then show o: "rp_extension_off p = csrc_end_of (data ! 0) + 4"
    "rp_header_len p = csrc_end_of (data ! 0) + 4 + rp_extension_length p"
    "csrc_end_of (data ! 0) + 4 + rp_extension_length p \<le> len"
    using assms(3) parse_extension_fields(1) [OF assms(1,2)] by (auto simp: rtp_layout_def)
  show "rp_extension_length p \<le> length (rtp_ext_data data p)"
    using o assms(1) by (simp add: rtp_ext_data_def)
qed

lemma twcc_one_stamped:
  assumes "len \<le> cap" "cap \<le> length data" "sfu_rtp_packet_parse data len = Some (Accept p)"
    and x: "rp_extension p" and profile: "rp_extension_profile p = RTP_EXT_ONE_BYTE_PROFILE"
    and "rtp_ext_clean data p" and i: "0 < i" "i \<le> 14"
    and w: "write_twcc_one data len cap i seq (csrc_end_of (data ! 0)) (rp_extension_length p) =
      Some (d, Accept len')"
  shows "twcc_stamped data p i seq d len'"
proof -
  let ?n = "rp_extension_length p" and ?off = "rp_extension_off p"
  let ?es = "fst (ext_elems one_byte_step (rtp_ext_data data p) ?n 0)"
  have len: "len \<le> length data"
    using assms(1,2) by simp
  note o = parsed_offsets [OF len assms(3) x]
  have clean: "snd (ext_elems one_byte_step (rtp_ext_data data p) ?n 0)"
    using profile assms(6) by (simp add: rtp_ext_clean_def)
  note r = ok_result [OF ok_write_twcc_one [OF o(3) assms(1,2)] w, unfolded o(1) [symmetric], simplified]
  show ?thesis
  proof (cases "find_elem i ?es")
    case Reject
    define n' where "n' = align4 (?n + 3)"
    have n': "?n + 3 \<le> n'" "n' mod 4 = 0"
      using align4_bounds by (auto simp: n'_def)
    from Reject r obtain g where g: "ext_grown data len (csrc_end_of (data ! 0)) ?n n' g"
        "n' div 4 \<le> 65535" "len' = len + (n' - ?n)" "len' \<le> cap"
        "d = g[?off + ?n := push_bit 4 i OR 1, ?off + ?n + 1 := ucast (drop_bit 8 seq),
               ?off + ?n + 2 := ucast seq]"
      by (auto simp: rtp_ext_data_def o(1) n'_def)
    have g': "length g = length data" and off: "?off + n' \<le> length data"
      using g(1,3,4) n'(1) o(1,3) assms(2) by (auto simp: ext_grown_length)
    have d: "length d = length data"
      using g' by (simp add: g(5))
    have b: "d ! (?off + k) = (if k = ?n then push_bit 4 i OR 1
        else if k = ?n + 1 then ucast (drop_bit 8 seq) else if k = ?n + 2 then ucast seq
        else g ! (?off + k))" if "k < n'" for k
      using that off g' n'(1) by (simp add: g(5) nth_list_update)
    note gb = ext_grown_bytes [OF g(1) o(1) _ off]
    have rd: "sfu_rtp_ext_read_twcc RTP_EXT_ONE_BYTE_PROFILE (drop ?off d) n' i = Some (Accept seq)"
      "j \<noteq> i \<Longrightarrow> sfu_rtp_ext_read_mid RTP_EXT_ONE_BYTE_PROFILE (drop ?off d) n' j c =
        sfu_rtp_ext_read_mid RTP_EXT_ONE_BYTE_PROFILE (rtp_ext_data data p) ?n j c" for j c
      by (rule twcc_one_append [OF o(4) _ n'(1) i clean Reject];
          use off d n'(1) gb in \<open>simp add: b rtp_ext_data_def\<close>)+
    show ?thesis
      unfolding g(3) using n' g g' assms(2) rd
      by (intro stamped_grown [OF len assms(3) x g(1)]) (auto simp: profile nth_list_update)
  next
    case (Accept qs)
    then obtain q where q: "find_elem i ?es = Accept (q, 3)" "len' = len"
      "d = data[?off + q + 1 := ucast (drop_bit 8 seq), ?off + q + 2 := ucast seq]"
      using r by (cases qs) (auto simp: rtp_ext_data_def)
    have q': "q + 2 < ?n"
      using ob.find_less [OF q(1), of "q + 2"] by simp
    have rd: "sfu_rtp_ext_read_twcc RTP_EXT_ONE_BYTE_PROFILE (rtp_ext_data d p) ?n i = Some (Accept seq)"
      "j \<noteq> i \<Longrightarrow> sfu_rtp_ext_read_mid RTP_EXT_ONE_BYTE_PROFILE (rtp_ext_data d p) ?n j c =
        sfu_rtp_ext_read_mid RTP_EXT_ONE_BYTE_PROFILE (rtp_ext_data data p) ?n j c" for j c
      by (rule twcc_one_found [OF o(4) i q(1)];
          use o len q' in \<open>simp add: q(3) rtp_ext_data_def nth_list_update\<close>)+
    show ?thesis
      unfolding q(2) using o len q' rd
      by (intro stamped_kept [OF len assms(3) x]) (auto simp: profile q(3) nth_list_update)
  qed
qed

lemma twcc_two_stamped:
  assumes "len \<le> cap" "cap \<le> length data" "sfu_rtp_packet_parse data len = Some (Accept p)"
    and x: "rp_extension p" and profile: "rp_extension_profile p AND 0xFFF0 = RTP_EXT_TWO_BYTE_PROFILE"
    and "rtp_ext_clean data p" and i: "0 < i" "i \<le> 14"
    and w: "write_twcc_two data len cap i seq (csrc_end_of (data ! 0)) (rp_extension_length p) =
      Some (d, Accept len')"
  shows "twcc_stamped data p i seq d len'"
proof -
  let ?n = "rp_extension_length p" and ?off = "rp_extension_off p"
  let ?es = "fst (ext_elems two_byte_step (rtp_ext_data data p) ?n 0)"
  have len: "len \<le> length data"
    using assms(1,2) by simp
  note o = parsed_offsets [OF len assms(3) x]
  have clean: "snd (ext_elems two_byte_step (rtp_ext_data data p) ?n 0)"
  proof -
    have "rp_extension_profile p \<noteq> RTP_EXT_ONE_BYTE_PROFILE"
      by (rule notI) (use profile in simp)
    then show ?thesis
      using assms(6) by (simp add: rtp_ext_clean_def)
  qed
  note r = ok_result [OF ok_write_twcc_two [OF o(3) assms(1,2)] w, unfolded o(1) [symmetric], simplified]
  show ?thesis
  proof (cases "find_elem i ?es")
    case Reject
    from Reject r obtain g where g: "ext_grown data len (csrc_end_of (data ! 0)) ?n (?n + 4) g"
        "(?n + 4) div 4 \<le> 65535" "len' = len + (?n + 4 - ?n)" "len' \<le> cap"
        "d = g[?off + ?n := i, ?off + ?n + 1 := 2, ?off + ?n + 2 := ucast (drop_bit 8 seq),
               ?off + ?n + 3 := ucast seq]"
      by (auto simp: rtp_ext_data_def o(1))
    have n4: "?n mod 4 = 0"
      using parse_extension_fields(3) [OF len assms(3) x] by simp
    have g': "length g = length data" and off: "?off + (?n + 4) \<le> length data"
      using g(1,3,4) o(1,3) assms(2) by (auto simp: ext_grown_length)
    have d: "length d = length data"
      using g' by (simp add: g(5))
    have b: "d ! (?off + k) = (if k = ?n then i else if k = ?n + 1 then 2
        else if k = ?n + 2 then ucast (drop_bit 8 seq) else if k = ?n + 3 then ucast seq
        else g ! (?off + k))" if "k < ?n + 4" for k
      using that off g' by (simp add: g(5) nth_list_update)
    note gb = ext_grown_bytes [OF g(1) o(1) _ off]
    have rd: "sfu_rtp_ext_read_twcc (rp_extension_profile p) (drop ?off d) (?n + 4) i = Some (Accept seq)"
      "j \<noteq> i \<Longrightarrow> sfu_rtp_ext_read_mid (rp_extension_profile p) (drop ?off d) (?n + 4) j c =
        sfu_rtp_ext_read_mid (rp_extension_profile p) (rtp_ext_data data p) ?n j c" for j c
      by (rule twcc_two_append [OF o(4) _ i profile clean Reject];
          use off d gb in \<open>simp add: b rtp_ext_data_def\<close>)+
    show ?thesis
      unfolding g(3) using g g' assms(2) rd
      by (intro stamped_grown [OF len assms(3) x g(1)]) (auto simp: n4 nth_list_update)
  next
    case (Accept qs)
    then obtain q where q: "find_elem i ?es = Accept (q, 4)" "len' = len"
      "d = data[?off + q + 2 := ucast (drop_bit 8 seq), ?off + q + 3 := ucast seq]"
      using r by (cases qs) (auto simp: rtp_ext_data_def)
    have q': "q + 3 < ?n"
      using tb.find_less [OF q(1), of "q + 3"] by simp
    have rd: "sfu_rtp_ext_read_twcc (rp_extension_profile p) (rtp_ext_data d p) ?n i = Some (Accept seq)"
      "j \<noteq> i \<Longrightarrow> sfu_rtp_ext_read_mid (rp_extension_profile p) (rtp_ext_data d p) ?n j c =
        sfu_rtp_ext_read_mid (rp_extension_profile p) (rtp_ext_data data p) ?n j c" for j c
      by (rule twcc_two_found [OF o(4) i profile q(1)];
          use o len q' in \<open>simp add: q(3) rtp_ext_data_def nth_list_update\<close>)+
    show ?thesis
      unfolding q(2) using o len q' rd
      by (intro stamped_kept [OF len assms(3) x]) (auto simp: q(3) nth_list_update)
  qed
qed


lemma new_block_nth:
  assumes "e \<le> len" "len + 8 \<le> length data" "k < length data"
  shows "(overwrite data (e + 8) (take (len - e) (drop e data)))
      [0 := b0, e := b1, e + 1 := b2, e + 2 := b3, e + 3 := b4, e + 4 := b5, e + 5 := b6,
       e + 6 := b7, e + 7 := b8] ! k =
    (if k = e + 7 then b8 else if k = e + 6 then b7 else if k = e + 5 then b6
     else if k = e + 4 then b5 else if k = e + 3 then b4 else if k = e + 2 then b3
     else if k = e + 1 then b2 else if k = e then b1 else if k = 0 then b0
     else if e + 8 \<le> k \<and> k < len + 8 then data ! (k - 8) else data ! k)"
proof -
  let ?m = "overwrite data (e + 8) (take (len - e) (drop e data))"
  have "length ?m = length data"
    using assms by simp
  moreover have "?m ! k = (if e + 8 \<le> k \<and> k < len + 8 then data ! (k - 8) else data ! k)"
    using assms by (auto simp: nth_overwrite)
  ultimately show ?thesis
    using assms(3) by (simp only: nth_upd length_list_update)
qed

lemma twcc_new_stamped:
  assumes "len \<le> cap" "cap \<le> length data" "sfu_rtp_packet_parse data len = Some (Accept p)"
    and x: "\<not> rp_extension p" and i: "0 < i" "i \<le> 14"
    and w: "write_twcc_new data len cap i seq = Some (d, Accept len')"
  shows "twcc_stamped data p i seq d len'"
proof -
  let ?e = "csrc_end_of (data ! 0)"
  have len: "len \<le> length data"
    using assms(1,2) by simp
  note f = parse_fields [OF len assms(3)]
  note r0 = ok_result [OF ok_write_twcc_new [OF f(1) assms(1,2)] w, unfolded Let_def, simplified]
  then have r: "len' = len + 8" "len' \<le> cap" "length d = length data" "?e \<le> len"
    "d = (overwrite data (?e + 8) (take (len - ?e) (drop ?e data)))
            [0 := data ! 0 OR 0x10, ?e := 0xBE, ?e + 1 := 0xDE, ?e + 2 := 0, ?e + 3 := 1,
             ?e + 4 := push_bit 4 i OR 1, ?e + 5 := ucast (drop_bit 8 seq), ?e + 6 := ucast seq,
             ?e + 7 := 0]"
    using r0 by blast+
  have e: "?e = 12 + 4 * unat (rp_csrc_count p)" "rp_header_len p = ?e"
    using parse_extension_fields(1) [OF len assms(3)] x
      ok_result [OF parse_ok [OF len] assms(3)] by (simp_all add: rtp_layout_def)
  have e0: "12 \<le> ?e"
    using e(1) by simp
  have b: "d ! k = (if k = ?e + 7 then 0 else if k = ?e + 6 then ucast seq
      else if k = ?e + 5 then ucast (drop_bit 8 seq) else if k = ?e + 4 then push_bit 4 i OR 1
      else if k = ?e + 3 then 1 else if k = ?e + 2 then 0 else if k = ?e + 1 then 0xDE
      else if k = ?e then 0xBE else if k = 0 then data ! 0 OR 0x10
      else if ?e + 8 \<le> k \<and> k < len + 8 then data ! (k - 8) else data ! k)"
    if "k < length data" for k
    unfolding r(5) by (rule new_block_nth) (use that r assms(2) in simp_all)
  have b0: "d ! 0 = data ! 0 OR 0x10"
    using b [of 0] e0 r(4) len by (cases "data = []") simp_all
  let ?p = "p\<lparr>rp_extension := True, rp_extension_profile := RTP_EXT_ONE_BYTE_PROFILE,
    rp_extension_off := ?e + 4, rp_extension_length := 4, rp_header_len := rp_header_len p + 8\<rparr>"
  have c: "sfu_rtp_packet_parse d (len + 8) = Some (Accept ?p)" "rtp_payload d ?p = rtp_payload data p"
    by (rule parse_ext_change [OF len assms(3) _ r(3) e(1)];
        use r(1-4) e(2) e0 assms(2) in \<open>simp add: b b0 be16_def\<close>)+
  have "sfu_rtp_ext_read_twcc RTP_EXT_ONE_BYTE_PROFILE (drop (?e + 4) d) 4 i = Some (Accept seq)"
    by (rule twcc_one_append [of 0 "[]"];
        use i r(1-4) assms(2) in \<open>simp add: b\<close>)
  with c show ?thesis
    unfolding twcc_stamped_def r(1) using x
    by (intro exI [of _ ?p]) (simp add: rtp_same_media_def rtp_ext_data_def)
qed

definition write_contract :: "bytes \<Rightarrow> nat \<Rightarrow> nat \<Rightarrow> bytes \<times> nat ret \<Rightarrow> bool" where
  "write_contract data len cap out \<longleftrightarrow> length (fst out) = length data \<and>
     (case snd out of Reject \<Rightarrow> fst out = data | Accept len' \<Rightarrow> len \<le> len' \<and> len' \<le> cap)"

lemma write_twcc_contract:
  assumes "12 \<le> len" "len \<le> cap" "cap \<le> length data"
  shows "off + 4 + n \<le> len \<Longrightarrow> ok (write_twcc_one data len cap i seq off n) (write_contract data len cap)"
    and "off + 4 + n \<le> len \<Longrightarrow> ok (write_twcc_two data len cap i seq off n) (write_contract data len cap)"
    and "ok (write_twcc_new data len cap i seq) (write_contract data len cap)"
proof -
  assume o: "off + 4 + n \<le> len"
  show "ok (write_twcc_one data len cap i seq off n) (write_contract data len cap)"
    by (rule ok_mono [OF ok_write_twcc_one [OF o assms(2,3)]],
        cases "find_elem i (fst (ext_elems one_byte_step (drop (off + 4) data) n 0))")
      (use assms(2) in \<open>simp_all add: write_contract_def case_prod_beta split: ret.splits\<close>)
  show "ok (write_twcc_two data len cap i seq off n) (write_contract data len cap)"
    by (rule ok_mono [OF ok_write_twcc_two [OF o assms(2,3)]],
        cases "find_elem i (fst (ext_elems two_byte_step (drop (off + 4) data) n 0))")
      (use assms(2) in \<open>simp_all add: write_contract_def case_prod_beta split: ret.splits\<close>)
next
  show "ok (write_twcc_new data len cap i seq) (write_contract data len cap)"
    by (rule ok_mono [OF ok_write_twcc_new [OF assms]])
      (auto simp: write_contract_def split: ret.splits)
qed

lemma write_twcc_ok:
  assumes "cap \<le> length data"
  shows "ok (sfu_rtp_ext_write_twcc data len cap i seq) (write_contract data len cap)"
proof (cases "i = 0 \<or> i > 14 \<or> len < 12 \<or> len > cap")
  case True
  then show ?thesis
    by (simp add: sfu_rtp_ext_write_twcc_def ok_simps write_contract_def)
next
  case False
  then have len: "12 \<le> len" "len \<le> cap" "len \<le> length data"
    using assms by auto
  note c = write_twcc_contract [OF len(1,2) assms]
  show ?thesis
    unfolding sfu_rtp_ext_write_twcc_def if_not_P [OF False]
  proof (rule ok_bindI [OF ok_ext_block [OF len(3)]])
    fix r
    assume r: "case r of Reject \<Rightarrow> True
      | Accept (off, n) \<Rightarrow> off = csrc_end_of (data ! 0) \<and> 12 \<le> off \<and> off + 4 + n \<le> len \<and>
        n = unat (be16 (data ! (off + 2)) (data ! (off + 3))) * 4 \<and>
        drop_bit 6 (data ! 0) = 2 \<and> data ! 0 AND 0x10 \<noteq> 0 \<and> 12 \<le> len"
    show "ok (case r of Reject \<Rightarrow> write_twcc_new data len cap i seq
        | Accept (ext_off, ext_len) \<Rightarrow> do {
            profile \<leftarrow> sfu_read_be16 data ext_off;
            if profile = RTP_EXT_ONE_BYTE_PROFILE
            then write_twcc_one data len cap i seq ext_off ext_len
            else if profile AND 0xFFF0 = RTP_EXT_TWO_BYTE_PROFILE
            then write_twcc_two data len cap i seq ext_off ext_len
            else Some (data, Reject)
          }) (write_contract data len cap)"
    proof (cases r)
      case Reject
      then show ?thesis
        using c(3) by simp
    next
      case (Accept v)
      obtain off n where v: "v = (off, n)"
        by (cases v)
      have "off + 4 + n \<le> len"
        using r unfolding Accept v ret.case prod.case by blast
      then show ?thesis
        using c(1,2) [of off n] Accept v len
        by (simp add: ok_simps write_contract_def [of data len cap "(data, Reject)"])
    qed
  qed
qed

text \<open>A packet with a one-byte extension block, in a buffer with room for more.\<close>

definition sample_ext :: bytes where
  "sample_ext = [0x90, 96, 0, 7, 0, 0, 0, 0, 0, 0, 0, 1, 0xBE, 0xDE, 0, 1, 0x10, 0x61, 0, 0,
     0xAA, 0xBB, 0, 0, 0, 0, 0, 0]"
definition sample_ext_view :: sfu_rtp_packet where
  "sample_ext_view = \<lparr>rp_version = 2, rp_padding = False, rp_extension = True, rp_csrc_count = 0,
     rp_marker = False, rp_payload_type = 96, rp_sequence_number = 7, rp_timestamp = 0,
     rp_ssrc = 1, rp_extension_profile = 0xBEDE, rp_extension_off = 16, rp_extension_length = 4,
     rp_header_len = 20, rp_payload_len = 2\<rparr>"

lemma sample_ext_parse: "sfu_rtp_packet_parse sample_ext 22 = Some (Accept sample_ext_view)"
  by (simp add: sfu_rtp_packet_parse_def rtp_parse_tail_def rtp_parse_extension_def
        sample_ext_def sample_ext_view_def be16_def be32_def Let_def)
lemma sample_ext_write:
  "\<exists>d. sfu_rtp_ext_write_twcc sample_ext 22 28 3 0x1234 = Some (d, Accept 26)"
  by (simp add: sfu_rtp_ext_write_twcc_def rtp_ext_block_def rtp_csrc_end_def write_twcc_one_def
     one_byte_find_def one_byte_find_from.simps ext_block_grow_def align4_def mem_move_def mem_set_def wr_bytes_def overwrite_def
        sample_ext_def be16_def Let_def)
section \<open>Properties\<close>

text \<open>Property C30.  Stamping a transport-wide sequence number never writes outside the
  packet's buffer, whatever the bytes of the packet are: a refused packet is left as it
  was, and an accepted one still fits in the capacity.\<close>

theorem write_twcc_safe:
  assumes "cap \<le> length data"
  shows "\<exists>d r. sfu_rtp_ext_write_twcc data len cap i seq = Some (d, r) \<and>
    length d = length data \<and>
    (case r of Reject \<Rightarrow> d = data | Accept len' \<Rightarrow> len \<le> len' \<and> len' \<le> cap)"
  using write_twcc_ok [OF assms, of len i seq] by (auto simp: ok_def write_contract_def split: ret.splits)

theorem write_twcc_safe_witness:
  "\<exists>d. sfu_rtp_ext_write_twcc sample_ext 22 28 3 0x1234 = Some (d, Accept 26) \<and> length d = 28"
proof -
  have "28 \<le> length sample_ext"
    by (simp add: sample_ext_def)
  from write_twcc_safe [OF this, where len = 22 and i = 3 and seq = "0x1234"] sample_ext_write show ?thesis
    by (auto simp: sample_ext_def)
qed



end
