(* ===== verification/Rtp_Build.thy ===== *)
theory Rtp_Build
  imports Rtp_Ext_Write
begin

text \<open>
  The two packet builders: padding-only packets for bandwidth probes
  (\<^verbatim>\<open>src/src/rtp/rtp_padding.c\<close>) and RFC 4588 retransmissions
  (\<^verbatim>\<open>src/src/rtp/rtx_build.c\<close>).  Both return the output buffer also when they fail.
\<close>

section \<open>Padding packets\<close>

abbreviation SFU_RTP_PADDING_DEFAULT_BYTES :: u16 where
  "SFU_RTP_PADDING_DEFAULT_BYTES \<equiv> 224"

abbreviation SFU_RTP_PADDING_MAX_BYTES :: u16 where
  "SFU_RTP_PADDING_MAX_BYTES \<equiv> 255"

definition rtp_write_fixed_header :: "bytes \<Rightarrow> u8 \<Rightarrow> u16 \<Rightarrow> u32 \<Rightarrow> u32 \<Rightarrow> bytes option" where
  "rtp_write_fixed_header out payload_type seq timestamp ssrc = do {
     out \<leftarrow> wr out 0 0x80;
     out \<leftarrow> wr out 1 (payload_type AND 0x7f);
     out \<leftarrow> sfu_write_be16 out 2 seq;
     out \<leftarrow> sfu_write_be32 out 4 timestamp;
     sfu_write_be32 out 8 ssrc
   }"

definition sfu_rtp_padding_build ::
    "bytes \<Rightarrow> nat \<Rightarrow> u8 \<Rightarrow> u16 \<Rightarrow> u32 \<Rightarrow> u32 \<Rightarrow> u16 \<Rightarrow> u8 \<Rightarrow> u16 \<Rightarrow> (bytes \<times> nat ret) option" where
  "sfu_rtp_padding_build out out_cap payload_type seq timestamp ssrc padding_bytes
       twcc_ext_id twcc_seq =
     (if payload_type > 127 \<or> ssrc = 0 then Some (out, Reject)
      else if twcc_ext_id > 14 then Some (out, Reject)
      else do {
        let padding_bytes = (if padding_bytes = 0 then SFU_RTP_PADDING_DEFAULT_BYTES else padding_bytes);
        if padding_bytes > SFU_RTP_PADDING_MAX_BYTES then Some (out, Reject)
        else if RTP_FIXED_HEADER_LEN > out_cap then Some (out, Reject)
        else do {
          out \<leftarrow> rtp_write_fixed_header out payload_type seq timestamp ssrc;
          (out, ext) \<leftarrow> (if twcc_ext_id > 0
            then sfu_rtp_ext_write_twcc out RTP_FIXED_HEADER_LEN out_cap twcc_ext_id twcc_seq
            else Some (out, Accept RTP_FIXED_HEADER_LEN));
          case ext of
            Reject \<Rightarrow> Some (out, Reject)
          | Accept header_len \<Rightarrow>
              if header_len + unat padding_bytes > out_cap then Some (out, Reject)
              else do {
                b0 \<leftarrow> rd out 0;
                out \<leftarrow> wr out 0 (b0 OR 0x20);
                out \<leftarrow> mem_set out header_len (unat padding_bytes);
                out \<leftarrow> wr out (header_len + unat padding_bytes - 1) (ucast padding_bytes);
                Some (out, Accept (header_len + unat padding_bytes))
              }
        }
      })"

lemma write_twcc_bare:
  assumes "20 \<le> cap" "cap \<le> length d" "d ! 0 = 0x80" "0 < i" "i \<le> 14"
  shows "sfu_rtp_ext_write_twcc d 12 cap i s = Some (d[0 := 0x90, 12 := 0xBE, 13 := 0xDE,
    14 := 0, 15 := 1, 16 := push_bit 4 i OR 1, 17 := ucast (drop_bit 8 s), 18 := ucast s,
    19 := 0], Accept 20)"
proof -
  have d: "d \<noteq> []" and ov: "overwrite d 20 [] = d"
    using assms by (auto simp: overwrite_def)
  have *: "(48862 :: u8) = 0xDE"
    by simp
  have "\<not> 14 < i" "i \<noteq> 0"
    using assms by auto
  with assms d ov show ?thesis
    by (simp add: sfu_rtp_ext_write_twcc_def rtp_ext_block_def rtp_csrc_end_def write_twcc_new_def
        mem_move_def Let_def *)
qed


text \<open>The bytes of a padding packet: header, optional extension block, padding.\<close>

definition padding_header :: "u8 \<Rightarrow> u16 \<Rightarrow> u32 \<Rightarrow> u32 \<Rightarrow> u8 \<Rightarrow> u16 \<Rightarrow> bytes" where
  "padding_header pt seq ts ssrc i tseq =
     [if i = 0 then 0xA0 else 0xB0, pt, ucast (drop_bit 8 seq), ucast seq,
      ucast (drop_bit 24 ts), ucast (drop_bit 16 ts), ucast (drop_bit 8 ts), ucast ts,
      ucast (drop_bit 24 ssrc), ucast (drop_bit 16 ssrc), ucast (drop_bit 8 ssrc), ucast ssrc] @
     (if i = 0 then [] else [0xBE, 0xDE, 0, 1, push_bit 4 i OR 1, ucast (drop_bit 8 tseq), ucast tseq, 0])"

section \<open>Retransmissions\<close>

definition sfu_rtx_build ::
    "bytes \<Rightarrow> nat \<Rightarrow> u8 \<Rightarrow> u16 \<Rightarrow> u32 \<Rightarrow> bytes \<Rightarrow> nat \<Rightarrow> (bytes \<times> nat ret) option" where
  "sfu_rtx_build orig orig_len rtx_pt rtx_seq rtx_ssrc out out_cap =
     (if rtx_pt > 127 then Some (out, Reject)
      else do {
        parsed \<leftarrow> sfu_rtp_packet_parse orig orig_len;
        case parsed of
          Reject \<Rightarrow> Some (out, Reject)
        | Accept packet \<Rightarrow>
            if orig_len < rp_header_len packet \<or> orig_len > SIZE_MAX - 2 \<or>
               rp_payload_len packet > SIZE_MAX - rp_header_len packet - 2
            then Some (out, Reject)
            else do {
              let built_len = rp_header_len packet + 2 + rp_payload_len packet;
              if orig_len + 2 > out_cap then Some (out, Reject)
              else do {
                hdr \<leftarrow> rd_bytes orig 0 (rp_header_len packet);
                out \<leftarrow> wr_bytes out 0 hdr;
                b0 \<leftarrow> rd out 0;
                out \<leftarrow> wr out 0 (b0 AND NOT 0x20);
                r \<leftarrow> sfu_rtp_packet_set_pt out (rp_header_len packet) rtx_pt;
                let out = (case r of Accept out \<Rightarrow> out | Reject \<Rightarrow> out);
                r \<leftarrow> sfu_rtp_packet_set_seq out (rp_header_len packet) rtx_seq;
                let out = (case r of Accept out \<Rightarrow> out | Reject \<Rightarrow> out);
                r \<leftarrow> sfu_rtp_packet_set_ssrc out (rp_header_len packet) rtx_ssrc;
                let out = (case r of Accept out \<Rightarrow> out | Reject \<Rightarrow> out);
                out \<leftarrow> sfu_write_be16 out (rp_header_len packet) (rp_sequence_number packet);
                payload \<leftarrow> rd_bytes orig (rp_header_len packet) (rp_payload_len packet);
                out \<leftarrow> wr_bytes out (rp_header_len packet + 2) payload;
                Some (out, Accept built_len)
              }
            }
      })"

lemma All_less_12: "(\<forall>k < (12 :: nat). P k) \<longleftrightarrow> P 0 \<and> P 1 \<and> P 2 \<and> P 3 \<and> P 4 \<and> P 5 \<and> P 6 \<and> P 7 \<and>
    P 8 \<and> P 9 \<and> P 10 \<and> P 11"
  by (simp add: eval_nat_numeral All_less_Suc One_nat_def) blast

lemma All_less_20: "(\<forall>k < (20 :: nat). P k) \<longleftrightarrow> (\<forall>k < (12 :: nat). P k) \<and>
    P 12 \<and> P 13 \<and> P 14 \<and> P 15 \<and> P 16 \<and> P 17 \<and> P 18 \<and> P 19"
  by (simp add: eval_nat_numeral All_less_Suc One_nat_def) blast

lemma write_fixed_header_eq:
  assumes "12 \<le> length out" "pt \<le> 127"
  shows "rtp_write_fixed_header out pt seq ts ssrc = Some (out[0 := 0x80, 1 := pt,
    2 := ucast (drop_bit 8 seq), 3 := ucast seq,
    4 := ucast (drop_bit 24 ts), 5 := ucast (drop_bit 16 ts), 6 := ucast (drop_bit 8 ts), 7 := ucast ts,
    8 := ucast (drop_bit 24 ssrc), 9 := ucast (drop_bit 16 ssrc), 10 := ucast (drop_bit 8 ssrc),
    11 := ucast ssrc])"
proof -
  have "out \<noteq> []"
    using assms by auto
  then show ?thesis
    using assms and_mask7 [of pt] by (simp add: rtp_write_fixed_header_def)
qed

lemma build_padding_eq:
  assumes "pt \<le> 127" "ssrc \<noteq> 0" "i \<le> 14" "n = (if padding = 0 then 224 else unat padding)"
    and "n \<le> 255" "cap \<le> length out" "h = (if i = 0 then 12 else 20)" "h + n \<le> cap"
  shows "\<exists>d. sfu_rtp_padding_build out cap pt seq ts ssrc padding i tseq = Some (d, Accept (h + n)) \<and>
    length d = length out \<and>
    (\<forall>k < h. d ! k = padding_header pt seq ts ssrc i tseq ! k) \<and>
    (\<forall>k. h \<le> k \<longrightarrow> k < h + n \<longrightarrow> d ! k = (if k = h + n - 1 then of_nat n else 0))"
proof -
  define pb where "pb = (if padding = 0 then 224 else padding)"
  have pb: "unat pb = n" "\<not> pb > 255" "(ucast pb :: u8) = of_nat n" "0 < n"
  proof -
    show u: "unat pb = n" and "0 < n"
      using assms(4) by (auto simp: pb_def unat_gt_0 word_neq_0_conv)
    show "\<not> pb > 255"
      using u assms(5) by (simp add: word_less_nat_alt)
    show "(ucast pb :: u8) = of_nat n"
      using u by (metis of_nat_unat)
  qed
  have h: "12 \<le> h" "12 \<le> cap" "i \<noteq> 0 \<Longrightarrow> 20 \<le> cap" "h + n \<le> length out"
    using assms(6-8) by (auto split: if_splits)
  have c: "\<not> pt > 127" "\<not> i > 14" "\<not> 12 > cap"
    using assms(1,3) h by auto
  let ?hd = "out[0 := 0x80, 1 := pt,
    2 := ucast (drop_bit 8 seq), 3 := ucast seq,
    4 := ucast (drop_bit 24 ts), 5 := ucast (drop_bit 16 ts), 6 := ucast (drop_bit 8 ts), 7 := ucast ts,
    8 := ucast (drop_bit 24 ssrc), 9 := ucast (drop_bit 16 ssrc), 10 := ucast (drop_bit 8 ssrc),
    11 := ucast ssrc]"
  let ?hd' = "(if i = 0 then ?hd else ?hd[0 := 0x90, 12 := 0xBE, 13 := 0xDE,
    14 := 0, 15 := 1, 16 := push_bit 4 i OR 1, 17 := ucast (drop_bit 8 tseq), 18 := ucast tseq,
    19 := 0])"
  have len: "12 \<le> length out" "out \<noteq> []"
    using h by auto
  have ext: "(if i > 0 then sfu_rtp_ext_write_twcc ?hd 12 cap i tseq else Some (?hd, Accept 12)) =
    Some (?hd', Accept h)"
  proof (cases "i = 0")
    case True
    then show ?thesis
      using assms(7) by simp
  next
    case False
    then show ?thesis
      using write_twcc_bare [of cap ?hd i tseq] assms(3,6,7) h(3) len
      by (simp add: word_neq_0_conv [symmetric])
  qed
  let ?d = "(overwrite (?hd'[0 := (if i = 0 then 0xA0 else 0xB0)]) h (replicate n 0))[h + n - 1 := of_nat n]"
  have b0: "?hd' ! 0 OR 0x20 = (if i = 0 then 0xA0 else 0xB0)" "length ?hd' = length out"
    using len by simp_all
  have "sfu_rtp_padding_build out cap pt seq ts ssrc padding i tseq = Some (?d, Accept (h + n))"
    unfolding sfu_rtp_padding_build_def Let_def pb_def [symmetric]
      write_fixed_header_eq [OF len(1) assms(1)] bind.bind_lunit ext pb(1,3)
    using c assms(2,8) pb(2,4) h b0 len
    by (simp add: mem_set_def rd_def wr_def wr_bytes_def del: if_split)
  moreover have "length ?d = length out"
    using h by (simp add: b0(2) del: if_split)
  moreover have "\<forall>k. h \<le> k \<longrightarrow> k < h + n \<longrightarrow> ?d ! k = (if k = h + n - 1 then of_nat n else 0)"
    using h by (auto simp: nth_upd nth_overwrite b0(2) simp del: if_split)
  moreover have "\<forall>k < h. ?d ! k = padding_header pt seq ts ssrc i tseq ! k"
  proof (cases "i = 0")
    case True
    then show ?thesis
      using assms(7) h(4) len pb(4) by (simp add: All_less_12 nth_upd nth_overwrite padding_header_def)
  next
    case False
    then show ?thesis
      using assms(7) h(4) len pb(4) by (simp add: All_less_20 All_less_12 nth_upd nth_overwrite padding_header_def)
  qed
  ultimately show ?thesis
    by blast
qed

lemma parse_tail_of:
  assumes "len \<le> length data" "sfu_rtp_packet_parse data len = Some (Accept p)"
  shows "rtp_parse_tail data len (data ! 0) = Some (Accept (rp_extension_profile p,
    rp_extension_off p, rp_extension_length p, rp_header_len p, rp_payload_len p))"
proof -
  have "12 \<le> len" "data \<noteq> []"
    using parse_fields(1) [OF assms] assms(1) by auto
  then show ?thesis
    using assms
    by (cases "rtp_parse_tail data len (data ! 0)")
      (auto simp: sfu_rtp_packet_parse_def split: if_splits ret.splits)
qed

text \<open>A header copied in front of another payload, with the padding bit cleared, parses to
  the same extension block.\<close>

lemma parse_tail_unpadded:
  assumes len: "len \<le> length data" and parse: "sfu_rtp_packet_parse data len = Some (Accept p)"
    and d: "len' \<le> length d" "rp_header_len p \<le> len'"
      "\<And>k. 12 \<le> k \<Longrightarrow> k < rp_header_len p \<Longrightarrow> d ! k = data ! k"
    and b: "b AND 0x0f = data ! 0 AND 0x0f" "b AND 0x10 = data ! 0 AND 0x10" "b AND 0x20 = 0"
  shows "rtp_parse_tail d len' b = Some (Accept (rp_extension_profile p,
    rp_extension_off p, rp_extension_length p, rp_header_len p, len' - rp_header_len p))"
proof -
  have lay: "rtp_layout data len p"
    using ok_result [OF parse_ok [OF len] parse] by simp
  note f = parse_fields [OF len parse] and t = parse_tail_of [OF len parse]
  show ?thesis
  proof (cases "rp_extension p")
    case True
    note x = parse_extension_fields [OF len parse] and o = parsed_offsets [OF len parse True]
    have same: "d ! k = data ! k" if "12 \<le> k" "k < csrc_end_of (data ! 0) + 4" for k
      using d(3) that o by simp
    have "12 \<le> csrc_end_of (data ! 0)"
      using x(1) by simp
    moreover have "csrc_end_of b = csrc_end_of (data ! 0)"
      using b(1) by (simp add: csrc_end_of_def)
    moreover have "b AND 0x10 \<noteq> 0"
      using True f(5) b(2) by simp
    ultimately show ?thesis
      using d(1,2) o x(2,3) [OF True] same b(3)
      by (simp add: rtp_parse_tail_def rtp_parse_extension_def csrc_end_of_def Let_def) arith
  next
    case False
    then have "data ! 0 AND 0x10 = 0"
      using f(5) by simp
    moreover have "rp_extension_profile p = 0 \<and> rp_extension_off p = 0 \<and> rp_extension_length p = 0"
    proof -
      have "ok (rtp_parse_tail data len (data ! 0)) (\<lambda>r. case r of Reject \<Rightarrow> True
        | Accept (profile, off, n, _) \<Rightarrow> profile = 0 \<and> off = 0 \<and> n = 0)"
        using calculation len f(1)
        by (auto simp: rtp_parse_tail_def rtp_parse_padding_def Let_def ok_simps)
      from ok_result [OF this t] show ?thesis
        by simp
    qed
    moreover have "rp_header_len p = 12 + unat (b AND 0x0f) * 4"
      using lay False b(1) f(6) by (simp add: rtp_layout_def)
    ultimately show ?thesis
      using b d(2) by (simp add: rtp_parse_tail_def Let_def)
  qed
qed

lemma clear_p_bits: "(b AND NOT 0x20) AND 0x20 = 0" "(b AND NOT 0x20) AND 0x10 = b AND 0x10"
    "(b AND NOT 0x20) AND 0x0f = b AND 0x0f" "drop_bit 6 (b AND NOT 0x20) = drop_bit 6 b" for b :: u8
proof -
  have "drop_bit 6 b AND 3 = drop_bit 6 b"
    using take_bit_word_self [of "drop_bit 6 b" 2] unat_u8_less [of b]
    by (simp add: take_bit_eq_mask mask_eq_exp_minus_1 unat_drop_bit del: unat_u8_less)
  then show "drop_bit 6 (b AND NOT 0x20) = drop_bit 6 b"
    by simp
qed (simp_all add: word_bw_assocs)

lemma rtx_build_eq:
  assumes len: "len \<le> length orig" and parse: "sfu_rtp_packet_parse orig len = Some (Accept p)"
    and pt: "pt \<le> 127" and fits: "len \<le> SIZE_MAX - 2" "len + 2 \<le> cap" "cap \<le> length out"
  defines "h \<equiv> rp_header_len p" and "n \<equiv> rp_payload_len p"
  shows "\<exists>d. sfu_rtx_build orig len pt seq ssrc out cap = Some (d, Accept (h + 2 + n)) \<and>
    length d = length out \<and> d ! 0 = orig ! 0 AND NOT 0x20 \<and> d ! 1 = (orig ! 1 AND 0x80) OR pt \<and>
    be16 (d ! 2) (d ! 3) = seq \<and> (\<forall>k \<in> {4..<8} \<union> {12..<h}. d ! k = orig ! k) \<and>
    be32 (d ! 8) (d ! 9) (d ! 10) (d ! 11) = ssrc \<and>
    d ! h = ucast (drop_bit 8 (rp_sequence_number p)) \<and> d ! (h + 1) = ucast (rp_sequence_number p) \<and>
    (\<forall>k < n. d ! (h + 2 + k) = orig ! (h + k))"
proof -
  have lay: "rtp_layout orig len p"
    using ok_result [OF parse_ok [OF len] parse] by simp
  then have hn: "12 \<le> h" "h + n \<le> len"
    by (auto simp: rtp_layout_def h_def n_def)
  have c: "\<not> pt > 127" "\<not> len < h" "\<not> len > SIZE_MAX - 2" "\<not> n > SIZE_MAX - h - 2" "\<not> len + 2 > cap"
    using pt fits hn by auto
  have ne: "out \<noteq> []" "orig \<noteq> []"
    using hn fits len by auto
  let ?o = "overwrite out 0 (take h orig)"
  have o: "length ?o = length out" "\<And>k. k < h \<Longrightarrow> ?o ! k = orig ! k" "?o \<noteq> []"
    using hn fits len ne by (auto simp: nth_overwrite)
  let ?d = "?o[0 := orig ! 0 AND NOT 0x20, 1 := (orig ! 1 AND 0x80) OR pt,
    2 := ucast (drop_bit 8 seq), 3 := ucast seq, 8 := ucast (drop_bit 24 ssrc),
    9 := ucast (drop_bit 16 ssrc), 10 := ucast (drop_bit 8 ssrc), 11 := ucast ssrc,
    h := ucast (drop_bit 8 (rp_sequence_number p)), h + 1 := ucast (rp_sequence_number p)]"
  let ?r = "overwrite ?d (h + 2) (take n (drop h orig))"
  have "ok (sfu_rtx_build orig len pt seq ssrc out cap) (\<lambda>r. r = (?r, Accept (h + 2 + n)))"
    unfolding sfu_rtx_build_def parse bind.bind_lunit
    using c hn fits len o ne
    by (simp add: h_def [symmetric] n_def [symmetric] ok_simps Let_def sfu_rtp_packet_set_pt_def
        sfu_rtp_packet_set_seq_def sfu_rtp_packet_set_ssrc_def)
  then have "sfu_rtx_build orig len pt seq ssrc out cap = Some (?r, Accept (h + 2 + n))"
    by (simp add: ok_def)
  moreover have ld: "length ?d = length out"
    using o by simp
  moreover have r: "length ?r = length out" "\<And>k. k < length out \<Longrightarrow> ?r ! k =
      (if h + 2 \<le> k \<and> k < h + 2 + n then orig ! (h + (k - (h + 2))) else ?d ! k)"
    using ld hn fits len by (auto simp: nth_overwrite simp del: length_list_update)
  moreover have d: "k < length out \<Longrightarrow> ?d ! k = (if k = h + 1 then ucast (rp_sequence_number p)
      else if k = h then ucast (drop_bit 8 (rp_sequence_number p))
      else if k = 11 then ucast ssrc else if k = 10 then ucast (drop_bit 8 ssrc)
      else if k = 9 then ucast (drop_bit 16 ssrc) else if k = 8 then ucast (drop_bit 24 ssrc)
      else if k = 3 then ucast seq else if k = 2 then ucast (drop_bit 8 seq)
      else if k = 1 then (orig ! 1 AND 0x80) OR pt else if k = 0 then orig ! 0 AND NOT 0x20
      else ?o ! k)" for k
    using o(1) by (simp only: nth_upd length_list_update)
  moreover have "?r ! k = orig ! k" if "k \<in> {4..<8} \<union> {12..<h}" for k
  proof -
    have "k < h" "k < length out"
      using that hn fits by auto
    then show ?thesis
      using that r(2) [of k] d [of k] o(2) [of k] by auto
  qed
  ultimately show ?thesis
    using hn fits len o(2) ne
    by (intro exI [of _ ?r]) (simp add: r d)
qed

section \<open>Properties\<close>

text \<open>Property C20.  With room for it, the builder makes a padding packet that the parser reads
  back as requested: no payload, the padding bit, the header fields, and the
  transport-wide sequence number when an extension was asked for.\<close>

theorem padding_build_roundtrip:
  assumes "pt \<le> 127" "ssrc \<noteq> 0" "i \<le> 14" "n = (if padding = 0 then 224 else unat padding)"
    and "n \<le> 255" "cap \<le> length out" "h = (if i = 0 then 12 else 20)" "h + n \<le> cap"
  shows "\<exists>d p. sfu_rtp_padding_build out cap pt seq ts ssrc padding i tseq = Some (d, Accept (h + n)) \<and>
    sfu_rtp_packet_parse d (h + n) = Some (Accept p) \<and> rp_padding p \<and> rp_payload_len p = 0 \<and>
    rp_payload_type p = pt \<and> rp_sequence_number p = seq \<and> rp_timestamp p = ts \<and> rp_ssrc p = ssrc \<and>
    \<not> rp_marker p \<and> rp_extension p = (i \<noteq> 0) \<and>
    (i \<noteq> 0 \<longrightarrow> sfu_rtp_ext_read_twcc (rp_extension_profile p) (rtp_ext_data d p)
      (rp_extension_length p) i = Some (Accept tseq))"
proof -
  obtain d where d: "sfu_rtp_padding_build out cap pt seq ts ssrc padding i tseq = Some (d, Accept (h + n))"
    "length d = length out" "\<And>k. k < h \<Longrightarrow> d ! k = padding_header pt seq ts ssrc i tseq ! k"
    "\<And>k. h \<le> k \<Longrightarrow> k < h + n \<Longrightarrow> d ! k = (if k = h + n - 1 then of_nat n else 0)"
    using build_padding_eq [OF assms] by blast
  have n: "0 < n" "n < 256" "h + n \<le> length d"
    using assms(4-6,8) d(2) by (auto simp: unat_gt_0 word_neq_0_conv)
  have last: "d ! (h + n - 1) = of_nat n" "unat (of_nat n :: u8) = n" "(of_nat n :: u8) \<noteq> 0"
    using d(4) [of "h + n - 1"] n unat_of_nat_less [of n, where ?'a = 8] by auto
  have pad: "rtp_parse_padding d (h + n) n = Some (Accept 0)"
    using n last by (simp add: rtp_parse_padding_def)
  have m: "pt AND 0x7f = pt" "pt AND 0x80 = 0"
    using set_pt_bits [OF assms(1), of 0] by simp_all
  show ?thesis
  proof (cases "i = 0")
    case True
    then have "rtp_parse_tail d (h + n) (d ! 0) = Some (Accept (0, 0, 0, 12, 0))"
      using assms(7) d(3) pad by (simp add: rtp_parse_tail_def padding_header_def)
    with True n d(3) assms(7) m have "sfu_rtp_packet_parse d (h + n) = Some (Accept
        \<lparr>rp_version = 2, rp_padding = True, rp_extension = False, rp_csrc_count = 0,
         rp_marker = False, rp_payload_type = pt, rp_sequence_number = seq, rp_timestamp = ts,
         rp_ssrc = ssrc, rp_extension_profile = 0, rp_extension_off = 0, rp_extension_length = 0,
         rp_header_len = 12, rp_payload_len = 0\<rparr>)"
      by (subst parse_AcceptI [where pl = 0 and hl = 12 and profile = 0 and off = 0 and n = 0])
        (simp_all add: padding_header_def)
    with d(1) True show ?thesis
      by (intro exI [of _ d] exI conjI) (assumption, assumption, simp_all)
  next
    case False
    then have i0: "0 < i"
      by (simp add: word_neq_0_conv)
    have "rtp_parse_extension d (h + n) 12 = Some (Accept (0xBEDE, 16, 4, 20))"
      using False assms(7) d(3) n by (simp add: rtp_parse_extension_def padding_header_def be16_def Let_def)
    then have "rtp_parse_tail d (h + n) (d ! 0) = Some (Accept (0xBEDE, 16, 4, 20, 0))"
      using False assms(7) d(3) pad by (simp add: rtp_parse_tail_def padding_header_def)
    with False n d(3) assms(7) m have *: "sfu_rtp_packet_parse d (h + n) = Some (Accept
        \<lparr>rp_version = 2, rp_padding = True, rp_extension = True, rp_csrc_count = 0,
         rp_marker = False, rp_payload_type = pt, rp_sequence_number = seq, rp_timestamp = ts,
         rp_ssrc = ssrc, rp_extension_profile = 0xBEDE, rp_extension_off = 16, rp_extension_length = 4,
         rp_header_len = 20, rp_payload_len = 0\<rparr>)"
      by (subst parse_AcceptI [where pl = 0 and hl = 20 and profile = "0xBEDE" and off = 16 and n = 4])
        (simp_all add: padding_header_def)
    have "sfu_rtp_ext_read_twcc 0xBEDE (drop 16 d) 4 i = Some (Accept tseq)"
      by (rule twcc_one_append(1) [of 0 "[]"])
        (use False i0 assms(3,7) d(3) n in \<open>simp_all add: padding_header_def\<close>)
    with d(1) False * show ?thesis
      by (intro exI [of _ d] exI conjI) (assumption, assumption, simp_all add: rtp_ext_data_def)
  qed
qed

text \<open>Property C19.  A retransmission built from a packet the parser accepts parses to the
  same header with the retransmission's payload type, sequence number and SSRC and no
  padding; its payload is the original sequence number followed by the original payload.\<close>

theorem rtx_build_roundtrip:
  assumes len: "len \<le> length orig" and parse: "sfu_rtp_packet_parse orig len = Some (Accept p)"
    and pt: "pt \<le> 127" and fits: "len \<le> SIZE_MAX - 2" "len + 2 \<le> cap" "cap \<le> length out"
  shows "\<exists>d m. sfu_rtx_build orig len pt seq ssrc out cap = Some (d, Accept m) \<and>
    m = rp_header_len p + 2 + rp_payload_len p \<and>
    sfu_rtp_packet_parse d m = Some (Accept (p\<lparr>rp_padding := False, rp_payload_type := pt,
      rp_sequence_number := seq, rp_ssrc := ssrc, rp_payload_len := rp_payload_len p + 2\<rparr>)) \<and>
    rtp_payload d (p\<lparr>rp_payload_len := rp_payload_len p + 2\<rparr>) =
      [ucast (drop_bit 8 (rp_sequence_number p)), ucast (rp_sequence_number p)] @ rtp_payload orig p"
proof -
  let ?h = "rp_header_len p" and ?n = "rp_payload_len p"
  obtain d where d: "sfu_rtx_build orig len pt seq ssrc out cap = Some (d, Accept (?h + 2 + ?n))"
    "length d = length out" "d ! 0 = orig ! 0 AND NOT 0x20" "d ! 1 = (orig ! 1 AND 0x80) OR pt"
    "be16 (d ! 2) (d ! 3) = seq" "\<And>k. k \<in> {4..<8} \<union> {12..<?h} \<Longrightarrow> d ! k = orig ! k"
    "be32 (d ! 8) (d ! 9) (d ! 10) (d ! 11) = ssrc"
    "d ! ?h = ucast (drop_bit 8 (rp_sequence_number p))" "d ! (?h + 1) = ucast (rp_sequence_number p)"
    "\<And>k. k < ?n \<Longrightarrow> d ! (?h + 2 + k) = orig ! (?h + k)"
    using rtx_build_eq [OF len parse pt fits, of seq ssrc] by blast
  have lay: "rtp_layout orig len p"
    using ok_result [OF parse_ok [OF len] parse] by simp
  then have hn: "12 \<le> ?h" "?h + ?n \<le> len" "?h + 2 + ?n \<le> length d"
    using fits d(2) by (auto simp: rtp_layout_def)
  note f = parse_fields [OF len parse]
  have "rtp_parse_tail d (?h + 2 + ?n) (d ! 0) = Some (Accept (rp_extension_profile p,
      rp_extension_off p, rp_extension_length p, ?h, ?h + 2 + ?n - ?h))"
    by (rule parse_tail_unpadded [OF len parse hn(3)])
      (use d(6) hn in \<open>simp_all only: d(3) clear_p_bits, auto\<close>)
  then have "sfu_rtp_packet_parse d (?h + 2 + ?n) = Some (Accept (p\<lparr>rp_padding := False,
      rp_payload_type := pt, rp_sequence_number := seq, rp_ssrc := ssrc,
      rp_payload_len := ?n + 2\<rparr>))"
    using f hn d(4,5,7) d(6) [of 4] d(6) [of 5] d(6) [of 6] d(6) [of 7] set_pt_bits [OF pt, of "orig ! 1"]
    by (subst parse_AcceptI) (simp_all only: d(3) clear_p_bits, auto)
  moreover have "rtp_payload d (p\<lparr>rp_payload_len := ?n + 2\<rparr>) =
      [ucast (drop_bit 8 (rp_sequence_number p)), ucast (rp_sequence_number p)] @ rtp_payload orig p"
  proof (rule nth_equalityI)
    show "length (rtp_payload d (p\<lparr>rp_payload_len := ?n + 2\<rparr>)) =
      length ([ucast (drop_bit 8 (rp_sequence_number p)), ucast (rp_sequence_number p)] @ rtp_payload orig p)"
      using hn len by (simp add: rtp_payload_def)
    fix k
    assume "k < length (rtp_payload d (p\<lparr>rp_payload_len := ?n + 2\<rparr>))"
    then have k: "k < ?n + 2"
      by (simp add: rtp_payload_def)
    consider "k = 0" | "k = 1" | j where "k = 2 + j" "j < ?n"
    proof (cases "k < 2")
      case True
      then show ?thesis
        using that(1,2) by fastforce
    next
      case False
      then obtain j where "k = 2 + j"
        using le_Suc_ex [of 2 k] by auto
      then show ?thesis
        using that(3) [of j] k by simp
    qed
    then show "rtp_payload d (p\<lparr>rp_payload_len := ?n + 2\<rparr>) ! k =
      ([ucast (drop_bit 8 (rp_sequence_number p)), ucast (rp_sequence_number p)] @ rtp_payload orig p) ! k"
      using hn len d(8,9) d(10) by cases (simp_all add: rtp_payload_def nth_append add.assoc)
  qed
  ultimately show ?thesis
    using d(1) by blast
qed

theorem padding_build_roundtrip_witness:
  "\<exists>d p. sfu_rtp_padding_build (replicate 300 0) 300 97 5 1000 77 0 3 42 = Some (d, Accept 244) \<and>
     sfu_rtp_packet_parse d 244 = Some (Accept p) \<and> rp_payload_len p = 0 \<and> rp_ssrc p = 77 \<and>
     sfu_rtp_ext_read_twcc (rp_extension_profile p) (rtp_ext_data d p) (rp_extension_length p) 3 =
       Some (Accept 42)"
  using padding_build_roundtrip [of 97 77 3 224 0 300 "replicate 300 0" 20 5 1000 42]
  by (auto simp: length_replicate)

theorem rtx_build_roundtrip_witness:
  "\<exists>d. sfu_rtx_build sample_ext 22 99 7 88 (replicate 30 0) 30 = Some (d, Accept 24) \<and>
     sfu_rtp_packet_parse d 24 = Some (Accept (sample_ext_view\<lparr>rp_padding := False,
       rp_payload_type := 99, rp_sequence_number := 7, rp_ssrc := 88, rp_payload_len := 4\<rparr>))"
proof -
  have "22 \<le> length sample_ext"
    by (simp add: sample_ext_def)
  from rtx_build_roundtrip [OF this sample_ext_parse, of 99 30 "replicate 30 0" 7 88]
  show ?thesis
    by (auto simp: sample_ext_view_def)
qed

end
