(* ===== verification/Rtp_Seq_Translate.thy ===== *)
theory Rtp_Seq_Translate
  imports SFU_Prelude
begin

text \<open>
  The per-SSRC output sequence numbers: \<^verbatim>\<open>src/src/rtp/rtp_seq_translate.c\<close>, a hash table
  with linear probing and no deletion.  It refines a finite map from SSRCs to the next
  output sequence number.
\<close>

section \<open>The table\<close>

abbreviation SFU_RTP_SEQ_TRANSLATOR_CAP :: nat where
  "SFU_RTP_SEQ_TRANSLATOR_CAP \<equiv> 2048"

record sfu_rtp_seq_translation_entry =
  te_ssrc :: u32
  te_next_output_seq :: u16
  te_valid :: bool

type_synonym sfu_rtp_seq_translator = "sfu_rtp_seq_translation_entry list"

definition hash_ssrc :: "u32 \<Rightarrow> u32" where
  "hash_ssrc ssrc =
     (let ssrc = ssrc XOR drop_bit 16 ssrc;
          ssrc = ssrc * 0x7feb352d;
          ssrc = ssrc XOR drop_bit 15 ssrc;
          ssrc = ssrc * 0x846ca68b
      in ssrc XOR drop_bit 16 ssrc)"

definition sfu_rtp_seq_translator_init :: sfu_rtp_seq_translator where
  "sfu_rtp_seq_translator_init =
     replicate SFU_RTP_SEQ_TRANSLATOR_CAP \<lparr>te_ssrc = 0, te_next_output_seq = 0, te_valid = False\<rparr>"

text \<open>The probe loops; \<open>n\<close> is the number of probes left.\<close>

fun translate_probe ::
    "nat \<Rightarrow> sfu_rtp_seq_translator \<Rightarrow> u32 \<Rightarrow> u16 \<Rightarrow> u32 \<Rightarrow> (sfu_rtp_seq_translator \<times> u16) ret option" where
  "translate_probe 0 translator ssrc source_seq index = Some Reject"
| "translate_probe (Suc n) translator ssrc source_seq index = do {
     entry \<leftarrow> aget translator (unat index);
     if \<not> te_valid entry then do {
       translator \<leftarrow> aset translator (unat index)
         \<lparr>te_ssrc = ssrc, te_next_output_seq = source_seq + 1, te_valid = True\<rparr>;
       Some (Accept (translator, source_seq))
     }
     else if te_ssrc entry = ssrc then do {
       translator \<leftarrow> aset translator (unat index)
         (entry\<lparr>te_next_output_seq := te_next_output_seq entry + 1\<rparr>);
       Some (Accept (translator, te_next_output_seq entry))
     }
     else translate_probe n translator ssrc source_seq ((index + 1) AND 2047)
   }"

definition sfu_rtp_seq_translate ::
    "sfu_rtp_seq_translator \<Rightarrow> u32 \<Rightarrow> u16 \<Rightarrow> (sfu_rtp_seq_translator \<times> u16) ret option" where
  "sfu_rtp_seq_translate translator ssrc source_seq =
     translate_probe SFU_RTP_SEQ_TRANSLATOR_CAP translator ssrc source_seq (hash_ssrc ssrc AND 2047)"

fun rollback_probe ::
    "nat \<Rightarrow> sfu_rtp_seq_translator \<Rightarrow> u32 \<Rightarrow> u16 \<Rightarrow> u32 \<Rightarrow> sfu_rtp_seq_translator ret option" where
  "rollback_probe 0 translator ssrc count index = Some Reject"
| "rollback_probe (Suc n) translator ssrc count index = do {
     entry \<leftarrow> aget translator (unat index);
     if \<not> te_valid entry then Some Reject
     else if te_ssrc entry = ssrc then do {
       translator \<leftarrow> aset translator (unat index)
         (entry\<lparr>te_next_output_seq := te_next_output_seq entry - count\<rparr>);
       Some (Accept translator)
     }
     else rollback_probe n translator ssrc count ((index + 1) AND 2047)
   }"

definition sfu_rtp_seq_translator_rollback ::
    "sfu_rtp_seq_translator \<Rightarrow> u32 \<Rightarrow> u16 \<Rightarrow> sfu_rtp_seq_translator ret option" where
  "sfu_rtp_seq_translator_rollback translator ssrc count =
     (if count = 0 then Some Reject
      else rollback_probe SFU_RTP_SEQ_TRANSLATOR_CAP translator ssrc count (hash_ssrc ssrc AND 2047))"

section \<open>The probe sequence\<close>

text \<open>The slots a lookup visits, and the slot it stops at: the first that is free or holds
  the SSRC.\<close>

definition probe_path :: "u32 \<Rightarrow> nat list" where
  "probe_path ssrc = map (\<lambda>k. (unat (hash_ssrc ssrc) + k) mod 2048) [0..<2048]"

definition stops :: "sfu_rtp_seq_translator \<Rightarrow> u32 \<Rightarrow> nat \<Rightarrow> bool" where
  "stops t ssrc j \<longleftrightarrow> \<not> te_valid (t ! j) \<or> te_ssrc (t ! j) = ssrc"

definition find_slot :: "sfu_rtp_seq_translator \<Rightarrow> u32 \<Rightarrow> nat option" where
  "find_slot t ssrc = List.find (stops t ssrc) (probe_path ssrc)"

lemma unat_and_2047: "unat (x AND 2047) = unat x mod 2048" for x :: u32
  using unat_mask [of x 11] by (simp add: mask_eq_exp_minus_1)

lemma next_index: "unat ((x + 1) AND 2047) = (unat x + 1) mod 2048" for x :: u32
  by (simp add: unat_and_2047 unat_word_ariths mod_mod_cancel)

lemma path_Suc:
  fixes index :: u32
  assumes "unat index < 2048"
  shows "map (\<lambda>k. (unat index + k) mod 2048) [0..<Suc n] =
    unat index # map (\<lambda>k. (unat ((index + 1) AND 2047) + k) mod 2048) [0..<n]"
  using assms
  by (simp add: next_index mod_add_left_eq map_upt_Suc del: upt_Suc) (simp add: ac_simps Suc_eq_plus1)

lemma translate_probe_find:
  assumes "length t = 2048" "unat index < 2048"
  shows "translate_probe n t ssrc q index =
    (case List.find (stops t ssrc) (map (\<lambda>k. (unat index + k) mod 2048) [0..<n]) of
       None \<Rightarrow> Some Reject
     | Some j \<Rightarrow> if te_valid (t ! j)
         then Some (Accept (t[j := (t ! j)\<lparr>te_next_output_seq := te_next_output_seq (t ! j) + 1\<rparr>],
                            te_next_output_seq (t ! j)))
         else Some (Accept (t[j := \<lparr>te_ssrc = ssrc, te_next_output_seq = q + 1, te_valid = True\<rparr>], q)))"
  using assms
proof (induction n arbitrary: index)
  case (Suc n)
  note path = path_Suc [OF Suc.prems(2), of n]
  have "unat ((index + 1) AND 2047) < 2048"
    by (simp add: next_index)
  then show ?case
    using Suc path by (simp add: stops_def del: upt_Suc)
qed simp

lemma rollback_probe_find:
  assumes "length t = 2048" "unat index < 2048"
  shows "rollback_probe n t ssrc count index =
    (case List.find (stops t ssrc) (map (\<lambda>k. (unat index + k) mod 2048) [0..<n]) of
       None \<Rightarrow> Some Reject
     | Some j \<Rightarrow> if te_valid (t ! j)
         then Some (Accept (t[j := (t ! j)\<lparr>te_next_output_seq := te_next_output_seq (t ! j) - count\<rparr>]))
         else Some Reject)"
  using assms
proof (induction n arbitrary: index)
  case (Suc n)
  note path = path_Suc [OF Suc.prems(2), of n]
  have "unat ((index + 1) AND 2047) < 2048"
    by (simp add: next_index)
  then show ?case
    using Suc path by (simp add: stops_def del: upt_Suc)
qed simp

lemma translate_find:
  assumes "length t = 2048"
  shows "sfu_rtp_seq_translate t ssrc q = (case find_slot t ssrc of
       None \<Rightarrow> Some Reject
     | Some j \<Rightarrow> if te_valid (t ! j)
         then Some (Accept (t[j := (t ! j)\<lparr>te_next_output_seq := te_next_output_seq (t ! j) + 1\<rparr>],
                            te_next_output_seq (t ! j)))
         else Some (Accept (t[j := \<lparr>te_ssrc = ssrc, te_next_output_seq = q + 1, te_valid = True\<rparr>], q)))"
  unfolding sfu_rtp_seq_translate_def
  by (subst translate_probe_find [OF assms])
    (simp_all add: unat_and_2047 find_slot_def probe_path_def mod_add_left_eq)

lemma rollback_find:
  assumes "length t = 2048" "count \<noteq> 0"
  shows "sfu_rtp_seq_translator_rollback t ssrc count = (case find_slot t ssrc of
       None \<Rightarrow> Some Reject
     | Some j \<Rightarrow> if te_valid (t ! j)
         then Some (Accept (t[j := (t ! j)\<lparr>te_next_output_seq := te_next_output_seq (t ! j) - count\<rparr>]))
         else Some Reject)"
  unfolding sfu_rtp_seq_translator_rollback_def
  using assms(2) by (simp, subst rollback_probe_find [OF assms(1)])
    (simp_all add: unat_and_2047 find_slot_def probe_path_def mod_add_left_eq)

section \<open>The map the table stands for\<close>

definition translator_abs :: "sfu_rtp_seq_translator \<Rightarrow> u32 \<Rightarrow> u16 option" where
  "translator_abs t ssrc = (case find_slot t ssrc of
     None \<Rightarrow> None
   | Some j \<Rightarrow> if te_valid (t ! j) then Some (te_next_output_seq (t ! j)) else None)"

text \<open>Every entry is found where it is stored.\<close>

definition translator_inv :: "sfu_rtp_seq_translator \<Rightarrow> bool" where
  "translator_inv t \<longleftrightarrow> length t = 2048 \<and>
     (\<forall>j < 2048. te_valid (t ! j) \<longrightarrow> find_slot t (te_ssrc (t ! j)) = Some j)"

definition translator_full :: "sfu_rtp_seq_translator \<Rightarrow> bool" where
  "translator_full t \<longleftrightarrow> (\<forall>j < 2048. te_valid (t ! j))"

lemma set_probe_path: "set (probe_path ssrc) = {..<2048}"
proof -
  have "j \<in> (\<lambda>k. (h + k) mod 2048) ` {0..<2048}" if "j < 2048" for j h :: nat
  proof (rule image_eqI)
    have "(h + (j + (2048 - h mod 2048)) mod 2048) mod 2048 =
        (h mod 2048 + (j + (2048 - h mod 2048))) mod 2048"
      by (simp only: mod_add_left_eq mod_add_right_eq)
    also have "h mod 2048 + (j + (2048 - h mod 2048)) = j + 2048"
      by simp
    finally show "j = (h + (j + (2048 - h mod 2048)) mod 2048) mod 2048"
      using that by simp
  qed simp
  then show ?thesis
    by (auto simp: probe_path_def)
qed

lemma find_slot_less: "find_slot t ssrc = Some j \<Longrightarrow> j < 2048 \<and> stops t ssrc j"
  using set_probe_path [of ssrc] by (force simp: find_slot_def find_Some_iff)

lemma find_slot_None: "find_slot t ssrc = None \<Longrightarrow> translator_full t"
  using set_probe_path [of ssrc]
  by (auto simp: find_slot_def find_None_iff translator_full_def stops_def)

text \<open>Changing a slot the lookup passes or stops at in the same way changes nothing.\<close>

lemma find_cong: "(\<And>x. x \<in> set xs \<Longrightarrow> P x = Q x) \<Longrightarrow> List.find P xs = List.find Q xs"
  by (induction xs) auto

lemma find_change:
  assumes "List.find P xs = Some y" "Q y" "\<And>x. x \<noteq> j \<Longrightarrow> Q x = P x" "y \<noteq> j \<Longrightarrow> P j"
  shows "List.find Q xs = Some y"
proof -
  have "P y"
    using assms(1) by (auto simp: find_Some_iff)
  with assms show ?thesis
    by (induction xs) (auto split: if_splits, metis+)
qed


lemma stops_upd: "length t = 2048 \<Longrightarrow> x \<noteq> j \<Longrightarrow> stops (t[j := e]) s x = stops t s x"
  by (simp add: stops_def)

text \<open>An update that keeps the SSRC of a used slot.\<close>

lemma find_slot_keep:
  assumes "length t = 2048" "te_valid (t ! j)" "j < 2048"
  shows "find_slot (t[j := (t ! j)\<lparr>te_next_output_seq := v\<rparr>]) s = find_slot t s"
  unfolding find_slot_def
  by (rule find_cong) (use assms in \<open>simp add: stops_def nth_upd set_probe_path\<close>)

text \<open>A free slot taken by the SSRC whose lookup ended there.\<close>

lemma find_slot_fill:
  assumes inv: "translator_inv t" and j: "find_slot t s = Some j" "\<not> te_valid (t ! j)"
    and e: "te_ssrc e = s" "te_valid e"
  shows "find_slot (t[j := e]) s = Some j"
    and "find_slot t s' = Some k \<Longrightarrow> k \<noteq> j \<Longrightarrow> find_slot (t[j := e]) s' = Some k"
    and "s' \<noteq> s \<Longrightarrow> find_slot t s' = Some j \<Longrightarrow> find_slot (t[j := e]) s' = Some k \<Longrightarrow>
      \<not> te_valid (t[j := e] ! k)"
proof -
  have len: "length t = 2048" "j < 2048"
    using inv find_slot_less [OF j(1)] by (auto simp: translator_inv_def)
  show "find_slot (t[j := e]) s = Some j"
    using j(1) unfolding find_slot_def
    by (rule find_change [where j = j]) (use len e in \<open>auto simp: stops_def\<close>)
  show "find_slot (t[j := e]) s' = Some k" if "find_slot t s' = Some k" "k \<noteq> j"
    using that(1) unfolding find_slot_def
  proof (rule find_change [where j = j])
    show "stops (t[j := e]) s' k"
      using find_slot_less [OF that(1)] that(2) len by (simp add: stops_def)
    show "stops t s' j"
      using j(2) by (simp add: stops_def)
  qed (use len in \<open>simp add: stops_upd\<close>)
  show "\<not> te_valid (t[j := e] ! k)"
    if "s' \<noteq> s" "find_slot t s' = Some j" "find_slot (t[j := e]) s' = Some k"
  proof
    assume v: "te_valid (t[j := e] ! k)"
    have k: "k < 2048" "stops (t[j := e]) s' k"
      using find_slot_less [OF that(3)] by auto
    with v that(1) e len have "k \<noteq> j" "te_ssrc (t ! k) = s'" "te_valid (t ! k)"
      by (auto simp: stops_def nth_upd split: if_splits)
    then have "find_slot t s' = Some k"
      using inv k(1) by (auto simp: translator_inv_def)
    with that(2) \<open>k \<noteq> j\<close> show False
      by simp
  qed
qed

lemma bump_refines:
  assumes inv: "translator_inv t" and j: "find_slot t s = Some j" "te_valid (t ! j)"
  shows "translator_inv (t[j := (t ! j)\<lparr>te_next_output_seq := v\<rparr>])"
    "translator_abs (t[j := (t ! j)\<lparr>te_next_output_seq := v\<rparr>]) = (translator_abs t)(s \<mapsto> v)"
proof -
  have len: "length t = 2048" "j < 2048" and ssrc: "te_ssrc (t ! j) = s"
    using inv find_slot_less [OF j(1)] j(2) by (auto simp: translator_inv_def stops_def)
  note keep = find_slot_keep [OF len(1) j(2) len(2)]
  show "translator_inv (t[j := (t ! j)\<lparr>te_next_output_seq := v\<rparr>])"
    using inv len by (auto simp: translator_inv_def keep nth_upd split: if_splits)
  have uniq: "s' = s" if "find_slot t s' = Some j" for s'
    using find_slot_less [OF that] j(2) ssrc by (simp add: stops_def)
  show "translator_abs (t[j := (t ! j)\<lparr>te_next_output_seq := v\<rparr>]) = (translator_abs t)(s \<mapsto> v)"
  proof
    fix s'
    show "translator_abs (t[j := (t ! j)\<lparr>te_next_output_seq := v\<rparr>]) s' = ((translator_abs t)(s \<mapsto> v)) s'"
    proof (cases "find_slot t s'")
      case None
      with j(1) have "s' \<noteq> s"
        by auto
      with None show ?thesis
        by (simp add: translator_abs_def keep)
    next
      case (Some k)
      with uniq [of s'] j len show ?thesis
        by (cases "k = j") (auto simp: translator_abs_def keep)
    qed
  qed
qed

lemma translate_refines:
  assumes inv: "translator_inv t"
  shows "case translator_abs t s of
    Some v \<Rightarrow> \<exists>t'. sfu_rtp_seq_translate t s q = Some (Accept (t', v)) \<and> translator_inv t' \<and>
      translator_abs t' = (translator_abs t)(s \<mapsto> v + 1)
  | None \<Rightarrow> if translator_full t then sfu_rtp_seq_translate t s q = Some Reject
      else \<exists>t'. sfu_rtp_seq_translate t s q = Some (Accept (t', q)) \<and> translator_inv t' \<and>
        translator_abs t' = (translator_abs t)(s \<mapsto> q + 1)"
proof (cases "find_slot t s")
  case None
  then show ?thesis
    using inv find_slot_None [OF None]
    by (simp add: translator_abs_def translate_find translator_inv_def)
next
  case (Some j)
  have len: "length t = 2048" "j < 2048"
    using inv find_slot_less [OF Some] by (auto simp: translator_inv_def)
  show ?thesis
  proof (cases "te_valid (t ! j)")
    case True
    with bump_refines [OF inv Some True] Some len show ?thesis
      by (simp add: translator_abs_def [of t] translate_find)
  next
    case False
    let ?e = "\<lparr>te_ssrc = s, te_next_output_seq = q + 1, te_valid = True\<rparr>"
    note fill = find_slot_fill [OF inv Some False, of ?e, simplified]
    have "translator_inv (t[j := ?e])"
      using inv len fill(1,2) by (auto simp: translator_inv_def nth_upd split: if_splits)
    moreover have "translator_abs (t[j := ?e]) = (translator_abs t)(s \<mapsto> q + 1)"
    proof
      fix s'
      consider "s' = s" | "s' \<noteq> s" "find_slot t s' = Some j" | k where "s' \<noteq> s" "find_slot t s' = Some k" "k \<noteq> j"
        | "find_slot t s' = None"
        by (cases "find_slot t s'") auto
      then show "translator_abs (t[j := ?e]) s' = ((translator_abs t)(s \<mapsto> q + 1)) s'"
      proof cases
        case 1
        then show ?thesis
          using fill(1) len by (simp add: translator_abs_def)
      next
        case 2
        then show ?thesis
          using fill(3) [of s'] False by (auto simp: translator_abs_def split: option.splits)
      next
        case 3
        then show ?thesis
          using fill(2) [of s' k] by (simp add: translator_abs_def)
      next
        case 4
        then show ?thesis
          using find_slot_None [OF 4] False len(2) by (simp add: translator_full_def)
      qed
    qed
    moreover have "\<not> translator_full t"
      using False len(2) by (auto simp: translator_full_def)
    ultimately show ?thesis
      using Some False len by (simp add: translator_abs_def [of t] translate_find)
  qed
qed

lemma rollback_refines:
  assumes inv: "translator_inv t"
  shows "case translator_abs t s of
    None \<Rightarrow> sfu_rtp_seq_translator_rollback t s count = Some Reject
  | Some v \<Rightarrow> if count = 0 then sfu_rtp_seq_translator_rollback t s count = Some Reject
      else \<exists>t'. sfu_rtp_seq_translator_rollback t s count = Some (Accept t') \<and> translator_inv t' \<and>
        translator_abs t' = (translator_abs t)(s \<mapsto> v - count)"
proof (cases "count = 0")
  case True
  then show ?thesis
    by (simp add: sfu_rtp_seq_translator_rollback_def split: option.splits)
next
  case False
  have "length t = 2048"
    using inv by (simp add: translator_inv_def)
  then show ?thesis
    using False bump_refines [OF inv]
    by (simp add: rollback_find translator_abs_def [of t] split: option.splits)
qed

lemma init_entries:
  "length sfu_rtp_seq_translator_init = 2048"
  "j < 2048 \<Longrightarrow> \<not> te_valid (sfu_rtp_seq_translator_init ! j)"
  by (simp_all add: sfu_rtp_seq_translator_init_def)

lemma init_refines: "translator_inv sfu_rtp_seq_translator_init"
    "translator_abs sfu_rtp_seq_translator_init = Map.empty" "\<not> translator_full sfu_rtp_seq_translator_init"
proof -
  show "translator_inv sfu_rtp_seq_translator_init"
    by (simp add: translator_inv_def init_entries)
  show "translator_abs sfu_rtp_seq_translator_init = Map.empty"
    using find_slot_less [of sfu_rtp_seq_translator_init]
    by (auto simp: translator_abs_def fun_eq_iff init_entries split: option.splits)
  show "\<not> translator_full sfu_rtp_seq_translator_init"
    using init_entries(2) [of 0] by (force simp: translator_full_def)
qed

section \<open>Counters by SSRC\<close>

text \<open>What the forwarding path relies on: a counter per SSRC that starts at the first source
  sequence number and goes up by one per packet.\<close>

fun run_requests ::
    "('t \<Rightarrow> u32 \<Rightarrow> u16 \<Rightarrow> ('t \<times> u16) ret option) \<Rightarrow> 't \<Rightarrow> (u32 \<times> u16) list \<Rightarrow> ('t \<times> (u32 \<times> u16) list) option" where
  "run_requests next_seq t [] = Some (t, [])"
| "run_requests next_seq t ((s, q) # reqs) = do {
     r \<leftarrow> next_seq t s q;
     case r of
       Reject \<Rightarrow> run_requests next_seq t reqs
     | Accept (t', v) \<Rightarrow> do {
         (t'', outs) \<leftarrow> run_requests next_seq t' reqs;
         Some (t'', (s, v) # outs)
       }
   }"

definition outs_of :: "u32 \<Rightarrow> (u32 \<times> u16) list \<Rightarrow> u16 list" where
  "outs_of s outs = map snd (filter (\<lambda>x. fst x = s) outs)"

fun counts_from :: "u16 \<Rightarrow> u16 list \<Rightarrow> bool" where
  "counts_from v [] \<longleftrightarrow> True"
| "counts_from v (y # ys) \<longleftrightarrow> y = v \<and> counts_from (v + 1) ys"

locale ssrc_counters =
  fixes next_seq :: "'t \<Rightarrow> u32 \<Rightarrow> u16 \<Rightarrow> ('t \<times> u16) ret option"
    and counter :: "'t \<Rightarrow> u32 \<Rightarrow> u16 option"
    and inv :: "'t \<Rightarrow> bool"
    and full :: "'t \<Rightarrow> bool"
  assumes known: "inv t \<Longrightarrow> counter t s = Some v \<Longrightarrow>
      \<exists>t'. next_seq t s q = Some (Accept (t', v)) \<and> inv t' \<and> counter t' = (counter t)(s \<mapsto> v + 1)"
    and fresh: "inv t \<Longrightarrow> counter t s = None \<Longrightarrow> \<not> full t \<Longrightarrow>
      \<exists>t'. next_seq t s q = Some (Accept (t', q)) \<and> inv t' \<and> counter t' = (counter t)(s \<mapsto> q + 1)"
    and refused: "inv t \<Longrightarrow> counter t s = None \<Longrightarrow> full t \<Longrightarrow> next_seq t s q = Some Reject"
begin

lemma step_cases:
  assumes "inv t"
  obtains (accept) t' v where "next_seq t s q = Some (Accept (t', v))" "inv t'"
      "counter t' = (counter t)(s \<mapsto> v + 1)" "\<And>w. counter t s = Some w \<Longrightarrow> v = w"
  | (reject) "next_seq t s q = Some Reject" "counter t s = None"
proof (cases "counter t s")
  case None
  then show ?thesis
    using fresh [OF assms None, of q] refused [OF assms None, of q] that by (cases "full t") auto
next
  case (Some v)
  then show ?thesis
    using known [OF assms Some, of q] that(1) by auto
qed

lemma run_contiguous:
  assumes "inv t" "run_requests next_seq t reqs = Some (t', outs)"
  shows "inv t' \<and> (\<exists>first. counts_from first (outs_of s outs) \<and> (\<forall>v. counter t s = Some v \<longrightarrow> first = v) \<and>
      counter t' s = (if outs_of s outs = [] then counter t s
        else Some (first + of_nat (length (outs_of s outs)))))"
  using assms
proof (induction reqs arbitrary: t outs)
  case Nil
  then show ?case
    by (cases "counter t s") (auto simp: outs_of_def)
next
  case (Cons r reqs)
  obtain s0 q where r: "r = (s0, q)"
    by (cases r)
  from Cons.prems(1) show ?case
  proof (cases rule: step_cases [where s = s0 and q = q])
    case (accept t1 v)
    from Cons.prems(2) accept(1) r obtain outs1
      where os: "run_requests next_seq t1 reqs = Some (t', outs1)" "outs = (s0, v) # outs1"
      by (auto simp: bind_eq_Some_conv)
    from Cons.IH [OF accept(2) os(1)] obtain first where
      f: "inv t'" "counts_from first (outs_of s outs1)" "\<And>v. counter t1 s = Some v \<Longrightarrow> first = v"
        "counter t' s = (if outs_of s outs1 = [] then counter t1 s
           else Some (first + of_nat (length (outs_of s outs1))))"
      by blast
    show ?thesis
    proof (cases "s0 = s")
      case True
      then have "first = v + 1" "outs_of s outs = v # outs_of s outs1"
        using f(3) accept(3) os(2) by (auto simp: outs_of_def)
      with f True accept(3,4) show ?thesis
        by (intro conjI exI [of _ v]) (auto simp: add.assoc)
    next
      case False
      with f accept(3) os(2) show ?thesis
        by (intro conjI exI [of _ first]) (auto simp: outs_of_def)
    qed
  next
    case reject
    with Cons.prems(2) r have "run_requests next_seq t reqs = Some (t', outs)"
      by simp
    with Cons.IH [OF Cons.prems(1)] show ?thesis
      by simp
  qed
qed

end

interpretation translator: ssrc_counters sfu_rtp_seq_translate translator_abs translator_inv translator_full
proof unfold_locales
  fix t s q v
  assume "translator_inv t" "translator_abs t s = Some v"
  then show "\<exists>t'. sfu_rtp_seq_translate t s q = Some (Accept (t', v)) \<and> translator_inv t' \<and>
      translator_abs t' = (translator_abs t)(s \<mapsto> v + 1)"
    using translate_refines [of t s q] by simp
next
  fix t s q
  assume "translator_inv t" "translator_abs t s = None" "\<not> translator_full t"
  then show "\<exists>t'. sfu_rtp_seq_translate t s q = Some (Accept (t', q)) \<and> translator_inv t' \<and>
      translator_abs t' = (translator_abs t)(s \<mapsto> q + 1)"
    using translate_refines [of t s q] by simp
next
  fix t s q
  assume "translator_inv t" "translator_abs t s = None" "translator_full t"
  then show "sfu_rtp_seq_translate t s q = Some Reject"
    using translate_refines [of t s q] by simp
qed

section \<open>Properties\<close>

text \<open>Property C4.  The probing hash table is a map from SSRCs to next sequence numbers: a
  known SSRC gets its next number and the map advances; an unknown one starts at the
  packet's own number; only a full table refuses, and then nothing changes.  Rolling back
  subtracts from the SSRC's counter and from no other.\<close>

theorem translator_refines_map:
  assumes "translator_inv t"
  shows "(case translator_abs t s of
      Some v \<Rightarrow> \<exists>t'. sfu_rtp_seq_translate t s q = Some (Accept (t', v)) \<and> translator_inv t' \<and>
        translator_abs t' = (translator_abs t)(s \<mapsto> v + 1)
    | None \<Rightarrow> if translator_full t then sfu_rtp_seq_translate t s q = Some Reject
        else \<exists>t'. sfu_rtp_seq_translate t s q = Some (Accept (t', q)) \<and> translator_inv t' \<and>
          translator_abs t' = (translator_abs t)(s \<mapsto> q + 1)) \<and>
    (case translator_abs t s of
      None \<Rightarrow> sfu_rtp_seq_translator_rollback t s count = Some Reject
    | Some v \<Rightarrow> if count = 0 then sfu_rtp_seq_translator_rollback t s count = Some Reject
        else \<exists>t'. sfu_rtp_seq_translator_rollback t s count = Some (Accept t') \<and> translator_inv t' \<and>
          translator_abs t' = (translator_abs t)(s \<mapsto> v - count))"
  using translate_refines [OF assms] rollback_refines [OF assms] by blast

theorem translator_refines_map_witness:
  "translator_inv sfu_rtp_seq_translator_init \<and>
   (\<exists>t'. sfu_rtp_seq_translate sfu_rtp_seq_translator_init 7 100 = Some (Accept (t', 100)) \<and>
     translator_abs t' = [7 \<mapsto> 101])"
  using translator_refines_map [OF init_refines(1), of 7 100 1] init_refines by auto

text \<open>Property C16.  Whatever the interleaving of streams, the sequence numbers given to one
  SSRC from a fresh table are consecutive modulo \<open>2^16\<close>.\<close>

theorem translator_contiguous:
  assumes "run_requests sfu_rtp_seq_translate sfu_rtp_seq_translator_init reqs = Some (t', outs)"
  shows "\<exists>first. counts_from first (outs_of s outs)"
  using translator.run_contiguous [OF init_refines(1) assms, of s] by blast

theorem translator_contiguous_witness:
  "\<exists>t' first. run_requests sfu_rtp_seq_translate sfu_rtp_seq_translator_init
     [(7, 65535), (7, 12)] = Some (t', [(7, 65535), (7, 0)]) \<and>
     counts_from first (outs_of 7 [(7, 65535), (7, 0)])"
proof -
  obtain t1 where t1: "sfu_rtp_seq_translate sfu_rtp_seq_translator_init 7 65535 = Some (Accept (t1, 65535))"
    "translator_inv t1" "translator_abs t1 7 = Some 0"
    using translator.fresh [OF init_refines(1), of 7 65535] init_refines by auto
  obtain t2 where t2: "sfu_rtp_seq_translate t1 7 12 = Some (Accept (t2, 0))"
    using translator.known [OF t1(2), of 7 0 12] t1(3) by auto
  have run: "run_requests sfu_rtp_seq_translate sfu_rtp_seq_translator_init
     [(7, 65535), (7, 12)] = Some (t2, [(7, 65535), (7, 0)])"
    using t1(1) t2 by simp
  with translator_contiguous [OF run, of 7] show ?thesis
    by blast
qed

end
