(* ===== verification/Twcc_Parser.thy ===== *)
theory Twcc_Parser
  imports Netbytes Twcc_History
begin

text \<open>
  The parser of transport-wide congestion control feedback
  (\<^verbatim>\<open>src/src/congestion/twcc_parser.c\<close>).
\<close>

section \<open>State\<close>

abbreviation TWCC_STATUS_NOT_RECEIVED :: u8 where "TWCC_STATUS_NOT_RECEIVED \<equiv> 0"
abbreviation TWCC_STATUS_SMALL_DELTA :: u8 where "TWCC_STATUS_SMALL_DELTA \<equiv> 1"
abbreviation TWCC_STATUS_LARGE_DELTA :: u8 where "TWCC_STATUS_LARGE_DELTA \<equiv> 2"
abbreviation TWCC_STATUS_RESERVED :: u8 where "TWCC_STATUS_RESERVED \<equiv> 3"
abbreviation TWCC_FIXED_LEN :: nat where "TWCC_FIXED_LEN \<equiv> 20"
abbreviation TWCC_REF_RANGE_US :: int where "TWCC_REF_RANGE_US \<equiv> 16777216 * 64000"

record sfu_twcc_status =
  ts_sequence_number :: u16
  ts_status :: u8
  ts_receive_time_us :: int

record sfu_twcc_parser =
  tp_len :: nat
  tp_base_seq :: u16
  tp_packet_status_count :: u16
  tp_current_time_us :: int
  tp_current_seq :: u16
  tp_chunk_offset :: nat
  tp_delta_offset :: nat
  tp_current_chunk :: u16
  tp_is_run_length :: bool
  tp_run_length_symbol :: u8
  tp_statuses_left :: u16
  tp_packets_processed :: u32
  tp_packets_lost :: u32
  tp_failed :: bool

text \<open>The remainder of C truncates towards zero, and a negative value converted to
  \<^verbatim>\<open>uint32_t\<close> wraps.\<close>

definition c_rem :: "int \<Rightarrow> int \<Rightarrow> int" where
  "c_rem a b = sgn a * (\<bar>a\<bar> mod \<bar>b\<bar>)"

definition u32_of :: "int \<Rightarrow> nat" where
  "u32_of x = nat (x mod 2 ^ 32)"

section \<open>Operations\<close>

function validate_chunks :: "bytes \<Rightarrow> nat \<Rightarrow> u16 \<Rightarrow> nat \<Rightarrow> nat \<Rightarrow> nat option" where
  "validate_chunks data len packet_status_count offset processed =
     (if processed < unat packet_status_count
      then if offset + 2 > len then Some 0
      else do {
        chunk \<leftarrow> sfu_read_be16 data offset;
        if chunk AND 0x8000 = 0
        then
          let symbol = drop_bit 13 chunk AND 3;
              run = chunk AND 0x1FFF
          in if symbol = 3 \<or> run = 0 then Some 0
             else if processed > u32_of (int (unat packet_status_count) - int (unat run)) then Some 0
             else validate_chunks data len packet_status_count (offset + 2) (processed + unat run)
        else
          let chunk_count = (if chunk AND 0x4000 \<noteq> 0 then 7 else 14)
          in if processed > u32_of (int (unat packet_status_count) - int chunk_count) then Some 0
             else validate_chunks data len packet_status_count (offset + 2) (processed + chunk_count)
      }
      else Some offset)"
  by pat_completeness auto
termination
  by (relation "measure (\<lambda>(data, len, count, offset, processed). unat count - processed)")
    (auto intro!: diff_less_mono2 simp: unat_gt_0 word_neq_0_conv [symmetric] split: if_splits)

declare validate_chunks.simps [simp del]

definition twcc_unwrap :: "int \<Rightarrow> int \<Rightarrow> int" where
  "twcc_unwrap ref_us unwrap_anchor_us =
     (if unwrap_anchor_us > 0
      then
        let delta = ref_us - c_rem unwrap_anchor_us TWCC_REF_RANGE_US;
            delta = c_rem (c_rem delta TWCC_REF_RANGE_US + TWCC_REF_RANGE_US + TWCC_REF_RANGE_US div 2)
                      TWCC_REF_RANGE_US - TWCC_REF_RANGE_US div 2
        in unwrap_anchor_us + delta
      else ref_us)"

definition sfu_twcc_parser_init :: "bytes \<Rightarrow> nat \<Rightarrow> int \<Rightarrow> sfu_twcc_parser ret option" where
  "sfu_twcc_parser_init data len unwrap_anchor_us =
     (if len < TWCC_FIXED_LEN then Some Reject
      else do {
        base_seq \<leftarrow> sfu_read_be16 data 12;
        count \<leftarrow> sfu_read_be16 data 14;
        delta_offset \<leftarrow> validate_chunks data len count TWCC_FIXED_LEN 0;
        if delta_offset = 0 then Some Reject
        else do {
          ref \<leftarrow> sfu_read_be24 data 16;
          Some (Accept \<lparr>tp_len = len, tp_base_seq = base_seq, tp_packet_status_count = count,
            tp_current_time_us = twcc_unwrap (uint ref * 64000) unwrap_anchor_us,
            tp_current_seq = base_seq, tp_chunk_offset = TWCC_FIXED_LEN, tp_delta_offset = delta_offset,
            tp_current_chunk = 0, tp_is_run_length = False, tp_run_length_symbol = 0,
            tp_statuses_left = 0, tp_packets_processed = 0, tp_packets_lost = 0, tp_failed = False\<rparr>)
        }
      })"

definition load_chunk :: "bytes \<Rightarrow> sfu_twcc_parser \<Rightarrow> (sfu_twcc_parser \<times> bool) option" where
  "load_chunk data parser =
     (if tp_statuses_left parser = 0
      then if tp_chunk_offset parser + 2 > tp_delta_offset parser then Some (parser, False)
      else do {
        chunk \<leftarrow> sfu_read_be16 data (tp_chunk_offset parser);
        let parser = parser\<lparr>tp_current_chunk := chunk, tp_chunk_offset := tp_chunk_offset parser + 2\<rparr>;
        let parser = (if chunk AND 0x8000 = 0
          then parser\<lparr>tp_is_run_length := True, tp_run_length_symbol := ucast (drop_bit 13 chunk AND 3),
            tp_statuses_left := chunk AND 0x1FFF\<rparr>
          else parser\<lparr>tp_is_run_length := False,
            tp_statuses_left := (if chunk AND 0x4000 \<noteq> 0 then 7 else 14)\<rparr>);
        Some (parser, tp_statuses_left parser \<noteq> 0)
      }
      else Some (parser, True))"

definition get_next_status :: "bytes \<Rightarrow> sfu_twcc_parser \<Rightarrow> (sfu_twcc_parser \<times> u8) option" where
  "get_next_status data parser = do {
     (parser, loaded) \<leftarrow> load_chunk data parser;
     if \<not> loaded then Some (parser, TWCC_STATUS_RESERVED)
     else do {
       let parser = parser\<lparr>tp_statuses_left := tp_statuses_left parser - 1\<rparr>;
       if tp_is_run_length parser then Some (parser, tp_run_length_symbol parser)
       else if tp_current_chunk parser AND 0x4000 \<noteq> 0
       then Some (parser, ucast (drop_bit (unat (tp_statuses_left parser) * 2) (tp_current_chunk parser) AND 3))
       else Some (parser, ucast (drop_bit (unat (tp_statuses_left parser)) (tp_current_chunk parser) AND 1))
     }
   }"

definition sfu_twcc_parser_next_status ::
    "bytes \<Rightarrow> sfu_twcc_parser \<Rightarrow> (sfu_twcc_parser \<times> sfu_twcc_status ret) option" where
  "sfu_twcc_parser_next_status data parser =
     (if tp_failed parser \<or> tp_packets_processed parser \<ge> ucast (tp_packet_status_count parser)
      then Some (parser, Reject)
      else do {
        (parser, status) \<leftarrow> get_next_status data parser;
        let seq = tp_current_seq parser;
        let parser = parser\<lparr>tp_current_seq := seq + 1,
          tp_packets_processed := tp_packets_processed parser + 1\<rparr>;
        let out = \<lparr>ts_sequence_number = seq, ts_status = status, ts_receive_time_us = 0\<rparr>;
        if status = TWCC_STATUS_NOT_RECEIVED
        then Some (parser\<lparr>tp_packets_lost := tp_packets_lost parser + 1\<rparr>, Accept out)
        else if status = TWCC_STATUS_RESERVED then Some (parser\<lparr>tp_failed := True\<rparr>, Reject)
        else if status = TWCC_STATUS_SMALL_DELTA
        then if tp_delta_offset parser + 1 > tp_len parser then Some (parser\<lparr>tp_failed := True\<rparr>, Reject)
        else do {
          b \<leftarrow> rd data (tp_delta_offset parser);
          let time = tp_current_time_us parser + uint b * 250;
          Some (parser\<lparr>tp_delta_offset := tp_delta_offset parser + 1, tp_current_time_us := time\<rparr>,
            Accept (out\<lparr>ts_receive_time_us := time\<rparr>))
        }
        else if tp_delta_offset parser + 2 > tp_len parser then Some (parser\<lparr>tp_failed := True\<rparr>, Reject)
        else do {
          w \<leftarrow> sfu_read_be16 data (tp_delta_offset parser);
          let time = tp_current_time_us parser + sint w * 250;
          Some (parser\<lparr>tp_delta_offset := tp_delta_offset parser + 2, tp_current_time_us := time\<rparr>,
            Accept (out\<lparr>ts_receive_time_us := time\<rparr>))
        }
      })"

text \<open>Every call that yields a status consumes one of the announced packets.\<close>

lemma get_next_status_frame:
  assumes "get_next_status data p = Some (p', st)"
  shows "tp_packets_processed p' = tp_packets_processed p \<and> tp_packet_status_count p' = tp_packet_status_count p \<and>
    tp_current_seq p' = tp_current_seq p \<and> tp_delta_offset p' = tp_delta_offset p \<and> tp_len p' = tp_len p \<and>
    tp_failed p' = tp_failed p \<and> tp_current_time_us p' = tp_current_time_us p"
  using assms by (auto simp: get_next_status_def load_chunk_def Let_def split: bind_splits if_splits)

lemma next_status_progress:
  assumes "sfu_twcc_parser_next_status data p = Some (p', Accept st)"
  shows "tp_packets_processed p < ucast (tp_packet_status_count p)"
    "tp_packets_processed p' = tp_packets_processed p + 1"
    "tp_packet_status_count p' = tp_packet_status_count p"
    "ts_sequence_number st = tp_current_seq p" "tp_current_seq p' = tp_current_seq p + 1"
  using assms by (auto simp: sfu_twcc_parser_next_status_def Let_def not_le split: bind_splits if_splits
      dest!: get_next_status_frame)

lemma next_status_left:
  assumes "sfu_twcc_parser_next_status data p = Some (p', Accept st)"
  shows "unat (tp_packet_status_count p') - unat (tp_packets_processed p') + 1 =
    unat (tp_packet_status_count p) - unat (tp_packets_processed p)"
proof -
  have "unat (tp_packets_processed p) < unat (tp_packet_status_count p)"
    using next_status_progress(1) [OF assms] by (simp add: word_less_nat_alt unat_ucast_up)
  moreover from this have "unat (tp_packets_processed p) + 1 < 4294967296"
    using unat_u16_less [of "tp_packet_status_count p"] by linarith
  then have "unat (tp_packets_processed p + 1) = unat (tp_packets_processed p) + 1"
    by (simp add: unat_word_ariths)
  ultimately show ?thesis
    by (simp add: next_status_progress [OF assms])
qed

lemma next_status_measure:
  assumes "sfu_twcc_parser_next_status data p = Some (p', Accept st)"
  shows "unat (tp_packet_status_count p') - unat (tp_packets_processed p') <
    unat (tp_packet_status_count p) - unat (tp_packets_processed p)"
  using next_status_left [OF assms] by linarith

function sfu_twcc_parser_next ::
    "bytes \<Rightarrow> sfu_twcc_parser \<Rightarrow> (sfu_twcc_parser \<times> gcc_packet_info ret) option" where
  "sfu_twcc_parser_next data parser = do {
     (parser, r) \<leftarrow> sfu_twcc_parser_next_status data parser;
     case r of
       Reject \<Rightarrow> Some (parser, Reject)
     | Accept status \<Rightarrow>
         if ts_status status = TWCC_STATUS_NOT_RECEIVED then sfu_twcc_parser_next data parser
         else Some (parser, Accept \<lparr>pi_sequence_number = ts_sequence_number status, pi_send_time_us = 0,
           pi_receive_time_us = ts_receive_time_us status, pi_size_bytes = 0\<rparr>)
   }"
  by pat_completeness auto
termination
  by (relation "measure (\<lambda>(data, p). unat (tp_packet_status_count p) - unat (tp_packets_processed p))")
    (auto dest: next_status_measure)

declare sfu_twcc_parser_next.simps [simp del]

section \<open>Memory safety and termination\<close>

text \<open>One round of the chunk loop; \<open>n\<close> is what the chunk adds, if it is accepted.\<close>

lemma validate_round:
  assumes "processed < unat count" "offset + 2 \<le> len" "len \<le> length data"
    and "chunk = be16 (data ! offset) (data ! (offset + 1))"
    and "n = (if chunk AND 0x8000 = 0 then unat (chunk AND 0x1FFF) else if chunk AND 0x4000 \<noteq> 0 then 7 else 14)"
  shows "validate_chunks data len count offset processed =
    (if chunk AND 0x8000 = 0 \<and> (drop_bit 13 chunk AND 3 = 3 \<or> n = 0) \<or>
        processed > u32_of (int (unat count) - int n) then Some 0
     else validate_chunks data len count (offset + 2) (processed + n))"
proof -
  have "sfu_read_be16 data offset = Some chunk"
    using assms by simp
  moreover have "unat (chunk AND 0x1FFF) = 0 \<longleftrightarrow> chunk AND 0x1FFF = 0"
    by (simp add: unat_eq_0)
  ultimately show ?thesis
    using assms(1,2) by (subst validate_chunks.simps) (simp add: Let_def assms(5))
qed

lemma validate_ok:
  assumes "len \<le> length data" "offset \<le> len"
  shows "ok (validate_chunks data len count offset processed) (\<lambda>r. r = 0 \<or> offset \<le> r \<and> r \<le> len)"
  using assms
proof (induction "len - offset" arbitrary: offset processed rule: less_induct)
  case less
  show ?case
  proof (cases "processed < unat count \<and> offset + 2 \<le> len")
    case False
    then show ?thesis
      using less.prems by (subst validate_chunks.simps) (auto simp: ok_simps)
  next
    case True
    have "ok (validate_chunks data len count (offset + 2) p) (\<lambda>r. r = 0 \<or> offset \<le> r \<and> r \<le> len)" for p
      by (rule ok_mono [OF less.hyps [of "offset + 2" p]]) (use True less.prems in auto)
    then show ?thesis
      using validate_round [OF _ _ less.prems(1) refl refl, of processed count offset] True
      by (auto simp: ok_Some)
  qed
qed

definition twcc_parser_inv :: "bytes \<Rightarrow> sfu_twcc_parser \<Rightarrow> bool" where
  "twcc_parser_inv data p \<longleftrightarrow> tp_delta_offset p \<le> tp_len p \<and> tp_len p \<le> length data"

lemma init_ok:
  assumes "len \<le> length data"
  shows "ok (sfu_twcc_parser_init data len anchor) (\<lambda>r. \<forall>p. r = Accept p \<longrightarrow> twcc_parser_inv data p \<and>
    tp_packets_processed p = 0 \<and> tp_current_seq p = tp_base_seq p)"
  using assms
  by (auto simp: sfu_twcc_parser_init_def ok_simps twcc_parser_inv_def
      intro!: ok_mono [OF validate_ok])

lemma get_next_status_ok:
  assumes "twcc_parser_inv data p"
  shows "\<exists>p' st. get_next_status data p = Some (p', st)"
proof -
  have "ok (load_chunk data p) (\<lambda>_. True)"
    using assms by (auto simp: load_chunk_def Let_def ok_simps twcc_parser_inv_def)
  then show ?thesis
    by (auto simp: get_next_status_def Let_def elim!: okE)
qed

lemma next_status_ok:
  assumes "twcc_parser_inv data p"
  shows "\<exists>p' r. sfu_twcc_parser_next_status data p = Some (p', r) \<and> twcc_parser_inv data p'"
proof -
  obtain q st where q: "get_next_status data p = Some (q, st)"
    using get_next_status_ok [OF assms] by blast
  then show ?thesis
    using assms get_next_status_frame [OF q]
    by (auto simp: sfu_twcc_parser_next_status_def Let_def twcc_parser_inv_def)
qed

lemma u32_of_nat: "n < 4294967296 \<Longrightarrow> u32_of (int n) = n"
  unfolding u32_of_def by (subst mod_pos_pos_trivial) simp_all

lemma u32_of_diff: "b \<le> a \<Longrightarrow> a < 4294967296 \<Longrightarrow> u32_of (int a - int b) = a - b"
  using u32_of_nat [of "a - b"] by (simp add: of_nat_diff less_imp_diff_less)

lemma u32_of_neg: "a < b \<Longrightarrow> b \<le> 65536 \<Longrightarrow> 65536 \<le> u32_of (int a - int b)"
proof -
  assume *: "a < b" "b \<le> 65536"
  have "(int a - int b) mod 2 ^ 32 = (int a - int b + 2 ^ 32) mod 2 ^ 32"
    by simp
  also have "\<dots> = int a - int b + 2 ^ 32"
    using * by (intro mod_pos_pos_trivial) auto
  finally show ?thesis
    using * by (simp add: u32_of_def)
qed

section \<open>Which packets are accepted\<close>

text \<open>The chunk words after the fixed part, the statuses each of them stands for, and the statuses before
  the chunk \<open>k\<close>.\<close>

definition chunk_word :: "bytes \<Rightarrow> nat \<Rightarrow> u16" where
  "chunk_word data k = be16 (data ! (20 + 2 * k)) (data ! (20 + 2 * k + 1))"

definition chunk_size :: "u16 \<Rightarrow> nat" where
  "chunk_size chunk = (if chunk AND 0x8000 = 0 then unat (chunk AND 0x1FFF) else if chunk AND 0x4000 \<noteq> 0 then 7 else 14)"

definition chunk_legal :: "u16 \<Rightarrow> bool" where
  "chunk_legal chunk \<longleftrightarrow> chunk AND 0x8000 \<noteq> 0 \<or> drop_bit 13 chunk AND 3 \<noteq> 3 \<and> chunk_size chunk \<noteq> 0"

primrec statuses_before :: "bytes \<Rightarrow> nat \<Rightarrow> nat" where
  "statuses_before data 0 = 0"
| "statuses_before data (Suc k) = statuses_before data k + chunk_size (chunk_word data k)"

text \<open>The chunks from \<open>k\<close> up to \<open>m\<close> are in the packet and legal, each is needed, none exceeds the
  announced number of statuses unless it alone is larger, and together they are enough.\<close>

definition chunks_cover :: "bytes \<Rightarrow> nat \<Rightarrow> nat \<Rightarrow> nat \<Rightarrow> nat \<Rightarrow> bool" where
  "chunks_cover data len count k m \<longleftrightarrow> k \<le> m \<and> 20 + 2 * m \<le> len \<and> count \<le> statuses_before data m \<and>
     (\<forall>j. k \<le> j \<and> j < m \<longrightarrow> chunk_legal (chunk_word data j) \<and> statuses_before data j < count \<and>
        (chunk_size (chunk_word data j) \<le> count \<longrightarrow> statuses_before data (Suc j) \<le> count))"

lemma chunk_size_le: "chunk_size chunk \<le> 65535"
  using unat_and_le [of chunk "0x1FFF"] by (simp add: chunk_size_def)

lemma chunks_cover_Suc:
  "statuses_before data k < count \<Longrightarrow>
   chunks_cover data len count k m \<longleftrightarrow> chunk_legal (chunk_word data k) \<and>
     (chunk_size (chunk_word data k) \<le> count \<longrightarrow> statuses_before data (Suc k) \<le> count) \<and>
     chunks_cover data len count (Suc k) m"
  unfolding chunks_cover_def by (metis Suc_leD Suc_leI le_neq_implies_less not_less order_refl)

lemma validate_cover:
  assumes "len \<le> length data" "20 + 2 * k \<le> len"
  shows "(\<exists>m. chunks_cover data len (unat count) k m \<and>
      validate_chunks data len count (20 + 2 * k) (statuses_before data k) = Some (20 + 2 * m)) \<or>
    (\<nexists>m. chunks_cover data len (unat count) k m) \<and>
      validate_chunks data len count (20 + 2 * k) (statuses_before data k) = Some 0"
  using assms(2)
proof (induction "len - 2 * k" arbitrary: k rule: less_induct)
  case less
  define n where "n = chunk_size (chunk_word data k)"
  consider (enough) "unat count \<le> statuses_before data k"
    | (short) "statuses_before data k < unat count" "\<not> 20 + 2 * k + 2 \<le> len"
    | (round) "statuses_before data k < unat count" "20 + 2 * k + 2 \<le> len"
    by linarith
  then show ?case
  proof cases
    case enough
    then have "chunks_cover data len (unat count) k k"
      using less.prems by (auto simp: chunks_cover_def)
    moreover have "validate_chunks data len count (20 + 2 * k) (statuses_before data k) = Some (20 + 2 * k)"
      using enough by (subst validate_chunks.simps) simp
    ultimately show ?thesis
      by blast
  next
    case short
    then have "\<not> chunks_cover data len (unat count) k m" for m
      by (cases "m = k") (auto simp: chunks_cover_def)
    moreover have "validate_chunks data len count (20 + 2 * k) (statuses_before data k) = Some 0"
      using short by (subst validate_chunks.simps) simp
    ultimately show ?thesis
      by blast
  next
    case round
    have n: "n \<le> 65536"
      using chunk_size_le [of "chunk_word data k"] by (simp add: n_def)
    have "b > u32_of (int c - int n) \<longleftrightarrow> n \<le> c \<and> c < b + n" if "b < c" "c < 65536" for b c
    proof (cases "n \<le> c")
      case True
      then show ?thesis
        using u32_of_diff [of n c] that by auto
    next
      case False
      then show ?thesis
        using u32_of_neg [of c n] n that by auto
    qed
    note fits = this [OF round(1) unat_u16_less]
    have legal: "chunk_legal (chunk_word data k) \<longleftrightarrow>
        \<not> (chunk_word data k AND 0x8000 = 0 \<and> (drop_bit 13 (chunk_word data k) AND 3 = 3 \<or> n = 0))"
      by (auto simp: chunk_legal_def n_def)
    have v: "validate_chunks data len count (20 + 2 * k) (statuses_before data k) =
        (if chunk_legal (chunk_word data k) \<and> (n \<le> unat count \<longrightarrow> statuses_before data (Suc k) \<le> unat count)
         then validate_chunks data len count (20 + 2 * Suc k) (statuses_before data (Suc k)) else Some 0)"
      using validate_round [OF round assms(1) chunk_word_def n_def [unfolded chunk_size_def]] fits legal
      by (auto simp: n_def not_less)
    show ?thesis
      using less.hyps [of "Suc k"] round(2) chunks_cover_Suc [OF round(1), of len] v by (auto simp: n_def)
  qed
qed

section \<open>The loop over the statuses\<close>

text \<open>The parser after \<open>n\<close> calls.\<close>

primrec parser_after :: "nat \<Rightarrow> bytes \<Rightarrow> sfu_twcc_parser \<Rightarrow> sfu_twcc_parser option" where
  "parser_after 0 data p = Some p"
| "parser_after (Suc n) data p = do { (p, r) \<leftarrow> sfu_twcc_parser_next_status data p; parser_after n data p }"

lemma next_status_Reject:
  assumes "sfu_twcc_parser_next_status data p = Some (p', Reject)"
  shows "tp_failed p' \<or> unat (tp_packet_status_count p) \<le> unat (tp_packets_processed p)"
  using assms by (auto simp: sfu_twcc_parser_next_status_def Let_def word_le_nat_alt unat_ucast_up
      split: bind_splits if_splits)

lemma drain_statuses:
  assumes "twcc_parser_inv data p" "unat (tp_packet_status_count p) - unat (tp_packets_processed p) < n"
  shows "\<exists>xs p'. drain n (sfu_twcc_parser_next_status data) p = Some xs \<and>
    length xs \<le> unat (tp_packet_status_count p) - unat (tp_packets_processed p) \<and>
    (\<forall>i < length xs. ts_sequence_number (xs ! i) = tp_current_seq p + of_nat i) \<and>
    parser_after (length xs + 1) data p = Some p' \<and>
    (length xs = unat (tp_packet_status_count p) - unat (tp_packets_processed p) \<or> tp_failed p')"
  using assms
proof (induction n arbitrary: p)
  case (Suc n)
  obtain p' r where nx: "sfu_twcc_parser_next_status data p = Some (p', r)" "twcc_parser_inv data p'"
    using next_status_ok [OF Suc.prems(1)] by blast
  show ?case
  proof (cases r)
    case Reject
    then show ?thesis
      using nx(1) next_status_Reject [of data p p'] by (auto simp: One_nat_def)
  next
    case (Accept st)
    note st = nx(1) [unfolded Accept]
    note step = next_status_measure [OF st] next_status_progress [OF st]
    have left: "unat (tp_packet_status_count p') - unat (tp_packets_processed p') + 1 =
        unat (tp_packet_status_count p) - unat (tp_packets_processed p)"
      using next_status_left [OF st] .
    obtain xs q where "drain n (sfu_twcc_parser_next_status data) p' = Some xs"
      "length xs \<le> unat (tp_packet_status_count p') - unat (tp_packets_processed p')"
      "\<forall>i < length xs. ts_sequence_number (xs ! i) = tp_current_seq p' + of_nat i"
      "parser_after (length xs + 1) data p' = Some q"
      "length xs = unat (tp_packet_status_count p') - unat (tp_packets_processed p') \<or> tp_failed q"
      using Suc.IH [OF nx(2)] Suc.prems(2) step(1) by auto
    then show ?thesis
      using st step(2-) left by (intro exI [of _ "st # xs"] exI [of _ q])
        (auto simp: nth_Cons' less_Suc_eq_0_disj algebra_simps One_nat_def)
  qed
qed simp

text \<open>Property C12. On every packet the parser reads only bytes of the packet.  It accepts the packet exactly
  when its chunks are legal and cover the announced number of statuses.  The loop over the statuses of an
  accepted packet ends after at most the announced number of packets, with consecutive sequence numbers from
  the base, and earlier only if the parser has marked the packet as malformed.\<close>

theorem twcc_parser_total:
  assumes "len \<le> length data"
  shows "\<exists>r. sfu_twcc_parser_init data len anchor = Some r \<and>
    ((\<exists>p. r = Accept p) \<longleftrightarrow> 20 \<le> len \<and> (\<exists>m. chunks_cover data len (unat (be16 (data ! 14) (data ! 15))) 0 m)) \<and>
    (\<forall>p. r = Accept p \<longrightarrow> tp_packet_status_count p = be16 (data ! 14) (data ! 15) \<and>
      tp_base_seq p = be16 (data ! 12) (data ! 13) \<and>
      (\<exists>xs p'. drain (unat (tp_packet_status_count p) + 1) (sfu_twcc_parser_next_status data) p = Some xs \<and>
        length xs \<le> unat (tp_packet_status_count p) \<and>
        (\<forall>i < length xs. ts_sequence_number (xs ! i) = tp_base_seq p + of_nat i) \<and>
        parser_after (length xs + 1) data p = Some p' \<and>
        (length xs = unat (tp_packet_status_count p) \<or> tp_failed p')))"
proof -
  obtain r where r: "sfu_twcc_parser_init data len anchor = Some r"
    "\<And>p. r = Accept p \<Longrightarrow> twcc_parser_inv data p \<and> tp_packets_processed p = 0 \<and> tp_current_seq p = tp_base_seq p"
    using init_ok [OF assms, of anchor] by (auto elim!: okE)
  have acc: "((\<exists>p. r = Accept p) \<longleftrightarrow> 20 \<le> len \<and> (\<exists>m. chunks_cover data len (unat (be16 (data ! 14) (data ! 15))) 0 m)) \<and>
      (\<forall>p. r = Accept p \<longrightarrow> tp_packet_status_count p = be16 (data ! 14) (data ! 15) \<and> tp_base_seq p = be16 (data ! 12) (data ! 13))"
  proof (cases "20 \<le> len")
    case True
    then show ?thesis
      using validate_cover [OF assms, of 0 "be16 (data ! 14) (data ! 15)"] r(1) assms
      by (auto simp: sfu_twcc_parser_init_def)
  qed (use r(1) in \<open>auto simp: sfu_twcc_parser_init_def\<close>)
  have "\<exists>xs p'. drain (unat (tp_packet_status_count p) + 1) (sfu_twcc_parser_next_status data) p = Some xs \<and>
        length xs \<le> unat (tp_packet_status_count p) \<and>
        (\<forall>i < length xs. ts_sequence_number (xs ! i) = tp_base_seq p + of_nat i) \<and>
        parser_after (length xs + 1) data p = Some p' \<and>
        (length xs = unat (tp_packet_status_count p) \<or> tp_failed p')" if "r = Accept p" for p
    using drain_statuses [of data p "unat (tp_packet_status_count p) + 1"] r(2) [OF that] by simp
  with r(1) acc show ?thesis
    by blast
qed

section \<open>Partial final chunks\<close>

definition two_bit_chunks :: "bytes \<Rightarrow> nat \<Rightarrow> nat \<Rightarrow> bool" where
  "two_bit_chunks data len count \<longleftrightarrow> (\<forall>k. 7 * k < count \<and> 20 + 2 * k + 2 \<le> len \<longrightarrow>
     (let chunk = be16 (data ! (20 + 2 * k)) (data ! (20 + 2 * k + 1))
      in chunk AND 0x8000 \<noteq> 0 \<and> chunk AND 0x4000 \<noteq> 0))"

lemma validate_two_bit:
  assumes "len \<le> length data" "two_bit_chunks data len (unat count)" "7 \<le> unat count" "\<not> 7 dvd unat count"
    and "offset = 20 + 2 * k" "processed = 7 * k" "processed < unat count"
  shows "validate_chunks data len count offset processed = Some 0"
  using assms
proof (induction "len - offset" arbitrary: offset processed k rule: less_induct)
  case less
  show ?case
  proof (cases "offset + 2 \<le> len")
    case False
    then show ?thesis
      using less.prems by (subst validate_chunks.simps) simp
  next
    case True
    define chunk where "chunk = be16 (data ! offset) (data ! (offset + 1))"
    have chunk: "chunk AND 0x8000 \<noteq> 0" "chunk AND 0x4000 \<noteq> 0"
      using less.prems(2,5,6,7) True by (auto simp: two_bit_chunks_def chunk_def Let_def)
    have "u32_of (int (unat count) - int 7) = unat count - 7"
      using less.prems(3) order_less_trans [OF unat_u16_less [of count]] by (intro u32_of_diff) simp_all
    then have round: "validate_chunks data len count offset processed =
        (if processed > unat count - 7 then Some 0
         else validate_chunks data len count (offset + 2) (processed + 7))"
      using validate_round [OF less.prems(7) True less.prems(1) chunk_def refl] chunk by simp
    have "processed + 7 \<noteq> unat count"
      using less.prems(4,6) by (metis dvd_add_triv_right_iff dvd_triv_left)
    then have "processed \<le> unat count - 7 \<Longrightarrow> processed + 7 < unat count"
      using less.prems(3) by linarith
    moreover have "validate_chunks data len count (offset + 2) (processed + 7) = Some 0"
      if "processed + 7 < unat count"
      by (rule less.hyps [of "offset + 2" "k + 1"]) (use True less.prems(1-6) that in \<open>simp_all add: algebra_simps\<close>)
    ultimately show ?thesis
      using round by (cases "unat count - 7 < processed") (simp_all only: if_True if_False not_less)
  qed
qed

text \<open>Property C26. A feedback packet of two-bit status vectors is rejected whenever it announces seven
  packets or more and not a multiple of seven, so that its last vector has excess symbols;
  excess symbols are tolerated only below seven packets, where the unsigned difference
  in the check wraps.\<close>

theorem twcc_partial_vector_rejected:
  assumes "20 \<le> len" "len \<le> length data" "count = be16 (data ! 14) (data ! 15)"
    and "two_bit_chunks data len (unat count)" "7 \<le> unat count" "\<not> 7 dvd unat count"
  shows "sfu_twcc_parser_init data len anchor = Some Reject"
  using validate_two_bit [OF assms(2,4,5,6), of 20 0 0] assms
  by (simp add: sfu_twcc_parser_init_def)

section \<open>Reference time\<close>

lemma c_rem_pos: "0 \<le> a \<Longrightarrow> 0 < b \<Longrightarrow> c_rem a b = a mod b"
  by (cases "a = 0") (simp_all add: c_rem_def)

lemma c_rem_range:
  assumes "0 < b"
  shows "- b < c_rem a b \<and> c_rem a b mod b = a mod b"
proof (cases "0 \<le> a")
  case True
  then show ?thesis
    using assms pos_mod_sign [OF assms, of a] by (simp add: c_rem_pos del: pos_mod_sign)
next
  case False
  then have "c_rem a b = - ((- a) mod b)"
    using assms by (simp add: c_rem_def)
  then show ?thesis
    using assms pos_mod_bound [OF assms, of "- a"] by (simp add: mod_minus_eq del: pos_mod_bound)
qed

lemma unwrap_fold:
  fixes R H anchor ref :: int
  assumes "R = 2 * H" "0 < H" "0 < anchor" "0 \<le> ref" "ref < R"
    and "d = c_rem (c_rem (ref - c_rem anchor R) R + R + H) R - H"
  shows "(anchor + d) mod R = ref \<and> - H \<le> d \<and> d < H"
proof -
  define d1 where "d1 = c_rem (ref - anchor mod R) R"
  have R: "0 < R"
    using assms by simp
  have d1: "- R < d1" "d1 mod R = (ref - anchor mod R) mod R"
    using c_rem_range [OF R, of "ref - anchor mod R"] by (simp_all add: d1_def)
  have d: "d = (d1 + R + H) mod R - H"
    using assms(2,3,6) R d1(1) by (simp add: d1_def c_rem_pos)
  have "anchor + d = (anchor + d1) + (1 - (d1 + R + H) div R) * R"
    by (simp add: d minus_div_mult_eq_mod [symmetric] algebra_simps)
  then have "(anchor + d) mod R = (anchor + d1) mod R"
    by (simp only: mod_mult_self1)
  also have "\<dots> = (anchor + (ref - anchor mod R)) mod R"
    by (metis d1(2) mod_add_right_eq)
  also have "anchor + (ref - anchor mod R) = ref + (anchor div R) * R"
    by (simp add: minus_mod_eq_div_mult [symmetric])
  also have "(ref + (anchor div R) * R) mod R = ref"
    using assms(4,5) by simp
  finally show ?thesis
    using pos_mod_bound [OF R, of "d1 + R + H"] pos_mod_sign [OF R, of "d1 + R + H"] assms(1) d by linarith
qed

text \<open>Property C27. The unwrapped reference time agrees with the 24-bit field modulo its range and
  lies within half a range of the anchor, the lower end included.\<close>

theorem twcc_unwrap_nearest:
  assumes "0 < anchor" "0 \<le> ref" "ref < TWCC_REF_RANGE_US"
  shows "twcc_unwrap ref anchor mod TWCC_REF_RANGE_US = ref \<and>
    - (TWCC_REF_RANGE_US div 2) \<le> twcc_unwrap ref anchor - anchor \<and>
    twcc_unwrap ref anchor - anchor < TWCC_REF_RANGE_US div 2"
  using unwrap_fold [OF _ _ assms refl, of "TWCC_REF_RANGE_US div 2"] assms(1)
  by (simp add: twcc_unwrap_def Let_def)

theorem twcc_unwrap_nearest_witness:
  "twcc_unwrap 320000 (TWCC_REF_RANGE_US - 64000) mod TWCC_REF_RANGE_US = 320000 \<and>
   TWCC_REF_RANGE_US - 64000 < twcc_unwrap 320000 (TWCC_REF_RANGE_US - 64000)"
  using twcc_unwrap_nearest [of "TWCC_REF_RANGE_US - 64000" 320000]
  by (simp add: twcc_unwrap_def Let_def c_rem_def)

text \<open>At exactly half a range the reference goes to the lower end, not to the upper one.\<close>

lemma twcc_unwrap_half:
  "twcc_unwrap (TWCC_REF_RANGE_US div 2) TWCC_REF_RANGE_US = TWCC_REF_RANGE_US - TWCC_REF_RANGE_US div 2"
  by (simp add: twcc_unwrap_def Let_def c_rem_def)

section \<open>Witnesses\<close>

definition sample_twcc :: bytes where
  "sample_twcc = [0x8F, 205, 0, 6, 0, 0, 0, 1, 0, 0, 0, 2, 0, 10, 0, 8, 0, 0, 1, 0,
     0xD5, 0x55, 0xD0, 0, 4, 4, 4, 4]"

theorem twcc_partial_vector_rejected_witness:
  "sfu_twcc_parser_init sample_twcc 24 0 = Some Reject"
proof (rule twcc_partial_vector_rejected [OF _ _ refl])
  show "two_bit_chunks sample_twcc 24 (unat (be16 (sample_twcc ! 14) (sample_twcc ! 15)))"
    unfolding two_bit_chunks_def
  proof (intro allI impI)
    fix k :: nat
    assume "7 * k < unat (be16 (sample_twcc ! 14) (sample_twcc ! 15)) \<and> 20 + 2 * k + 2 \<le> 24"
    then have "k = 0 \<or> k = 1"
      by linarith
    then show "let chunk = be16 (sample_twcc ! (20 + 2 * k)) (sample_twcc ! (20 + 2 * k + 1))
        in chunk AND 0x8000 \<noteq> 0 \<and> chunk AND 0x4000 \<noteq> 0"
      by (auto simp: sample_twcc_def be16_def Let_def)
  qed
qed (simp_all add: sample_twcc_def be16_def)

text \<open>Seven packets in one vector, the last of them lost.\<close>

definition sample_full :: bytes where
  "sample_full = [0x8F, 205, 0, 7, 0, 0, 0, 1, 0, 0, 0, 2, 0, 10, 0, 7, 0, 0, 1, 0,
     0xD5, 0x54, 4, 4, 4, 4, 4, 4, 0, 2]"

lemma sample_full_statuses:
  "case sfu_twcc_parser_init sample_full 30 0 of Some (Accept p) \<Rightarrow>
     tp_packet_status_count p = 7 \<and> map_option (map ts_receive_time_us) (drain 8 (sfu_twcc_parser_next_status sample_full) p) =
       Some [65000, 66000, 67000, 68000, 69000, 70000, 0]
   | _ \<Rightarrow> False"
  by code_simp

theorem twcc_parser_total_witness:
  "\<exists>p xs. sfu_twcc_parser_init sample_full 30 0 = Some (Accept p) \<and> (\<exists>m. chunks_cover sample_full 30 7 0 m) \<and>
     drain 8 (sfu_twcc_parser_next_status sample_full) p = Some xs \<and> length xs = 7 \<and>
     ts_sequence_number (xs ! 6) = 16 \<and> map ts_receive_time_us xs = [65000, 66000, 67000, 68000, 69000, 70000, 0]"
proof -
  obtain p where p: "sfu_twcc_parser_init sample_full 30 0 = Some (Accept p)" "tp_packet_status_count p = 7"
      "map_option (map ts_receive_time_us) (drain 8 (sfu_twcc_parser_next_status sample_full) p) =
        Some [65000, 66000, 67000, 68000, 69000, 70000, 0]"
    using sample_full_statuses by (auto split: option.splits ret.splits)
  then obtain xs where xs: "drain 8 (sfu_twcc_parser_next_status sample_full) p = Some xs"
      "map ts_receive_time_us xs = [65000, 66000, 67000, 68000, 69000, 70000, 0]"
    by auto
  have len: "30 \<le> length sample_full" "be16 (sample_full ! 14) (sample_full ! 15) = 7" "be16 (sample_full ! 12) (sample_full ! 13) = 10"
    by (simp_all add: sample_full_def be16_def)
  have "length xs = 7"
    using arg_cong [OF xs(2), of length] by simp
  then show ?thesis
    using twcc_parser_total [OF len(1), of 0] p xs len(2,3) by auto
qed

end
