(* ===== verification/Twcc_Feedback.thy ===== *)
theory Twcc_Feedback
  imports Twcc_Parser
begin

text \<open>
  The receive tracker and the builder of transport-wide congestion control feedback
  (\<^verbatim>\<open>src/src/congestion/twcc_feedback.c\<close>).  The status, arrival and delta arrays of the
  builder are lists of the window's length; the chunk and delta buffers are lists of the
  bytes written so far.
\<close>

section \<open>Receive tracker\<close>

abbreviation SFU_TWCC_RECV_CAPACITY :: nat where "SFU_TWCC_RECV_CAPACITY \<equiv> 1024"
abbreviation SFU_TWCC_RECV_MASK :: u16 where "SFU_TWCC_RECV_MASK \<equiv> 1023"
abbreviation SFU_TWCC_FEEDBACK_MAX_PACKETS :: nat where "SFU_TWCC_FEEDBACK_MAX_PACKETS \<equiv> 256"

record sfu_twcc_recv_entry =
  rv_seq :: u16
  rv_arrival_us :: int
  rv_valid :: bool

record sfu_twcc_recv_tracker =
  tr_entries :: "sfu_twcc_recv_entry list"
  tr_started :: bool
  tr_report_start_seq :: u16
  tr_latest_seq :: u16
  tr_last_feedback_us :: int
  tr_fb_pkt_count :: u8
  tr_have_kernel_clock :: bool
  tr_last_arrival_us :: int

definition sfu_twcc_recv_tracker_init :: sfu_twcc_recv_tracker where
  "sfu_twcc_recv_tracker_init =
     \<lparr>tr_entries = replicate SFU_TWCC_RECV_CAPACITY \<lparr>rv_seq = 0, rv_arrival_us = 0, rv_valid = False\<rparr>,
      tr_started = False, tr_report_start_seq = 0, tr_latest_seq = 0, tr_last_feedback_us = 0,
      tr_fb_pkt_count = 0, tr_have_kernel_clock = False, tr_last_arrival_us = 0\<rparr>"

definition recv_idx :: "u16 \<Rightarrow> nat" where
  "recv_idx seq = unat (seq AND SFU_TWCC_RECV_MASK)"

definition sfu_twcc_recv_tracker_record ::
    "sfu_twcc_recv_tracker \<Rightarrow> u16 \<Rightarrow> int \<Rightarrow> sfu_twcc_recv_tracker option" where
  "sfu_twcc_recv_tracker_record t seq arrival_us = do {
     entries \<leftarrow> aset (tr_entries t) (recv_idx seq) \<lparr>rv_seq = seq, rv_arrival_us = arrival_us, rv_valid = True\<rparr>;
     let t = t\<lparr>tr_entries := entries\<rparr>;
     if \<not> tr_started t
     then Some (t\<lparr>tr_started := True, tr_report_start_seq := seq, tr_latest_seq := seq\<rparr>)
     else
       let fwd = unat (seq - tr_latest_seq t)
       in Some (if fwd > 0 \<and> fwd < 0x8000 then t\<lparr>tr_latest_seq := seq\<rparr> else t)
   }"

definition sfu_twcc_recv_tracker_pending :: "sfu_twcc_recv_tracker \<Rightarrow> bool" where
  "sfu_twcc_recv_tracker_pending t =
     (if \<not> tr_started t then False
      else let fwd = unat (tr_latest_seq t - tr_report_start_seq t) in fwd < 0x8000)"

section \<open>Feedback builder\<close>

definition be16_bytes :: "u16 \<Rightarrow> bytes" where
  "be16_bytes v = [ucast (drop_bit 8 v), ucast v]"

definition write_run_chunk :: "u8 \<Rightarrow> u16 \<Rightarrow> bytes" where
  "write_run_chunk symbol run = be16_bytes (push_bit 13 (ucast symbol) OR (run AND 0x1FFF))"

fun vector_symbols :: "nat \<Rightarrow> u8 list \<Rightarrow> u16 \<Rightarrow> u16" where
  "vector_symbols k [] chunk = chunk"
| "vector_symbols k (sy # symbols) chunk =
     vector_symbols (k + 1) symbols (chunk OR push_bit (12 - 2 * k) (ucast sy AND 3))"

definition write_vector_chunk :: "u8 list \<Rightarrow> bytes" where
  "write_vector_chunk symbols = be16_bytes (vector_symbols 0 symbols (0x8000 OR 0x4000))"

definition c_quot :: "int \<Rightarrow> int \<Rightarrow> int" where
  "c_quot a b = sgn a * sgn b * (\<bar>a\<bar> div \<bar>b\<bar>)"

definition feedback_window :: "sfu_twcc_recv_tracker \<Rightarrow> nat" where
  "feedback_window t =
     (let window = unat (tr_latest_seq t - tr_report_start_seq t) + 1
      in if window > SFU_TWCC_FEEDBACK_MAX_PACKETS then SFU_TWCC_FEEDBACK_MAX_PACKETS else window)"

text \<open>The arrival time of each packet of the window, \<open>None\<close> for a packet not received.\<close>

definition window_arrival :: "sfu_twcc_recv_tracker \<Rightarrow> u16 \<Rightarrow> int option" where
  "window_arrival t seq =
     (let e = tr_entries t ! recv_idx seq
      in if rv_valid e \<and> rv_seq e = seq then Some (rv_arrival_us e) else None)"

definition window_arrivals :: "sfu_twcc_recv_tracker \<Rightarrow> u16 \<Rightarrow> nat \<Rightarrow> int option list" where
  "window_arrivals t base_seq window = map (\<lambda>i. window_arrival t (base_seq + of_nat i)) [0..<window]"

fun reference_us :: "int option list \<Rightarrow> int" where
  "reference_us [] = 0"
| "reference_us (None # as) = reference_us as"
| "reference_us (Some a # as) = a"

definition delta_units :: "int \<Rightarrow> int" where
  "delta_units d_us = (if d_us \<ge> 0 then (d_us + 125) div 250 else - ((- d_us + 125) div 250))"

fun quantise :: "int \<Rightarrow> int option list \<Rightarrow> (u8 \<times> int) list" where
  "quantise clock_us [] = []"
| "quantise clock_us (None # as) = (TWCC_STATUS_NOT_RECEIVED, 0) # quantise clock_us as"
| "quantise clock_us (Some a # as) =
     (let units = delta_units (a - clock_us);
          large = (units < 0 \<or> units > 255);
          status = (if large then TWCC_STATUS_LARGE_DELTA else TWCC_STATUS_SMALL_DELTA);
          units = (if large \<and> units > 32767 then 32767 else units);
          units = (if large \<and> units < -32768 then -32768 else units)
      in (status, units) # quantise (clock_us + units * 250) as)"

fun vector_chunks :: "u8 list \<Rightarrow> bytes" where
  "vector_chunks [] = []"
| "vector_chunks (st # status) = write_vector_chunk (take 7 (st # status)) @ vector_chunks (drop 7 (st # status))"

definition encode_chunks :: "u8 list \<Rightarrow> bytes" where
  "encode_chunks status =
     (if list_all (\<lambda>s. s = hd status) status
      then write_run_chunk (hd status) (of_nat (length status))
      else vector_chunks status)"

definition encode_delta :: "u8 \<times> int \<Rightarrow> bytes" where
  "encode_delta = (\<lambda>(st, units).
     if st = TWCC_STATUS_SMALL_DELTA then [of_int units]
     else if st = TWCC_STATUS_LARGE_DELTA then be16_bytes (of_int units)
     else [])"

definition write_feedback ::
    "bytes \<Rightarrow> u32 \<Rightarrow> u32 \<Rightarrow> u16 \<Rightarrow> nat \<Rightarrow> u32 \<Rightarrow> u8 \<Rightarrow> bytes \<Rightarrow> bytes \<Rightarrow> nat \<Rightarrow> bytes option" where
  "write_feedback buf sender_ssrc media_ssrc base_seq window ref_quant fb_pkt_count chunks deltas pad = do {
     let total = TWCC_FIXED_LEN + length chunks + length deltas;
     let packet_len = total + pad;
     buf \<leftarrow> wr buf 0 (0x80 OR 15);
     buf \<leftarrow> (if pad \<noteq> 0 then do { b0 \<leftarrow> rd buf 0; wr buf 0 (b0 OR 0x20) } else Some buf);
     buf \<leftarrow> wr buf 1 205;
     buf \<leftarrow> sfu_write_be16 buf 2 (of_nat (packet_len div 4 - 1));
     buf \<leftarrow> sfu_write_be32 buf 4 sender_ssrc;
     buf \<leftarrow> sfu_write_be32 buf 8 media_ssrc;
     buf \<leftarrow> sfu_write_be16 buf 12 base_seq;
     buf \<leftarrow> sfu_write_be16 buf 14 (of_nat window);
     buf \<leftarrow> wr buf 16 (ucast (drop_bit 16 ref_quant));
     buf \<leftarrow> wr buf 17 (ucast (drop_bit 8 ref_quant));
     buf \<leftarrow> wr buf 18 (ucast ref_quant);
     buf \<leftarrow> wr buf 19 fb_pkt_count;
     buf \<leftarrow> wr_bytes buf TWCC_FIXED_LEN chunks;
     buf \<leftarrow> wr_bytes buf (TWCC_FIXED_LEN + length chunks) deltas;
     if pad \<noteq> 0
     then do { buf \<leftarrow> mem_set buf total pad; wr buf (packet_len - 1) (of_nat pad) }
     else Some buf
   }"

definition sfu_twcc_feedback_build ::
    "sfu_twcc_recv_tracker \<Rightarrow> u32 \<Rightarrow> u32 \<Rightarrow> int \<Rightarrow> bytes \<Rightarrow> nat \<Rightarrow>
     (sfu_twcc_recv_tracker \<times> bytes \<times> int) option" where
  "sfu_twcc_feedback_build t sender_ssrc media_ssrc now_us buf cap =
     (if \<not> sfu_twcc_recv_tracker_pending t then Some (t, buf, 0)
      else
        let base_seq = tr_report_start_seq t;
            window = feedback_window t;
            arrivals = window_arrivals t base_seq window
        in if list_all (\<lambda>a. a = None) arrivals
           then Some (t\<lparr>tr_report_start_seq := base_seq + of_nat window\<rparr>, buf, 0)
           else
             let ref_us = reference_us arrivals;
                 ref_floored_us = c_quot ref_us 64000 * 64000;
                 ref_quant = of_int (c_quot ref_us 64000) AND 0xFFFFFF;
                 q = quantise ref_floored_us arrivals;
                 chunks = encode_chunks (map fst q);
                 deltas = concat (map encode_delta q);
                 total = TWCC_FIXED_LEN + length chunks + length deltas;
                 pad = (4 - total mod 4) mod 4;
                 packet_len = total + pad
             in if packet_len > cap then Some (t, buf, -1)
                else do {
                  buf \<leftarrow> write_feedback buf sender_ssrc media_ssrc base_seq window ref_quant
                    (tr_fb_pkt_count t) chunks deltas pad;
                  Some (t\<lparr>tr_fb_pkt_count := tr_fb_pkt_count t + 1,
                    tr_report_start_seq := base_seq + of_nat window, tr_last_feedback_us := now_us\<rparr>,
                    buf, int packet_len)
                })"

section \<open>The tracker as a direct-mapped cache\<close>

lemma recv_idx_less [simp]: "recv_idx seq < 1024"
  using unat_and_le [of seq SFU_TWCC_RECV_MASK] by (simp add: recv_idx_def)

interpretation recv: direct_mapped "\<lambda>t. length (tr_entries t) = SFU_TWCC_RECV_CAPACITY" "\<lambda>_. True" recv_idx
    "\<lambda>t (seq, arrival). sfu_twcc_recv_tracker_record t seq arrival" window_arrival
proof
  fix t :: sfu_twcc_recv_tracker and k v
  assume len: "length (tr_entries t) = SFU_TWCC_RECV_CAPACITY"
  have "\<exists>t'. sfu_twcc_recv_tracker_record t k v = Some t' \<and> tr_entries t' =
      (tr_entries t)[recv_idx k := \<lparr>rv_seq = k, rv_arrival_us = v, rv_valid = True\<rparr>]"
    using len by (simp add: sfu_twcc_recv_tracker_record_def Let_def)
  then show "ok (case (k, v) of (seq, arrival) \<Rightarrow> sfu_twcc_recv_tracker_record t seq arrival) (\<lambda>t'.
      length (tr_entries t') = SFU_TWCC_RECV_CAPACITY \<and> (\<forall>k'. window_arrival t' k' =
      (if k = k' then Some v else if recv_idx k = recv_idx k' then None else window_arrival t k')))"
    using len by (auto simp: ok_def window_arrival_def Let_def nth_list_update)
qed

section \<open>Accuracy of the reported times\<close>

text \<open>The receive times a reader of the feedback reconstructs.\<close>

fun replay :: "int \<Rightarrow> (u8 \<times> int) list \<Rightarrow> int option list" where
  "replay clock_us [] = []"
| "replay clock_us ((st, units) # q) =
     (if st = TWCC_STATUS_NOT_RECEIVED then None # replay clock_us q
      else Some (clock_us + units * 250) # replay (clock_us + units * 250) q)"

text \<open>Consecutive receptions at most eight seconds apart, the first from \<open>prev\<close>.\<close>

fun steady :: "int \<Rightarrow> int option list \<Rightarrow> bool" where
  "steady prev [] = True"
| "steady prev (None # as) = steady prev as"
| "steady prev (Some a # as) = (\<bar>a - prev\<bar> \<le> 8000000 \<and> steady a as)"

lemma delta_units_error: "\<bar>delta_units d * 250 - d\<bar> \<le> 125"
proof -
  have "\<bar>(x + 125) div 250 * 250 - x\<bar> \<le> 125" for x :: int
    by presburger
  from this [of d] this [of "- d"] show ?thesis
    by (auto simp: delta_units_def abs_if)
qed

lemma delta_units_range: "\<bar>d\<bar> \<le> 8191000 \<Longrightarrow> - 32768 \<le> delta_units d \<and> delta_units d \<le> 32767"
  using delta_units_error [of d] by linarith

lemma quantise_accurate:
  assumes "steady prev as" "\<bar>clock - prev\<bar> \<le> 64000"
  shows "list_all2 (\<lambda>a t. case a of None \<Rightarrow> t = None | Some x \<Rightarrow> \<exists>y. t = Some y \<and> \<bar>y - x\<bar> \<le> 125)
    as (replay clock (quantise clock as))"
  using assms
proof (induction clock as arbitrary: prev rule: quantise.induct)
  case (3 clock a as)
  have gap: "\<bar>a - clock\<bar> \<le> 8191000"
    using "3.prems"(2) conjunct1 [OF "3.prems"(1) [unfolded steady.simps]] by linarith
  define u where "u = delta_units (a - clock)"
  have u: "- 32768 \<le> u" "u \<le> 32767" "\<bar>clock + u * 250 - a\<bar> \<le> 125"
    using delta_units_range [OF gap] delta_units_error [of "a - clock"] by (auto simp: u_def)
  have q: "quantise clock (Some a # as) = ((if u < 0 \<or> u > 255 then 2 else 1), u) # quantise (clock + u * 250) as"
    using u by (auto simp: Let_def u_def)
  have "list_all2 (\<lambda>a t. case a of None \<Rightarrow> t = None | Some x \<Rightarrow> \<exists>y. t = Some y \<and> \<bar>y - x\<bar> \<le> 125)
      as (replay (clock + u * 250) (quantise (clock + u * 250) as))"
    using "3.IH" [OF refl refl refl refl refl, of a] "3.prems" u by (simp add: u_def)
  then show ?case
    unfolding q using u(3) by simp
qed simp_all



section \<open>The builder stays within its buffers\<close>

lemma length_quantise [simp]: "length (quantise c as) = length as"
  by (induction c as rule: quantise.induct) (auto simp: Let_def)

lemma length_be16_bytes [simp]: "length (be16_bytes v) = 2"
  by (simp add: be16_bytes_def)

lemma length_vector_chunks: "length (vector_chunks st) = 2 * ((length st + 6) div 7)"
proof (induction st rule: vector_chunks.induct)
  case (2 x xs)
  have "(7 + n) div 7 = 1 + (n - 6 + 6) div 7" for n :: nat
    by presburger
  from this [of "length xs"] show ?case
    using 2 by (simp add: write_vector_chunk_def)
qed simp

lemma length_deltas: "length (concat (map encode_delta q)) \<le> 2 * length q"
  by (induction q) (auto simp: encode_delta_def)

lemma feedback_window_range: "0 < feedback_window t \<and> feedback_window t \<le> SFU_TWCC_FEEDBACK_MAX_PACKETS"
  by (simp add: feedback_window_def Let_def)

lemma encode_chunks_length: "0 < length st \<Longrightarrow> length (encode_chunks st) \<le> 2 * length st"
  using length_vector_chunks [of st] by (auto simp: encode_chunks_def write_run_chunk_def Suc_le_eq)

text \<open>The bytes of the packet, as the parser reads them.\<close>

lemma write_feedback_bytes:
  assumes "20 + length chunks + length deltas + pad \<le> length buf"
  shows "ok (write_feedback buf s m base window rq fc chunks deltas pad) (\<lambda>b. length b = length buf \<and>
    b ! 14 = ucast (drop_bit 8 (of_nat window :: u16)) \<and> b ! 15 = ucast (of_nat window :: u16) \<and>
    (\<forall>j < length chunks. b ! (20 + j) = chunks ! j))"
proof -
  define hdr where "hdr = do {
     buf \<leftarrow> wr buf 0 (0x80 OR 15);
     buf \<leftarrow> (if pad \<noteq> 0 then do { b0 \<leftarrow> rd buf 0; wr buf 0 (b0 OR 0x20) } else Some buf);
     buf \<leftarrow> wr buf 1 205;
     buf \<leftarrow> sfu_write_be16 buf 2 (of_nat ((20 + length chunks + length deltas + pad) div 4 - 1));
     buf \<leftarrow> sfu_write_be32 buf 4 s;
     buf \<leftarrow> sfu_write_be32 buf 8 m;
     buf \<leftarrow> sfu_write_be16 buf 12 base;
     buf \<leftarrow> sfu_write_be16 buf 14 (of_nat window);
     buf \<leftarrow> wr buf 16 (ucast (drop_bit 16 rq));
     buf \<leftarrow> wr buf 17 (ucast (drop_bit 8 rq));
     buf \<leftarrow> wr buf 18 (ucast rq);
     wr buf 19 fc }"
  have split: "write_feedback buf s m base window rq fc chunks deltas pad = do {
     buf \<leftarrow> hdr;
     buf \<leftarrow> wr_bytes buf 20 chunks;
     buf \<leftarrow> wr_bytes buf (20 + length chunks) deltas;
     if pad \<noteq> 0
     then do { buf \<leftarrow> mem_set buf (20 + length chunks + length deltas) pad;
               wr buf (20 + length chunks + length deltas + pad - 1) (of_nat pad) }
     else Some buf }"
    unfolding write_feedback_def hdr_def Let_def bind_assoc by simp
  have "buf \<noteq> []"
    using assms by auto
  then have hdr: "ok hdr (\<lambda>b. length b = length buf \<and> b ! 14 = ucast (drop_bit 8 (of_nat window :: u16)) \<and>
      b ! 15 = ucast (of_nat window :: u16))"
    unfolding hdr_def ok_simps using assms \<open>buf \<noteq> []\<close> by (simp add: nth_upd)
  show ?thesis
    unfolding split
  proof (rule ok_bindI [OF hdr])
    fix b :: bytes
    assume "length b = length buf \<and> b ! 14 = ucast (drop_bit 8 (of_nat window :: u16)) \<and>
      b ! 15 = ucast (of_nat window :: u16)"
    then show "ok (do { b \<leftarrow> wr_bytes b 20 chunks;
        b \<leftarrow> wr_bytes b (20 + length chunks) deltas;
        if pad \<noteq> 0
        then do { b \<leftarrow> mem_set b (20 + length chunks + length deltas) pad;
               wr b (20 + length chunks + length deltas + pad - 1) (of_nat pad) }
        else Some b }) (\<lambda>b. length b = length buf \<and> b ! 14 = ucast (drop_bit 8 (of_nat window :: u16)) \<and>
      b ! 15 = ucast (of_nat window :: u16) \<and> (\<forall>j < length chunks. b ! (20 + j) = chunks ! j))"
      using assms unfolding ok_simps by (auto simp: nth_overwrite nth_upd)
  qed
qed

section \<open>The project's parser rejects its own mixed feedback\<close>

lemma vector_symbols_mono: "bit c n \<Longrightarrow> bit (vector_symbols k symbols c) n"
  by (induction k symbols c rule: vector_symbols.induct) (auto simp: bit_or_iff)

lemma vector_chunks_nth:
  assumes "7 * k < length st"
  shows "2 * k + 1 < length (vector_chunks st) \<and>
    be16 (vector_chunks st ! (2 * k)) (vector_chunks st ! (2 * k + 1)) =
      vector_symbols 0 (take 7 (drop (7 * k) st)) (0x8000 OR 0x4000)"
  using assms
proof (induction k arbitrary: st)
  case 0
  then obtain x xs where "st = x # xs"
    by (cases st) auto
  then show ?case
    by (simp add: write_vector_chunk_def be16_bytes_def)
next
  case (Suc k)
  then obtain x xs where st: "st = x # xs"
    by (cases st) auto
  have "7 * k < length (drop 7 st)"
    using Suc.prems by simp
  note IH = Suc.IH [OF this]
  have "vector_chunks st = write_vector_chunk (take 7 st) @ vector_chunks (drop 7 st)"
    by (simp add: st)
  moreover have "length (write_vector_chunk (take 7 st)) = 2"
    by (simp add: write_vector_chunk_def)
  ultimately show ?case
    using IH by (simp add: nth_append add.commute One_nat_def)
qed

lemma quantise_status:
  "i < length as \<Longrightarrow> fst (quantise c as ! i) = 0 \<longleftrightarrow> as ! i = None"
proof (induction c as arbitrary: i rule: quantise.induct)
  case (2 c as)
  then show ?case
    by (cases i) simp_all
next
  case (3 c a as)
  then show ?case
    by (cases i) (simp_all add: Let_def)
qed simp

lemma mixed_not_homogeneous:
  assumes "None \<in> set as" "Some a \<in> set as"
  shows "encode_chunks (map fst (quantise c as)) = vector_chunks (map fst (quantise c as))"
proof -
  obtain i j where ij: "i < length as" "as ! i = None" "j < length as" "as ! j = Some a"
    using assms by (metis in_set_conv_nth)
  let ?st = "map fst (quantise c as)"
  have "?st ! i \<noteq> ?st ! j" "?st ! i \<in> set ?st" "?st ! j \<in> set ?st"
    using ij quantise_status [of i as c] quantise_status [of j as c] by (auto intro!: nth_mem)
  then have "\<not> list_all (\<lambda>s. s = hd ?st) ?st"
    unfolding list_all_iff by metis
  then show ?thesis
    by (simp add: encode_chunks_def)
qed

lemma and_bit: "bit x n \<Longrightarrow> x AND 2 ^ n \<noteq> 0" for x :: "'a :: len word"
proof -
  assume "bit x n"
  then have "bit (x AND 2 ^ n) n"
    by (auto simp: bit_simps dest: bit_imp_le_length)
  then show ?thesis
    by auto
qed

text \<open>Property C25. When part of a window of at least seven packets was lost and the window is not a
  multiple of seven, the feedback the builder produces is rejected by the project's own
  feedback parser.\<close>

theorem twcc_own_feedback_rejected:
  assumes "sfu_twcc_recv_tracker_pending t" "w = feedback_window t" "7 \<le> w" "\<not> 7 dvd w"
    and "as = window_arrivals t (tr_report_start_seq t) w" "None \<in> set as" "Some a \<in> set as"
    and "20 + 4 * w + 3 \<le> cap" "cap \<le> length buf"
  shows "\<exists>t' b n. sfu_twcc_feedback_build t s m now buf cap = Some (t', b, n) \<and> 0 < n \<and>
    sfu_twcc_parser_init b (nat n) anchor = Some Reject"
proof -
  define q where "q = quantise (c_quot (reference_us as) 64000 * 64000) as"
  define chunks deltas where "chunks = encode_chunks (map fst q)" and "deltas = concat (map encode_delta q)"
  define pad where "pad = (4 - (20 + length chunks + length deltas) mod 4) mod 4"
  have len: "length as = w" "length q = w"
    by (simp_all add: assms(5) window_arrivals_def q_def)
  have vec: "chunks = vector_chunks (map fst q)"
    using mixed_not_homogeneous [OF assms(6,7)] by (simp add: chunks_def q_def)
  have fits: "20 + length chunks + length deltas + pad \<le> cap"
  proof -
    have "length chunks \<le> 2 * w" "length deltas \<le> 2 * w"
      using encode_chunks_length [of "map fst q"] length_deltas [of q] assms(3) len
      by (simp_all add: chunks_def deltas_def)
    moreover have "pad \<le> 3"
      by (simp add: pad_def)
    ultimately show ?thesis
      using assms(8) by linarith
  qed
  then have "20 + length chunks + length deltas + pad \<le> length buf"
    using assms(9) by linarith
  then obtain b where b: "write_feedback buf s m (tr_report_start_seq t) w
      (of_int (c_quot (reference_us as) 64000) AND 0xFFFFFF) (tr_fb_pkt_count t) chunks deltas pad = Some b"
    "length b = length buf" "b ! 14 = ucast (drop_bit 8 (of_nat w :: u16))" "b ! 15 = ucast (of_nat w :: u16)"
    "\<forall>j < length chunks. b ! (20 + j) = chunks ! j"
    by (rule okE [OF write_feedback_bytes]) blast
  define n where "n = 20 + length chunks + length deltas + pad"
  have "\<not> list_all (\<lambda>a. a = None) as"
    using assms(7) by (auto simp: list_all_iff)
  then have build: "sfu_twcc_feedback_build t s m now buf cap = Some (t\<lparr>tr_fb_pkt_count := tr_fb_pkt_count t + 1,
      tr_report_start_seq := tr_report_start_seq t + of_nat w, tr_last_feedback_us := now\<rparr>, b, int n)"
    using assms(1) fits b(1) unfolding sfu_twcc_feedback_build_def Let_def assms(2) [symmetric] assms(5) [symmetric]
      q_def [symmetric] chunks_def [symmetric] deltas_def [symmetric] pad_def [symmetric]
    by (simp add: n_def)
  have count: "be16 (b ! 14) (b ! 15) = of_nat w" "unat (of_nat w :: u16) = w"
    using b(3,4) feedback_window_range [of t] assms(2) by (simp_all add: unat_of_nat_less)
  have "two_bit_chunks b n w"
    unfolding two_bit_chunks_def Let_def
  proof (intro allI impI)
    fix k
    assume "7 * k < w \<and> 20 + 2 * k + 2 \<le> n"
    then have k: "7 * k < length (map fst q)"
      using len by simp
    have "be16 (b ! (20 + 2 * k)) (b ! (20 + 2 * k + 1)) =
        vector_symbols 0 (take 7 (drop (7 * k) (map fst q))) (0x8000 OR 0x4000)"
      using vector_chunks_nth [OF k] spec [OF b(5), of "2 * k"] spec [OF b(5), of "2 * k + 1"]
        add_lessD1 [OF conjunct1 [OF vector_chunks_nth [OF k]]]
      unfolding vec add.assoc by (simp only: simp_thms)
    moreover have "bit (vector_symbols 0 (take 7 (drop (7 * k) (map fst q))) (0x8000 OR 0x4000)) i" if "i = 14 \<or> i = 15" for i
      using that by (intro vector_symbols_mono) (auto simp: One_nat_def)
    ultimately show "be16 (b ! (20 + 2 * k)) (b ! (20 + 2 * k + 1)) AND 0x8000 \<noteq> 0 \<and>
        be16 (b ! (20 + 2 * k)) (b ! (20 + 2 * k + 1)) AND 0x4000 \<noteq> 0"
      using and_bit [of _ 15, where ?'a = 16] and_bit [of _ 14, where ?'a = 16] by simp
  qed
  then have "sfu_twcc_parser_init b n anchor = Some Reject"
    using validate_two_bit [of n b "of_nat w" 20 0 0] count assms(3,4,9) fits b(2)
    by (simp add: sfu_twcc_parser_init_def n_def)
  moreover have "0 < n"
    by (simp add: n_def)
  ultimately show ?thesis
    using build by simp
qed

text \<open>Eight packets of which the third was lost.\<close>

definition sample_tracker :: sfu_twcc_recv_tracker where
  "sample_tracker = sfu_twcc_recv_tracker_init\<lparr>tr_started := True, tr_report_start_seq := 10, tr_latest_seq := 17,
     tr_entries := map (\<lambda>i. \<lparr>rv_seq = of_nat i, rv_arrival_us = 1000000 + 1000 * int i,
       rv_valid = (10 \<le> i \<and> i \<le> 17 \<and> i \<noteq> 12)\<rparr>) [0..<1024]\<rparr>"

theorem twcc_own_feedback_rejected_witness:
  "\<exists>t' b n. sfu_twcc_feedback_build sample_tracker 1 2 0 (replicate 1200 0) 1200 = Some (t', b, n) \<and> 0 < n \<and>
    sfu_twcc_parser_init b (nat n) 0 = Some Reject"
proof (rule twcc_own_feedback_rejected [OF _ refl _ _ refl])
  have arr: "window_arrival sample_tracker 12 = None" "window_arrival sample_tracker 10 = Some 1010000"
    by (simp_all add: window_arrival_def sample_tracker_def recv_idx_def)
  have w: "feedback_window sample_tracker = 8"
    by (simp add: feedback_window_def sample_tracker_def Let_def)
  then show "7 \<le> feedback_window sample_tracker" "\<not> 7 dvd feedback_window sample_tracker"
    "20 + 4 * feedback_window sample_tracker + 3 \<le> 1200"
    by simp_all
  show "sfu_twcc_recv_tracker_pending sample_tracker"
    by (simp add: sfu_twcc_recv_tracker_pending_def sample_tracker_def)
  have at: "window_arrival sample_tracker (10 + of_nat i) \<in>
      set (window_arrivals sample_tracker (tr_report_start_seq sample_tracker) (feedback_window sample_tracker))"
    if "i < 8" for i
    using that w by (auto simp: window_arrivals_def sample_tracker_def)
  show "None \<in> set (window_arrivals sample_tracker (tr_report_start_seq sample_tracker) (feedback_window sample_tracker))"
    "Some 1010000 \<in> set (window_arrivals sample_tracker (tr_report_start_seq sample_tracker) (feedback_window sample_tracker))"
    using at [of 2] at [of 0] arr by simp_all
qed simp

end
