(* ===== verification/Spec2Isabelle.thy ===== *)
theory Spec2Isabelle
  imports Bandwidth_Allocator Gcc Paced_Send_Invariant Rtcp Rtp_Build Rtp_Seq_Translate Twcc_Feedback
begin

text \<open>
  Verification of the packet and congestion core of the mezon-sfu selective
  forwarding unit.
\<close>

end
